(* ===== verification/Torana_Prelude.thy ===== *)
theory Torana_Prelude
  imports Main "HOL-Library.Multiset" "HOL-Library.Sublist" "HOL-Library.Code_Target_Nat"
begin

text \<open>
  Shared vocabulary of the development: the operations of Rust's standard library on
  strings that the proxy uses, as executable functions on byte strings (\<^typ>\<open>string\<close>, one
  \<^typ>\<open>char\<close> per UTF-8 byte), decimal numbers, and the generic list facts the component
  theories share.  A Rust \<open>str\<close> is valid UTF-8; every operation below that looks for an
  ASCII character therefore agrees with the one on Unicode scalar values.
\<close>

named_theorems str_simps \<open>characteristic equations of the string operations\<close>

section \<open>Prefixes and suffixes\<close>

text \<open>\<open>str::strip_prefix\<close>: the rest after the prefix, or \<open>None\<close>.\<close>

fun strip_prefix :: "string \<Rightarrow> string \<Rightarrow> string option" where
  "strip_prefix [] s = Some s"
| "strip_prefix (p # ps) [] = None"
| "strip_prefix (p # ps) (c # s) = (if p = c then strip_prefix ps s else None)"

lemma strip_prefix_iff [str_simps]: "strip_prefix p s = Some r \<longleftrightarrow> s = p @ r"
  by (induction p s rule: strip_prefix.induct) auto

lemma strip_prefix_None_iff: "strip_prefix p s = None \<longleftrightarrow> \<not> prefix p s"
  by (induction p s rule: strip_prefix.induct) auto

lemma strip_prefix_append [simp]: "strip_prefix p (p @ r) = Some r"
  by (simp add: strip_prefix_iff)

definition starts_with :: "string \<Rightarrow> string \<Rightarrow> bool" where
  "starts_with s p = (strip_prefix p s \<noteq> None)"

lemma starts_with_prefix [str_simps]: "starts_with s p \<longleftrightarrow> prefix p s"
  by (simp add: starts_with_def strip_prefix_None_iff)

definition ends_with :: "string \<Rightarrow> string \<Rightarrow> bool" where
  "ends_with s p = (strip_prefix (rev p) (rev s) \<noteq> None)"

lemma ends_with_suffix [str_simps]: "ends_with s p \<longleftrightarrow> suffix p s"
  by (simp add: ends_with_def strip_prefix_None_iff suffix_to_prefix)

text \<open>\<open>str::trim_end_matches\<close> with a character.\<close>

definition trim_end_matches :: "char \<Rightarrow> string \<Rightarrow> string" where
  "trim_end_matches c s = rev (dropWhile (\<lambda>x. x = c) (rev s))"

lemma trim_end_matches_Nil [simp]: "trim_end_matches c [] = []"
  by (simp add: trim_end_matches_def)

lemma trim_end_matches_snoc [simp]:
  "trim_end_matches c (s @ [x]) = (if x = c then trim_end_matches c s else s @ [x])"
  by (simp add: trim_end_matches_def)

lemma trim_end_matches_last:
  "trim_end_matches c s \<noteq> [] \<Longrightarrow> last (trim_end_matches c s) \<noteq> c"
  by (induction s rule: rev_induct) auto

lemma trim_end_matches_decomp: "\<exists>n. s = trim_end_matches c s @ replicate n c"
proof (induction s rule: rev_induct)
  case Nil
  then show ?case by simp
next
  case (snoc x s)
  show ?case
  proof (cases "x = c")
    case True
    from snoc obtain n where "s = trim_end_matches c s @ replicate n c" by blast
    then have "s @ [x] = trim_end_matches c (s @ [x]) @ replicate (Suc n) c"
      using True by (metis append_assoc replicate_append_same replicate_Suc
        trim_end_matches_snoc)
    then show ?thesis by blast
  next
    case False
    then have "s @ [x] = trim_end_matches c (s @ [x]) @ replicate 0 c" by simp
    then show ?thesis by blast
  qed
qed

section \<open>Splitting\<close>

text \<open>\<open>str::split\<close> on one character: always at least one piece.\<close>

fun split_on :: "char \<Rightarrow> string \<Rightarrow> string list" where
  "split_on c [] = [[]]"
| "split_on c (x # s) =
     (if x = c then [] # split_on c s
      else case split_on c s of [] \<Rightarrow> [[x]] | p # ps \<Rightarrow> (x # p) # ps)"

lemma split_on_not_Nil [simp]: "split_on c s \<noteq> []"
  by (cases s) (auto split: list.splits)

lemma hd_split_on [str_simps]: "hd (split_on c s) = takeWhile (\<lambda>x. x \<noteq> c) s"
proof (induction s)
  case (Cons x s)
  then show ?case by (cases "split_on c s") auto
qed simp

lemma split_on_no_sep: "c \<notin> set s \<Longrightarrow> split_on c s = [s]"
  by (induction s) auto

lemma split_on_sep_free: "p \<in> set (split_on c s) \<Longrightarrow> c \<notin> set p"
proof (induction s arbitrary: p)
  case (Cons x s)
  then show ?case by (cases "split_on c s") (auto split: if_splits)
qed simp

text \<open>\<open>str::rsplit_once\<close>: around the last occurrence.\<close>

definition rsplit_once :: "char \<Rightarrow> string \<Rightarrow> (string \<times> string) option" where
  "rsplit_once c s = (case dropWhile (\<lambda>x. x \<noteq> c) (rev s) of
      [] \<Rightarrow> None
    | _ # r \<Rightarrow> Some (rev r, rev (takeWhile (\<lambda>x. x \<noteq> c) (rev s))))"

lemma rsplit_once_None [str_simps]: "rsplit_once c s = None \<longleftrightarrow> c \<notin> set s"
proof (cases "c \<in> set s")
  case True
  then have "dropWhile (\<lambda>x. x \<noteq> c) (rev s) \<noteq> []" by (auto simp: dropWhile_eq_Nil_conv)
  with True show ?thesis by (simp add: rsplit_once_def split: list.splits)
next
  case False
  then have "dropWhile (\<lambda>x. x \<noteq> c) (rev s) = []" by (auto simp: dropWhile_eq_Nil_conv)
  with False show ?thesis unfolding rsplit_once_def by (simp only: list.case) simp
qed

lemma rsplit_once_append: "c \<notin> set b \<Longrightarrow> rsplit_once c (a @ c # b) = Some (a, b)"
  by (simp add: rsplit_once_def dropWhile_append takeWhile_append)

lemma rsplit_once_SomeD:
  assumes "rsplit_once c s = Some (a, b)"
  shows "s = a @ c # b \<and> c \<notin> set b"
proof -
  obtain x r where d: "dropWhile (\<lambda>x. x \<noteq> c) (rev s) = x # r"
    and ab: "a = rev r" "b = rev (takeWhile (\<lambda>x. x \<noteq> c) (rev s))"
    using assms by (auto simp: rsplit_once_def split: list.splits)
  have "x = c" using d by (metis (mono_tags, lifting) hd_dropWhile list.distinct(1) list.sel(1))
  moreover have "rev s = takeWhile (\<lambda>x. x \<noteq> c) (rev s) @ x # r"
    using d by (metis takeWhile_dropWhile_id)
  ultimately have "s = a @ c # b" using ab
    by (metis append_Cons append_Nil append_assoc rev.simps(2) rev_append rev_rev_ident)
  moreover have "c \<notin> set b" using ab by (auto dest: set_takeWhileD)
  ultimately show ?thesis by blast
qed

section \<open>ASCII case\<close>

definition char_code :: "char \<Rightarrow> nat" where
  "char_code c = of_char c"

definition ascii_lower :: "char \<Rightarrow> char" where
  "ascii_lower c = (if 65 \<le> char_code c \<and> char_code c \<le> 90
     then char_of (char_code c + 32) else c)"

definition to_ascii_lowercase :: "string \<Rightarrow> string" where
  "to_ascii_lowercase s = map ascii_lower s"

definition eq_ignore_ascii_case :: "string \<Rightarrow> string \<Rightarrow> bool" where
  "eq_ignore_ascii_case s t = (to_ascii_lowercase s = to_ascii_lowercase t)"

lemma char_code_less: "char_code c < 256"
  by (simp add: char_code_def)

lemma char_code_ascii_lower:
  "char_code (ascii_lower c) =
     (if 65 \<le> char_code c \<and> char_code c \<le> 90 then char_code c + 32 else char_code c)"
  by (auto simp: ascii_lower_def char_code_def take_bit_eq_mod)

lemma char_code_inject: "char_code c = char_code d \<longleftrightarrow> c = d"
  by (simp add: char_code_def)

lemma ascii_lower_idem [simp]: "ascii_lower (ascii_lower c) = ascii_lower c"
  by (rule char_code_inject [THEN iffD1]) (auto simp: char_code_ascii_lower)

lemma to_ascii_lowercase_idem [simp]:
  "to_ascii_lowercase (to_ascii_lowercase s) = to_ascii_lowercase s"
  by (simp add: to_ascii_lowercase_def)

lemma to_ascii_lowercase_append [simp]:
  "to_ascii_lowercase (s @ t) = to_ascii_lowercase s @ to_ascii_lowercase t"
  by (simp add: to_ascii_lowercase_def)

lemma length_to_ascii_lowercase [simp]: "length (to_ascii_lowercase s) = length s"
  by (simp add: to_ascii_lowercase_def)

section \<open>White space\<close>

text \<open>
  \<open>char::is_whitespace\<close> (the Unicode property White\_Space) on UTF-8 bytes: the function
  drops one white-space character from the front of a byte string, if there is one.  The
  multi-byte ones are U+0085, U+00A0, U+1680, U+2000 to U+200A, U+2028, U+2029, U+202F,
  U+205F and U+3000.
\<close>

definition ascii_ws :: "nat \<Rightarrow> bool" where
  "ascii_ws n = (n = 32 \<or> 9 \<le> n \<and> n \<le> 13)"

definition ws_multi :: "nat list \<Rightarrow> bool" where
  "ws_multi ns = (ns \<in> set [[194, 133], [194, 160], [225, 154, 128], [226, 128, 168],
     [226, 128, 169], [226, 128, 175], [226, 129, 159], [227, 128, 128]]
     \<or> (\<exists>k \<in> set [128..<139]. ns = [226, 128, k]))"

fun ws_front :: "string \<Rightarrow> string option" where
  "ws_front [] = None"
| "ws_front (a # s) =
     (if ascii_ws (char_code a) then Some s
      else case s of
        [] \<Rightarrow> None
      | b # t \<Rightarrow>
         if ws_multi [char_code a, char_code b] then Some t
         else (case t of
             [] \<Rightarrow> None
           | c # u \<Rightarrow> if ws_multi [char_code a, char_code b, char_code c] then Some u else None))"

lemma ws_front_length: "ws_front s = Some r \<Longrightarrow> length r < length s"
  by (cases s) (auto split: if_splits list.splits)

text \<open>The same at the end of a string; the argument is the reversed string.\<close>

fun ws_back :: "string \<Rightarrow> string option" where
  "ws_back [] = None"
| "ws_back (c # s) =
     (if ascii_ws (char_code c) then Some s
      else case s of
        [] \<Rightarrow> None
      | b # t \<Rightarrow>
         if ws_multi [char_code b, char_code c] then Some t
         else (case t of
             [] \<Rightarrow> None
           | a # u \<Rightarrow> if ws_multi [char_code a, char_code b, char_code c] then Some u else None))"

lemma ws_back_length: "ws_back s = Some r \<Longrightarrow> length r < length s"
  by (cases s) (auto split: if_splits list.splits)

function trim_start :: "string \<Rightarrow> string" where
  "trim_start s = (case ws_front s of None \<Rightarrow> s | Some r \<Rightarrow> trim_start r)"
  by pat_completeness auto
termination by (relation "measure length") (auto dest: ws_front_length)

function trim_rev :: "string \<Rightarrow> string" where
  "trim_rev s = (case ws_back s of None \<Rightarrow> s | Some r \<Rightarrow> trim_rev r)"
  by pat_completeness auto
termination by (relation "measure length") (auto dest: ws_back_length)

declare trim_start.simps [simp del] trim_rev.simps [simp del]

text \<open>\<open>str::trim\<close>.\<close>

definition trim :: "string \<Rightarrow> string" where
  "trim s = rev (trim_rev (rev (trim_start s)))"

text \<open>\<open>str::split_whitespace\<close>: the maximal runs without white space; \<open>cur\<close> holds the
  current run, reversed.\<close>

function split_ws :: "string \<Rightarrow> string \<Rightarrow> string list" where
  "split_ws cur s = (case ws_front s of
      Some r \<Rightarrow> (if cur = [] then split_ws [] r else rev cur # split_ws [] r)
    | None \<Rightarrow> (case s of
          [] \<Rightarrow> (if cur = [] then [] else [rev cur])
        | c # r \<Rightarrow> split_ws (c # cur) r))"
  by pat_completeness auto
termination by (relation "measure (\<lambda>(cur, s). length s)") (auto dest: ws_front_length)

declare split_ws.simps [simp del]

definition split_whitespace :: "string \<Rightarrow> string list" where
  "split_whitespace s = split_ws [] s"

text \<open>\<open>Iterator::nth\<close>.\<close>

fun nth_opt :: "nat \<Rightarrow> 'a list \<Rightarrow> 'a option" where
  "nth_opt n [] = None"
| "nth_opt 0 (x # xs) = Some x"
| "nth_opt (Suc n) (x # xs) = nth_opt n xs"

section \<open>Decimal numbers\<close>

definition is_digit :: "char \<Rightarrow> bool" where
  "is_digit c = (48 \<le> char_code c \<and> char_code c \<le> 57)"

definition digit_val :: "char \<Rightarrow> nat" where
  "digit_val c = char_code c - 48"

definition digits_val :: "string \<Rightarrow> nat" where
  "digits_val s = foldl (\<lambda>n c. 10 * n + digit_val c) 0 s"

text \<open>
  \<open>str::parse\<close> for an unsigned integer below \<open>bound\<close>: an optional plus sign, then at
  least one digit, then no overflow.
\<close>

definition parse_unsigned :: "nat \<Rightarrow> string \<Rightarrow> nat option" where
  "parse_unsigned bound s =
     (let ds = (case s of [] \<Rightarrow> [] | c # r \<Rightarrow> if c = CHR ''+'' then r else s) in
      if ds = [] \<or> \<not> list_all is_digit ds then None
      else if digits_val ds < bound then Some (digits_val ds) else None)"

definition parse_u16 :: "string \<Rightarrow> nat option" where
  "parse_u16 s = parse_unsigned (2 ^ 16) s"

definition parse_u64 :: "string \<Rightarrow> nat option" where
  "parse_u64 s = parse_unsigned (2 ^ 64) s"

lemma parse_unsigned_bound: "parse_unsigned b s = Some n \<Longrightarrow> n < b"
  by (auto simp: parse_unsigned_def Let_def split: if_splits)

text \<open>\<open>Display\<close> of an unsigned integer.\<close>

fun show_nat :: "nat \<Rightarrow> string" where
  "show_nat n = (if n < 10 then [char_of (48 + n)] else show_nat (n div 10) @ [char_of (48 + n mod 10)])"

declare show_nat.simps [simp del]

lemma char_code_digit: "d < 10 \<Longrightarrow> char_code (char_of (48 + d)) = 48 + d"
  by (simp add: char_code_def take_bit_eq_mod)

lemma show_nat_not_Nil [simp]: "show_nat n \<noteq> []"
  by (subst show_nat.simps) simp

lemma show_nat_digits: "list_all is_digit (show_nat n)"
proof (induction n rule: show_nat.induct)
  case (1 n)
  then show ?case
    by (subst show_nat.simps)
      (auto simp: char_code_digit is_digit_def [of "char_of (48 + _)"] less_Suc_eq_le [symmetric])
qed

lemma digits_val_snoc: "digits_val (s @ [c]) = 10 * digits_val s + digit_val c"
  by (simp add: digits_val_def)

lemma digits_val_show_nat [simp]: "digits_val (show_nat n) = n"
proof (induction n rule: show_nat.induct)
  case (1 n)
  show ?case
  proof (cases "n < 10")
    case True
    then show ?thesis
      by (subst show_nat.simps) (simp add: digits_val_def digit_val_def char_code_digit)
  next
    case False
    with 1 show ?thesis
      by (subst show_nat.simps) (simp add: digits_val_snoc digit_val_def char_code_digit)
  qed
qed

lemma digits_not_plus: "list_all is_digit (c # r) \<Longrightarrow> c \<noteq> CHR ''+''"
  by (auto simp: is_digit_def char_code_def)

lemma digit_ne: "list_all is_digit s \<Longrightarrow> \<not> is_digit c \<Longrightarrow> c \<notin> set s"
  by (auto simp: list_all_iff)

lemma parse_unsigned_digits:
  assumes "list_all is_digit s" "s \<noteq> []"
  shows "parse_unsigned b s = (if digits_val s < b then Some (digits_val s) else None)"
proof -
  obtain c r where "s = c # r" using assms(2) by (cases s) auto
  then show ?thesis using assms digits_not_plus [of c r]
    by (simp add: parse_unsigned_def)
qed

lemma parse_show_nat: "n < b \<Longrightarrow> parse_unsigned b (show_nat n) = Some n"
  by (simp add: parse_unsigned_digits show_nat_digits)

section \<open>Sequenced checks\<close>

text \<open>
  A validation step warns and then either passes (\<open>None\<close>) or fails (\<open>Some e\<close>); a list of
  steps runs in order and stops at the first failure, as a chain of early returns does.
\<close>

type_synonym ('w, 'e) check = "'w list \<times> 'e option"

fun run_checks :: "('w, 'e) check list \<Rightarrow> ('w, 'e) check" where
  "run_checks [] = ([], None)"
| "run_checks ((w, Some e) # cs) = (w, Some e)"
| "run_checks ((w, None) # cs) = (let (w', r) = run_checks cs in (w @ w', r))"

definition reject_if :: "bool \<Rightarrow> 'e \<Rightarrow> ('w, 'e) check" where
  "reject_if b e = ([], if b then Some e else None)"

definition warn_if :: "bool \<Rightarrow> 'w \<Rightarrow> ('w, 'e) check" where
  "warn_if b w = (if b then [w] else [], None)"

lemma reject_if_None [simp]: "snd (reject_if b e) = None \<longleftrightarrow> \<not> b"
  by (simp add: reject_if_def)

lemma warn_if_None [simp]: "snd (warn_if b w) = None"
  by (simp add: warn_if_def)

lemma run_checks_None: "snd (run_checks cs) = None \<longleftrightarrow> (\<forall>c\<in>set cs. snd c = None)"
  by (induction cs rule: run_checks.induct) (auto split: prod.splits)

lemma run_checks_Cons_None [simp]:
  "snd (run_checks (c # cs)) = None \<longleftrightarrow> snd c = None \<and> snd (run_checks cs) = None"
  by (simp add: run_checks_None)

lemma run_checks_append_None [simp]:
  "snd (run_checks (cs @ ds)) = None \<longleftrightarrow> snd (run_checks cs) = None \<and> snd (run_checks ds) = None"
  by (auto simp: run_checks_None)

lemma run_checks_first:
  "(\<forall>c\<in>set cs. snd c = None) \<Longrightarrow> snd (run_checks (cs @ (w, Some e) # ds)) = Some e"
  by (induction cs rule: run_checks.induct) (auto split: prod.splits)

section \<open>Lists\<close>

lemma length_filter_update:
  "i < length xs \<Longrightarrow>
     length (filter P (xs[i := y])) + of_bool (P (xs ! i)) = length (filter P xs) + of_bool (P y)"
proof (induction xs arbitrary: i)
  case (Cons x xs)
  then show ?case by (cases i) auto
qed simp

lemma length_filter_pos: "i < length xs \<Longrightarrow> P (xs ! i) \<Longrightarrow> 0 < length (filter P xs)"
  using nth_mem [of i xs] by (auto simp: filter_empty_conv)

lemma find_SomeD: "find P xs = Some x \<Longrightarrow> x \<in> set xs \<and> P x"
  by (induction xs) (auto split: if_splits)

lemma find_Some_split:
  "find P xs = Some x \<longleftrightarrow> (\<exists>ys zs. xs = ys @ x # zs \<and> P x \<and> (\<forall>y\<in>set ys. \<not> P y))"
proof (induction xs)
  case (Cons a xs)
  show ?case
  proof (cases "P a")
    case True
    have "(\<exists>ys zs. a # xs = ys @ x # zs \<and> P x \<and> (\<forall>y\<in>set ys. \<not> P y)) \<longleftrightarrow> a = x"
      using True by (auto simp: Cons_eq_append_conv intro: exI [of _ "[]"])
    with True show ?thesis by simp
  next
    case False
    have "(\<exists>ys zs. a # xs = ys @ x # zs \<and> P x \<and> (\<forall>y\<in>set ys. \<not> P y)) \<longleftrightarrow>
      (\<exists>ys zs. xs = ys @ x # zs \<and> P x \<and> (\<forall>y\<in>set ys. \<not> P y))"
      (is "?l \<longleftrightarrow> ?r")
    proof
      assume ?l
      then obtain ys zs where "a # xs = ys @ x # zs" "P x" "\<forall>y\<in>set ys. \<not> P y" by blast
      with False show ?r by (cases ys) auto
    next
      assume ?r
      then obtain ys zs where "xs = ys @ x # zs" "P x" "\<forall>y\<in>set ys. \<not> P y" by blast
      with False show ?l by (intro exI [of _ "a # ys"] exI [of _ zs]) simp
    qed
    with False Cons show ?thesis by simp
  qed
qed simp

end
