(* ===== verification/Std_Net.thy ===== *)
theory Std_Net
  imports Torana_Prelude "HOL-Library.Monad_Syntax"
begin

text \<open>
  Rust's \<open>std::net\<close>: the parser behind \<open>str::parse::<SocketAddr>()\<close>, which the configuration
  check and the start-up code apply to listener addresses, and the value a peer address has
  for the proxy (the text of its IP).  The parser follows the standard library's: decimal
  octets without leading zeros, at most four hexadecimal digits in a group, one \<open>::\<close>, an
  embedded IPv4 tail, an optional scope identifier, a mandatory port.
\<close>

definition to_digit :: "nat \<Rightarrow> char \<Rightarrow> nat option" where
  "to_digit radix c =
     (let n = char_code c;
          d = (if 48 \<le> n \<and> n \<le> 57 then n - 48
               else if 97 \<le> n \<and> n \<le> 122 then n - 87
               else if 65 \<le> n \<and> n \<le> 90 then n - 55 else radix)
      in if d < radix then Some d else None)"

definition read_number :: "nat \<Rightarrow> nat option \<Rightarrow> bool \<Rightarrow> nat \<Rightarrow> string \<Rightarrow> (nat \<times> string) option" where
  "read_number radix max_digits zero_prefix bound s =
     (let ds = takeWhile (\<lambda>c. to_digit radix c \<noteq> None) s;
          v = foldl (\<lambda>n c. radix * n + the (to_digit radix c)) 0 ds
      in if ds = [] \<or> (case max_digits of None \<Rightarrow> False | Some m \<Rightarrow> m < length ds)
            \<or> (\<not> zero_prefix \<and> starts_with ds ''0'' \<and> 1 < length ds) \<or> bound \<le> v
         then None else Some (v, drop (length ds) s))"

definition read_given_char :: "char \<Rightarrow> string \<Rightarrow> string option" where
  "read_given_char c s = strip_prefix [c] s"

definition read_separator ::
  "char \<Rightarrow> nat \<Rightarrow> (string \<Rightarrow> ('a \<times> string) option) \<Rightarrow> string \<Rightarrow> ('a \<times> string) option" where
  "read_separator c i p s = (if 0 < i then Option.bind (read_given_char c s) p else p s)"

definition read_octet :: "nat \<Rightarrow> string \<Rightarrow> (nat \<times> string) option" where
  "read_octet i s = read_separator CHR ''.'' i (read_number 10 (Some 3) False 256) s"

definition read_ipv4 :: "string \<Rightarrow> (nat list \<times> string) option" where
  "read_ipv4 s = do {
     (a, s) \<leftarrow> read_octet 0 s;
     (b, s) \<leftarrow> read_octet 1 s;
     (c, s) \<leftarrow> read_octet 2 s;
     (d, s) \<leftarrow> read_octet 3 s;
     Some ([a, b, c, d], s)
   }"

function read_groups :: "nat \<Rightarrow> nat \<Rightarrow> string \<Rightarrow> nat \<times> bool \<times> string" where
  "read_groups limit i s =
     (if i < limit then
        (case (if i < limit - 1 then read_separator CHR '':'' i read_ipv4 s else None) of
           Some (_, r) \<Rightarrow> (i + 2, True, r)
         | None \<Rightarrow>
             (case read_separator CHR '':'' i (read_number 16 (Some 4) True 65536) s of
                Some (_, r) \<Rightarrow> read_groups limit (Suc i) r
              | None \<Rightarrow> (i, False, s)))
      else (limit, False, s))"
  by pat_completeness auto
termination by (relation "measure (\<lambda>(limit, i, s). limit - i)") auto

declare read_groups.simps [simp del]

definition read_ipv6 :: "string \<Rightarrow> string option" where
  "read_ipv6 s =
     (let (head_size, head_ipv4, r) = read_groups 8 0 s in
      if head_size = 8 then Some r
      else if head_ipv4 then None
      else do {
        r \<leftarrow> read_given_char CHR '':'' r;
        r \<leftarrow> read_given_char CHR '':'' r;
        (let (_, _, r) = read_groups (7 - head_size) 0 r in Some r)
      })"

definition read_port :: "string \<Rightarrow> (nat \<times> string) option" where
  "read_port s = Option.bind (read_given_char CHR '':'' s) (read_number 10 None True (2 ^ 16))"

definition read_socket_addr_v4 :: "string \<Rightarrow> string option" where
  "read_socket_addr_v4 s = do {
     (_, r) \<leftarrow> read_ipv4 s;
     (_, r) \<leftarrow> read_port r;
     Some r
   }"

definition read_scope_id :: "string \<Rightarrow> string" where
  "read_scope_id s =
     (case Option.bind (read_given_char CHR ''%'' s) (read_number 10 None True (2 ^ 32)) of
        None \<Rightarrow> s | Some (_, r) \<Rightarrow> r)"

definition read_socket_addr_v6 :: "string \<Rightarrow> string option" where
  "read_socket_addr_v6 s = do {
     r \<leftarrow> read_given_char CHR ''['' s;
     r \<leftarrow> read_ipv6 r;
     r \<leftarrow> read_given_char CHR '']'' (read_scope_id r);
     (_, r) \<leftarrow> read_port r;
     Some r
   }"

text \<open>\<open>SocketAddr::from_str\<close> succeeds: one of the two forms consumes the whole input.\<close>

definition parse_socket_addr :: "string \<Rightarrow> bool" where
  "parse_socket_addr s =
     ((case read_socket_addr_v4 s of None \<Rightarrow> read_socket_addr_v6 s | Some r \<Rightarrow> Some r) = Some [])"

text \<open>The address of a connected peer; \<open>ip_text\<close> is \<open>ip().to_string()\<close>.\<close>

record socket_addr =
  ip_text :: string
  port_num :: nat

end
