(* ===== verification/Http_Api.thy ===== *)
theory Http_Api
  imports Torana_Prelude "HOL-Library.Word"
begin

text \<open>
  The part of the \<open>http\<close> crate (re-exported by hyper) the proxy calls.  The crate is not part
  of the repository, so its functions are a parameter of the model: the record \<open>http_api\<close>
  lists them, and the locale \<open>header_map\<close> states the documented behaviour the proxy relies
  on.  Header names are the normalised (lower-case) byte strings \<open>HeaderName::as_str\<close>
  returns, header values the byte strings of \<open>HeaderValue::as_bytes\<close>, URIs their text,
  methods their \<open>as_str\<close>.  \<open>std_http\<close> is a reference instance on association lists, used
  by witnesses and to show that the laws can be met.
\<close>

record 'm http_api =
  hm_new :: 'm                                    \<comment> \<open>\<open>HeaderMap::new\<close>\<close>
  hm_get :: "'m \<Rightarrow> string \<Rightarrow> string option"        \<comment> \<open>\<open>HeaderMap::get\<close>\<close>
  hm_get_all :: "'m \<Rightarrow> string \<Rightarrow> string list"       \<comment> \<open>\<open>HeaderMap::get_all\<close>\<close>
  hm_insert :: "'m \<Rightarrow> string \<Rightarrow> string \<Rightarrow> 'm"        \<comment> \<open>\<open>HeaderMap::insert\<close>\<close>
  hm_remove :: "'m \<Rightarrow> string \<Rightarrow> 'm"                \<comment> \<open>\<open>HeaderMap::remove\<close>\<close>
  header_name :: "string \<Rightarrow> string option"         \<comment> \<open>\<open>HeaderName::from_bytes\<close>, \<open>from_str\<close>\<close>
  header_value :: "string \<Rightarrow> string option"        \<comment> \<open>\<open>HeaderValue::from_str\<close>\<close>
  header_str :: "string \<Rightarrow> string option"          \<comment> \<open>\<open>HeaderValue::to_str\<close>\<close>
  uri_parse :: "string \<Rightarrow> string option"           \<comment> \<open>\<open>str::parse::<Uri>\<close>\<close>
  uri_path :: "string \<Rightarrow> string"                   \<comment> \<open>\<open>Uri::path\<close>\<close>
  uri_path_and_query :: "string \<Rightarrow> string option"  \<comment> \<open>\<open>Uri::path_and_query\<close>\<close>
  status_from_u16 :: "16 word \<Rightarrow> nat option"       \<comment> \<open>\<open>StatusCode::from_u16\<close>\<close>

text \<open>Bytes that \<open>to_str\<close> yields and \<open>from_str\<close> accepts: visible ASCII, space and tab.\<close>

definition field_char :: "char \<Rightarrow> bool" where
  "field_char c = (char_code c = 9 \<or> 32 \<le> char_code c \<and> char_code c \<le> 126)"

section \<open>What the proxy relies on\<close>

locale header_map =
  fixes H :: "'m http_api"
  assumes get_all_new: "hm_get_all H (hm_new H) k = []"
    and get_first:
      "hm_get H m n = (case hm_get_all H m n of [] \<Rightarrow> None | v # _ \<Rightarrow> Some v)"
    and get_all_insert:
      "hm_get_all H (hm_insert H m n v) k = (if k = n then [v] else hm_get_all H m k)"
    and get_all_remove:
      "hm_get_all H (hm_remove H m n) k = (if k = n then [] else hm_get_all H m k)"
    and name_normalised: "header_name H s = Some n \<Longrightarrow> n = to_ascii_lowercase s"
    and value_bytes: "header_value H s = Some v \<Longrightarrow> v = s"
    and value_accepts: "list_all field_char s \<Longrightarrow> header_value H s \<noteq> None"
    and str_bytes: "header_str H v = Some s \<Longrightarrow> s = v \<and> list_all field_char v"
    and status_range: "100 \<le> unat c \<Longrightarrow> unat c < 1000 \<Longrightarrow> status_from_u16 H c = Some (unat c)"
begin

lemma get_insert:
  "hm_get H (hm_insert H m n v) k = (if k = n then Some v else hm_get H m k)"
  by (simp add: get_first get_all_insert)

lemma get_remove: "hm_get H (hm_remove H m n) k = (if k = n then None else hm_get H m k)"
  by (simp add: get_first get_all_remove)

lemma get_None_iff: "hm_get H m n = None \<longleftrightarrow> hm_get_all H m n = []"
  by (simp add: get_first split: list.splits)

lemma header_value_accepts: "list_all field_char s \<Longrightarrow> header_value H s = Some s"
  using value_accepts value_bytes by fastforce

lemma removes_get_all:
  "hm_get_all H (foldl (hm_remove H) m ns) k = (if k \<in> set ns then [] else hm_get_all H m k)"
  by (induction ns arbitrary: m) (auto simp: get_all_remove)

lemmas header_map_simps = get_all_insert get_all_remove get_insert get_remove removes_get_all

end

section \<open>A reference instance\<close>

text \<open>RFC 9110 token characters.\<close>

definition token_char :: "char \<Rightarrow> bool" where
  "token_char c = (is_digit c \<or> (let n = char_code (ascii_lower c) in 97 \<le> n \<and> n \<le> 122)
     \<or> c \<in> set ''!#$%&*+-.^_`|~'' \<or> char_code c = 39)"

type_synonym assoc_headers = "(string \<times> string) list"

definition assoc_get_all :: "assoc_headers \<Rightarrow> string \<Rightarrow> string list" where
  "assoc_get_all m n = map snd (filter (\<lambda>(k, v). k = n) m)"

definition std_http :: "assoc_headers http_api" where
  "std_http = \<lparr>
     hm_new = [],
     hm_get = (\<lambda>m n. case assoc_get_all m n of [] \<Rightarrow> None | v # _ \<Rightarrow> Some v),
     hm_get_all = assoc_get_all,
     hm_insert = (\<lambda>m n v. filter (\<lambda>(k, _). k \<noteq> n) m @ [(n, v)]),
     hm_remove = (\<lambda>m n. filter (\<lambda>(k, _). k \<noteq> n) m),
     header_name = (\<lambda>s. if s \<noteq> [] \<and> list_all token_char s then Some (to_ascii_lowercase s) else None),
     header_value = (\<lambda>s. if list_all (\<lambda>c. field_char c \<or> 128 \<le> char_code c) s then Some s else None),
     header_str = (\<lambda>s. if list_all field_char s then Some s else None),
     uri_parse = (\<lambda>s. if s \<noteq> [] \<and> list_all (\<lambda>c. 32 < char_code c \<and> char_code c < 127) s
        then Some s else None),
     uri_path = takeWhile (\<lambda>c. c \<noteq> CHR ''?''),
     uri_path_and_query = (\<lambda>s. Some s),
     status_from_u16 = (\<lambda>c. if 100 \<le> unat c \<and> unat c < 1000 then Some (unat c) else None) \<rparr>"

lemma assoc_get_all_remove:
  "assoc_get_all (filter (\<lambda>(k, _). k \<noteq> n) m) k = (if k = n then [] else assoc_get_all m k)"
  by (induction m) (auto simp: assoc_get_all_def)

lemma assoc_get_all_append: "assoc_get_all (m @ l) k = assoc_get_all m k @ assoc_get_all l k"
  by (simp add: assoc_get_all_def)

lemma assoc_get_all_Cons:
  "assoc_get_all ((n, v) # m) k = (if n = k then v # assoc_get_all m k else assoc_get_all m k)"
  by (simp add: assoc_get_all_def)

lemma assoc_get_all_Nil: "assoc_get_all [] k = []"
  by (simp add: assoc_get_all_def)

lemmas assoc_simps = assoc_get_all_remove assoc_get_all_append assoc_get_all_Cons assoc_get_all_Nil

interpretation std: header_map std_http
  by unfold_locales
    (auto simp: std_http_def assoc_simps list_all_iff split: list.splits if_splits)

end
