(* ===== verification/Upstream_Addr.thy ===== *)
theory Upstream_Addr
  imports Torana_Prelude
begin

text \<open>
  \<open>upstream_host_port\<close> of \<open>proxy.rs\<close>: the parser of upstream addresses, shared by the
  configuration check, the health prober and the request path.
\<close>

datatype addr_error = BadPort | NoHost

definition upstream_host_port :: "string \<Rightarrow> addr_error + string \<times> nat" where
  "upstream_host_port upstream =
     (let stripped = (case strip_prefix ''http://'' upstream of None \<Rightarrow> upstream | Some r \<Rightarrow> r);
          rest = hd (split_on CHR ''/'' stripped)
      in case rsplit_once CHR '':'' rest of
           Some (host, port) \<Rightarrow>
             (case parse_u16 port of
                None \<Rightarrow> Inl BadPort
              | Some p \<Rightarrow> if host = [] then Inl NoHost else Inr (host, p))
         | None \<Rightarrow> if rest = [] then Inl NoHost else Inr (rest, 80))"

lemma upstream_host_port_InrD:
  assumes "upstream_host_port u = Inr (h, p)"
  shows "h \<noteq> [] \<and> CHR ''/'' \<notin> set h \<and> p < 2 ^ 16"
proof -
  define rest where "rest = hd (split_on CHR ''/''
    (case strip_prefix ''http://'' u of None \<Rightarrow> u | Some r \<Rightarrow> r))"
  have free: "CHR ''/'' \<notin> set rest"
    unfolding rest_def hd_split_on by (auto dest: set_takeWhileD)
  have res: "(case rsplit_once CHR '':'' rest of
      Some (host, port) \<Rightarrow> (case parse_u16 port of None \<Rightarrow> Inl BadPort
         | Some p \<Rightarrow> if host = [] then Inl NoHost else Inr (host, p))
    | None \<Rightarrow> if rest = [] then Inl NoHost else Inr (rest, 80)) = (Inr (h, p) :: addr_error + _)"
    using assms unfolding upstream_host_port_def Let_def rest_def .
  show ?thesis
  proof (cases "rsplit_once CHR '':'' rest")
    case None
    with res free show ?thesis by (auto split: if_splits)
  next
    case (Some ab)
    obtain a b where ab: "ab = (a, b)" by (cases ab)
    from Some ab have "rest = a @ CHR '':'' # b" by (auto dest: rsplit_once_SomeD)
    with res Some ab free show ?thesis
      by (auto simp: parse_u16_def dest: parse_unsigned_bound split: option.splits if_splits)
  qed
qed

lemma strip_http_None: "CHR ''/'' \<notin> set s \<Longrightarrow> strip_prefix ''http://'' s = None"
  by (cases "strip_prefix ''http://'' s") (auto simp: strip_prefix_iff)

lemma takeWhile_no_sep: "c \<notin> set s \<Longrightarrow> takeWhile (\<lambda>x. x \<noteq> c) s = s"
  by (induction s) auto

lemma show_nat_no_sep: "\<not> is_digit c \<Longrightarrow> c \<notin> set (show_nat n)"
  using digit_ne [OF show_nat_digits] .

lemma digit_seps: "\<not> is_digit CHR '':''" "\<not> is_digit CHR ''/''"
  by (simp_all add: is_digit_def char_code_def)

lemma host_port_of_authority:
  assumes "h \<noteq> []" "CHR ''/'' \<notin> set h" "p < 2 ^ 16" "hd (split_on CHR ''/'' s) = h @ CHR '':'' # show_nat p"
    and "strip_prefix ''http://'' u = Some s \<or> strip_prefix ''http://'' u = None \<and> u = s"
  shows "upstream_host_port u = Inr (h, p)"
proof -
  have "rsplit_once CHR '':'' (h @ CHR '':'' # show_nat p) = Some (h, show_nat p)"
    by (simp add: rsplit_once_append show_nat_no_sep digit_seps)
  moreover have "parse_u16 (show_nat p) = Some p"
    using assms(3) by (simp add: parse_u16_def parse_show_nat)
  ultimately show ?thesis
    using assms by (auto simp: upstream_host_port_def Let_def)
qed

lemma hd_split_authority:
  "CHR ''/'' \<notin> set h \<Longrightarrow> hd (split_on CHR ''/'' (h @ CHR '':'' # show_nat p)) = h @ CHR '':'' # show_nat p"
  by (simp add: hd_split_on takeWhile_no_sep show_nat_no_sep digit_seps)

lemma host_port_print:
  assumes "h \<noteq> []" "CHR ''/'' \<notin> set h" "p < 2 ^ 16"
  shows "upstream_host_port (''http://'' @ h @ CHR '':'' # show_nat p) = Inr (h, p)"
    and "upstream_host_port (h @ CHR '':'' # show_nat p) = Inr (h, p)"
proof -
  let ?a = "h @ CHR '':'' # show_nat p"
  have free: "CHR ''/'' \<notin> set ?a" using assms(2) by (simp add: show_nat_no_sep digit_seps)
  show "upstream_host_port (''http://'' @ ?a) = Inr (h, p)"
    using assms hd_split_authority by (intro host_port_of_authority [where s = ?a]) simp_all
  show "upstream_host_port ?a = Inr (h, p)"
    using assms hd_split_authority strip_http_None [OF free]
    by (intro host_port_of_authority [where s = ?a]) simp_all
qed

end
