(* ===== verification/Config.thy ===== *)
theory Config
  imports Std_Net Http_Api Upstream_Addr
begin

text \<open>
  \<open>config.rs\<close>: the configuration types, the duration parser, the defaults, and the check
  \<open>Config::validate\<close> with every error and warning it can produce, related to a declarative
  description of the configurations the proxy accepts.  A \<open>Duration\<close> is its number of
  milliseconds.  A \<open>HashMap\<close> of header overrides is the list of its entries in iteration
  order.  Cargo features (\<open>cfg!\<close>) are a parameter.
\<close>

section \<open>Configuration types\<close>

record auto_tls_config =
  at_domains :: "string list"
  at_contact_emails :: "string list option"
  at_cache_dir :: "string option"
  at_directory_url :: "string option"
  at_staging :: "bool option"
  at_ca_cert :: "string option"

record listener_config =
  lc_addr :: string
  lc_protocol :: string
  lc_tls_cert :: "string option"
  lc_tls_key :: "string option"
  lc_tls_client_ca :: "string option"
  lc_acme :: "auto_tls_config option"

record upstream_config =
  uc_addr :: string
  uc_weight :: "nat option"

record mirror_config =
  mc_addr :: string
  mc_rate :: "nat option"

record timeout_config =
  tc_connect :: "string option"
  tc_first_byte :: "string option"
  tc_total :: "string option"

type_synonym overrides = "(string \<times> string) list"

record header_config =
  hc_request :: "overrides option"
  hc_response :: "overrides option"

record health_check_config =
  hk_path :: "string option"
  hk_interval :: "string option"
  hk_timeout :: "string option"

record route_config =
  rc_name :: string
  rc_host :: "string option"
  rc_path :: "string option"
  rc_when :: "string option"
  rc_upstream :: "upstream_config list"
  rc_mirror :: "mirror_config option"
  rc_timeout :: timeout_config
  rc_headers :: header_config
  rc_health_check :: "health_check_config option"
  rc_retries :: "nat option"
  rc_plugin :: "string option"

record global_config =
  gc_workers :: "string option"
  gc_log_format :: "string option"
  gc_log_level :: "string option"
  gc_metrics_addr :: "string option"

record config =
  cfg_global :: global_config
  cfg_listener :: "listener_config list"
  cfg_route :: "route_config list"

record features =
  feat_acme :: bool
  feat_plugins :: bool

definition MAX_UPSTREAM_WEIGHT :: nat where
  "MAX_UPSTREAM_WEIGHT = 10000"

definition cache_dir :: "auto_tls_config \<Rightarrow> string" where
  "cache_dir a = (case at_cache_dir a of None \<Rightarrow> ''./acme-cache'' | Some d \<Rightarrow> d)"

section \<open>Durations\<close>

type_synonym duration = nat

datatype duration_error = MissingUnit string | InvalidValue string | UnknownUnit string string

text \<open>
  Minutes are converted with \<open>value * 60\<close> on \<open>u64\<close>, which wraps around in the release
  profile the repository builds.
\<close>

definition parse_duration :: "string \<Rightarrow> duration_error + duration" where
  "parse_duration str =
     (let s = trim str; num = takeWhile is_digit s; unit = dropWhile is_digit s in
      if unit = [] then Inl (MissingUnit s)
      else case parse_u64 num of
          None \<Rightarrow> Inl (InvalidValue s)
        | Some value \<Rightarrow>
            if unit = ''ms'' then Inr value
            else if unit = ''s'' then Inr (1000 * value)
            else if unit = ''m'' then Inr (1000 * unat ((of_nat value :: 64 word) * 60))
            else Inl (UnknownUnit unit s))"

definition ok :: "'e + 'a \<Rightarrow> 'a option" where
  "ok r = (case r of Inl _ \<Rightarrow> None | Inr a \<Rightarrow> Some a)"

definition total_duration :: "timeout_config \<Rightarrow> duration option" where
  "total_duration t = Option.bind (tc_total t) (\<lambda>s. ok (parse_duration s))"

definition hk_path_or_default :: "health_check_config \<Rightarrow> string" where
  "hk_path_or_default hc = (case hk_path hc of None \<Rightarrow> ''/'' | Some p \<Rightarrow> p)"

definition interval_duration :: "health_check_config \<Rightarrow> duration_error + duration" where
  "interval_duration hc = (case hk_interval hc of None \<Rightarrow> Inr 10000 | Some s \<Rightarrow> parse_duration s)"

definition timeout_duration :: "health_check_config \<Rightarrow> duration_error + duration" where
  "timeout_duration hc = (case hk_timeout hc of None \<Rightarrow> Inr 2000 | Some s \<Rightarrow> parse_duration s)"

definition max_attempts :: "route_config \<Rightarrow> nat" where
  "max_attempts r = (case rc_retries r of
      Some n \<Rightarrow> max n 1
    | None \<Rightarrow> if 1 < length (rc_upstream r) then 2 else 1)"

section \<open>Loading\<close>

text \<open>File access and the TOML deserialiser are parameters.\<close>

datatype load_error = ReadFailed string | TomlError string

definition load_config ::
  "(string \<Rightarrow> string option) \<Rightarrow> (string \<Rightarrow> string + config) \<Rightarrow> string \<Rightarrow> load_error + config" where
  "load_config read_to_string toml_from_str path =
     (case read_to_string path of
        None \<Rightarrow> Inl (ReadFailed path)
      | Some content \<Rightarrow> (case toml_from_str content of
            Inl e \<Rightarrow> Inl (TomlError e)
          | Inr c \<Rightarrow> Inr c))"

section \<open>Validation\<close>

datatype config_error =
    NoListener
  | NoRoute
  | InvalidListenerAddr string
  | AcmeRequiresHttps string
  | AcmeExcludesStaticCert string
  | AcmeExcludesMtls string
  | AcmeNoDomains string
  | AcmeBadDirectoryUrl string
  | AcmeNotCompiled string
  | HttpsRequiresCert string
  | UnsupportedProtocol string
  | ClientCaRequiresHttps string
  | NoUpstreams string
  | PathWithoutSlash string string
  | HttpsUpstream string string
  | InvalidUpstream string string addr_error
  | WeightTooLarge string string nat
  | InvalidTotal string duration_error
  | InvalidInterval string duration_error
  | InvalidHealthTimeout string duration_error
  | ZeroRetries string
  | PluginNotCompiled string
  | InvalidMirrorAddr string string addr_error
  | MirrorRateTooLarge string nat
  | InvalidHeaderName string string
  | InvalidHeaderValue string string

datatype config_warning = WhenIgnored string | TimeoutFieldsIgnored string

type_synonym vcheck = "(config_warning, config_error) check"

text \<open>A fallible step whose error is wrapped with context, as \<open>map_err(..)?\<close> does.\<close>

definition reject_err :: "'e + 'a \<Rightarrow> ('e \<Rightarrow> config_error) \<Rightarrow> vcheck" where
  "reject_err r ctx = ([], case r of Inl e \<Rightarrow> Some (ctx e) | Inr _ \<Rightarrow> None)"

definition on_some :: "'a option \<Rightarrow> ('a \<Rightarrow> vcheck list) \<Rightarrow> vcheck list" where
  "on_some x f = (case x of None \<Rightarrow> [] | Some a \<Rightarrow> f a)"

definition validate_acme ::
  "'m http_api \<Rightarrow> features \<Rightarrow> listener_config \<Rightarrow> auto_tls_config \<Rightarrow> vcheck list" where
  "validate_acme H F l acme =
     [reject_if (lc_tls_cert l \<noteq> None \<or> lc_tls_key l \<noteq> None) (AcmeExcludesStaticCert (lc_addr l)),
      reject_if (lc_tls_client_ca l \<noteq> None) (AcmeExcludesMtls (lc_addr l)),
      reject_if (at_domains acme = []) (AcmeNoDomains (lc_addr l))] @
     on_some (at_directory_url acme)
       (\<lambda>url. [reject_if (uri_parse H url = None) (AcmeBadDirectoryUrl (lc_addr l))]) @
     [reject_if (\<not> feat_acme F) (AcmeNotCompiled (lc_addr l))]"

definition validate_listener :: "'m http_api \<Rightarrow> features \<Rightarrow> listener_config \<Rightarrow> vcheck list" where
  "validate_listener H F l =
     [reject_if (\<not> parse_socket_addr (lc_addr l)) (InvalidListenerAddr (lc_addr l))] @
     (if lc_protocol l = ''http'' then
        [reject_if (lc_acme l \<noteq> None) (AcmeRequiresHttps (lc_addr l))]
      else if lc_protocol l = ''https'' then
        (case lc_acme l of
           Some acme \<Rightarrow> validate_acme H F l acme
         | None \<Rightarrow> [reject_if (lc_tls_cert l = None \<or> lc_tls_key l = None)
                       (HttpsRequiresCert (lc_addr l))])
      else [reject_if True (UnsupportedProtocol (lc_protocol l))]) @
     [reject_if (lc_tls_client_ca l \<noteq> None \<and> lc_protocol l \<noteq> ''https'')
        (ClientCaRequiresHttps (lc_addr l))]"

definition validate_upstream :: "string \<Rightarrow> upstream_config \<Rightarrow> vcheck list" where
  "validate_upstream route_name u =
     [reject_if (starts_with (uc_addr u) ''https://'') (HttpsUpstream route_name (uc_addr u)),
      reject_err (upstream_host_port (uc_addr u)) (InvalidUpstream route_name (uc_addr u))] @
     on_some (uc_weight u)
       (\<lambda>w. [reject_if (MAX_UPSTREAM_WEIGHT < w) (WeightTooLarge route_name (uc_addr u) w)])"

definition validate_health :: "string \<Rightarrow> health_check_config \<Rightarrow> vcheck list" where
  "validate_health route_name hc =
     [reject_err (interval_duration hc) (InvalidInterval route_name),
      reject_err (timeout_duration hc) (InvalidHealthTimeout route_name)]"

definition validate_mirror :: "string \<Rightarrow> mirror_config \<Rightarrow> vcheck list" where
  "validate_mirror route_name m =
     [reject_err (upstream_host_port (mc_addr m)) (InvalidMirrorAddr route_name (mc_addr m))] @
     on_some (mc_rate m) (\<lambda>rate. [reject_if (100 < rate) (MirrorRateTooLarge route_name rate)])"

definition validate_override :: "'m http_api \<Rightarrow> string \<Rightarrow> string \<times> string \<Rightarrow> vcheck list" where
  "validate_override H route_name nv =
     (case nv of (name, value) \<Rightarrow>
       [reject_if (header_name H name = None) (InvalidHeaderName route_name name)] @
       (if value \<noteq> [] then [reject_if (header_value H value = None) (InvalidHeaderValue route_name name)]
        else []))"

definition all_overrides :: "header_config \<Rightarrow> overrides" where
  "all_overrides h = (case hc_request h of None \<Rightarrow> [] | Some o1 \<Rightarrow> o1) @
     (case hc_response h of None \<Rightarrow> [] | Some o2 \<Rightarrow> o2)"

definition validate_route :: "'m http_api \<Rightarrow> features \<Rightarrow> route_config \<Rightarrow> vcheck list" where
  "validate_route H F r =
     [reject_if (rc_upstream r = []) (NoUpstreams (rc_name r))] @
     on_some (rc_path r)
       (\<lambda>p. [reject_if (\<not> starts_with p ''/'') (PathWithoutSlash (rc_name r) p)]) @
     concat (map (validate_upstream (rc_name r)) (rc_upstream r)) @
     on_some (tc_total (rc_timeout r))
       (\<lambda>total. [reject_err (parse_duration total) (InvalidTotal (rc_name r))]) @
     on_some (rc_health_check r) (validate_health (rc_name r)) @
     on_some (rc_retries r) (\<lambda>n. [reject_if (n = 0) (ZeroRetries (rc_name r))]) @
     [reject_if (rc_plugin r \<noteq> None \<and> \<not> feat_plugins F) (PluginNotCompiled (rc_name r)),
      warn_if (rc_when r \<noteq> None) (WhenIgnored (rc_name r))] @
     on_some (rc_mirror r) (validate_mirror (rc_name r)) @
     concat (map (validate_override H (rc_name r)) (all_overrides (rc_headers r))) @
     [warn_if (tc_connect (rc_timeout r) \<noteq> None \<or> tc_first_byte (rc_timeout r) \<noteq> None)
        (TimeoutFieldsIgnored (rc_name r))]"

definition validate :: "'m http_api \<Rightarrow> features \<Rightarrow> config \<Rightarrow> vcheck" where
  "validate H F c = run_checks
     ([reject_if (cfg_listener c = []) NoListener,
       reject_if (cfg_route c = []) NoRoute] @
      concat (map (validate_listener H F) (cfg_listener c)) @
      concat (map (validate_route H F) (cfg_route c)))"

definition accepts :: "'m http_api \<Rightarrow> features \<Rightarrow> config \<Rightarrow> bool" where
  "accepts H F c = (snd (validate H F c) = None)"

section \<open>What an accepted configuration is\<close>

definition valid_listener :: "'m http_api \<Rightarrow> features \<Rightarrow> listener_config \<Rightarrow> bool" where
  "valid_listener H F l \<longleftrightarrow> parse_socket_addr (lc_addr l) \<and>
     (case lc_acme l of
        None \<Rightarrow> lc_protocol l = ''http'' \<and> lc_tls_client_ca l = None
          \<or> lc_protocol l = ''https'' \<and> lc_tls_cert l \<noteq> None \<and> lc_tls_key l \<noteq> None
      | Some a \<Rightarrow> lc_protocol l = ''https'' \<and> feat_acme F
          \<and> lc_tls_cert l = None \<and> lc_tls_key l = None \<and> lc_tls_client_ca l = None
          \<and> at_domains a \<noteq> [] \<and> (\<forall>u. at_directory_url a = Some u \<longrightarrow> uri_parse H u \<noteq> None))"

definition valid_upstream :: "upstream_config \<Rightarrow> bool" where
  "valid_upstream u \<longleftrightarrow> \<not> prefix ''https://'' (uc_addr u)
     \<and> (\<exists>h p. upstream_host_port (uc_addr u) = Inr (h, p))
     \<and> (\<forall>w. uc_weight u = Some w \<longrightarrow> w \<le> 10000)"

definition valid_mirror :: "mirror_config \<Rightarrow> bool" where
  "valid_mirror m \<longleftrightarrow> (\<exists>h p. upstream_host_port (mc_addr m) = Inr (h, p))
     \<and> (\<forall>rate. mc_rate m = Some rate \<longrightarrow> rate \<le> 100)"

definition valid_override :: "'m http_api \<Rightarrow> string \<times> string \<Rightarrow> bool" where
  "valid_override H nv \<longleftrightarrow> header_name H (fst nv) \<noteq> None
     \<and> (snd nv = [] \<or> header_value H (snd nv) \<noteq> None)"

definition valid_health :: "health_check_config \<Rightarrow> bool" where
  "valid_health hc \<longleftrightarrow> (\<exists>i. interval_duration hc = Inr i) \<and> (\<exists>t. timeout_duration hc = Inr t)"

definition valid_route :: "'m http_api \<Rightarrow> features \<Rightarrow> route_config \<Rightarrow> bool" where
  "valid_route H F r \<longleftrightarrow> rc_upstream r \<noteq> []
     \<and> (\<forall>p. rc_path r = Some p \<longrightarrow> prefix ''/'' p)
     \<and> (\<forall>u\<in>set (rc_upstream r). valid_upstream u)
     \<and> (\<forall>t. tc_total (rc_timeout r) = Some t \<longrightarrow> (\<exists>d. parse_duration t = Inr d))
     \<and> (\<forall>hc. rc_health_check r = Some hc \<longrightarrow> valid_health hc)
     \<and> rc_retries r \<noteq> Some 0
     \<and> (rc_plugin r \<noteq> None \<longrightarrow> feat_plugins F)
     \<and> (\<forall>m. rc_mirror r = Some m \<longrightarrow> valid_mirror m)
     \<and> (\<forall>nv\<in>set (all_overrides (rc_headers r)). valid_override H nv)"

definition valid_config :: "'m http_api \<Rightarrow> features \<Rightarrow> config \<Rightarrow> bool" where
  "valid_config H F c \<longleftrightarrow> cfg_listener c \<noteq> [] \<and> cfg_route c \<noteq> []
     \<and> (\<forall>l\<in>set (cfg_listener c). valid_listener H F l)
     \<and> (\<forall>r\<in>set (cfg_route c). valid_route H F r)"

abbreviation passes :: "vcheck list \<Rightarrow> bool" where
  "passes cs \<equiv> \<forall>c\<in>set cs. snd c = None"

lemma reject_err_None [simp]: "snd (reject_err r ctx) = None \<longleftrightarrow> (\<exists>a. r = Inr a)"
  by (cases r) (auto simp: reject_err_def)

lemma passes_on_some [simp]:
  "passes (on_some x f) \<longleftrightarrow> (\<forall>a. x = Some a \<longrightarrow> passes (f a))"
  by (cases x) (simp_all add: on_some_def)

lemma ball_set_append: "(\<forall>c\<in>set (xs @ ys). P c) \<longleftrightarrow> (\<forall>c\<in>set xs. P c) \<and> (\<forall>c\<in>set ys. P c)"
  by auto

lemma ball_set_Cons: "(\<forall>c\<in>set (x # xs). P c) \<longleftrightarrow> P x \<and> (\<forall>c\<in>set xs. P c)"
  by auto

lemma passes_concat_map: "passes (concat (map f xs)) \<longleftrightarrow> (\<forall>x\<in>set xs. passes (f x))"
  by auto

lemmas passes_simps = ball_set_append ball_set_Cons passes_concat_map list.set(1) ball_empty
  reject_if_None warn_if_None reject_err_None passes_on_some

lemma passes_listener: "passes (validate_listener H F l) \<longleftrightarrow> valid_listener H F l"
  unfolding validate_listener_def valid_listener_def validate_acme_def
  by (cases "lc_acme l") (auto simp: passes_simps simp del: set_append)

lemma passes_upstream: "passes (validate_upstream n u) \<longleftrightarrow> valid_upstream u"
  unfolding validate_upstream_def valid_upstream_def MAX_UPSTREAM_WEIGHT_def
  by (simp only: passes_simps starts_with_prefix) (auto simp: not_less)

lemma passes_health: "passes (validate_health n hc) \<longleftrightarrow> valid_health hc"
  unfolding validate_health_def valid_health_def by (simp only: passes_simps) auto

lemma passes_mirror: "passes (validate_mirror n m) \<longleftrightarrow> valid_mirror m"
  unfolding validate_mirror_def valid_mirror_def by (simp only: passes_simps) (auto simp: not_less)

lemma passes_override: "passes (validate_override H n nv) \<longleftrightarrow> valid_override H nv"
  by (cases nv) (auto simp: validate_override_def valid_override_def)

lemma passes_route: "passes (validate_route H F r) \<longleftrightarrow> valid_route H F r"
  unfolding validate_route_def valid_route_def
  by (simp only: passes_simps passes_upstream passes_health passes_mirror passes_override
      starts_with_prefix) auto

lemma accepts_iff_valid: "accepts H F c \<longleftrightarrow> valid_config H F c"
  unfolding accepts_def validate_def valid_config_def
  by (simp only: run_checks_None passes_simps passes_listener passes_route) auto

lemma valid_route_upstream:
  "valid_config H F c \<Longrightarrow> r \<in> set (cfg_route c) \<Longrightarrow> u \<in> set (rc_upstream r) \<Longrightarrow> valid_upstream u"
  by (auto simp: valid_config_def valid_route_def)

section \<open>Facts about durations\<close>

lemma ws_front_ascii:
  "char_code a < 128 \<Longrightarrow> \<not> ascii_ws (char_code a) \<Longrightarrow> ws_front (a # s) = None"
  by (auto simp: ws_multi_def split: list.splits)

lemma ws_back_ascii:
  "char_code a < 128 \<Longrightarrow> \<not> ascii_ws (char_code a) \<Longrightarrow> ws_back (a # s) = None"
  by (auto simp: ws_multi_def split: list.splits)

lemma trim_visible:
  assumes "s \<noteq> []" "\<forall>c\<in>{hd s, last s}. 32 < char_code c \<and> char_code c < 128"
  shows "trim s = s"
proof -
  obtain a t where s: "s = a # t" using assms(1) by (cases s) auto
  obtain b u where r: "rev s = b # u" using assms(1) by (cases "rev s") auto
  have b: "b = last s" using r by (metis last_rev list.sel(1) rev_rev_ident last_ConsL
      rev.simps(2) last_snoc)
  have "ws_front s = None" unfolding s
    by (rule ws_front_ascii) (use assms(2) s in \<open>auto simp: ascii_ws_def\<close>)
  then have "trim_start s = s" by (subst trim_start.simps) simp
  moreover have "ws_back (rev s) = None" unfolding r
    by (rule ws_back_ascii) (use assms(2) b in \<open>auto simp: ascii_ws_def\<close>)
  then have "trim_rev (rev s) = rev s" by (subst trim_rev.simps) simp
  ultimately show ?thesis by (simp add: trim_def)
qed

lemma hd_show_nat: "is_digit (hd (show_nat n))"
  using show_nat_digits [of n] show_nat_not_Nil [of n] by (cases "show_nat n") auto

lemma takeWhile_digits:
  "list_all P xs \<Longrightarrow> \<not> P y \<Longrightarrow> takeWhile P (xs @ y # ys) = xs \<and> dropWhile P (xs @ y # ys) = y # ys"
  by (induction xs) auto

lemma parse_duration_print:
  assumes "n < 2 ^ 64" "unit = c # cs" "\<not> is_digit c"
    and "32 < char_code (last unit)" "char_code (last unit) < 128"
  shows "parse_duration (show_nat n @ unit) =
    (if unit = ''ms'' then Inr n else if unit = ''s'' then Inr (1000 * n)
     else if unit = ''m'' then Inr (1000 * unat ((of_nat n :: 64 word) * 60))
     else Inl (UnknownUnit unit (show_nat n @ unit)))"
proof -
  have tr: "trim (show_nat n @ unit) = show_nat n @ unit"
    using assms hd_show_nat [of n] by (intro trim_visible) (auto simp: hd_append is_digit_def)
  have sp: "takeWhile is_digit (show_nat n @ unit) = show_nat n"
    "dropWhile is_digit (show_nat n @ unit) = unit"
    using takeWhile_digits [OF show_nat_digits assms(3)] assms(2) by auto
  have pu: "parse_u64 (show_nat n) = Some n"
    using assms(1) by (simp add: parse_u64_def parse_show_nat)
  have "unit \<noteq> []" using assms(2) by simp
  then show ?thesis
    unfolding parse_duration_def Let_def tr sp pu by (simp only: if_False option.case)
qed

lemma parse_duration_bare: "parse_duration (show_nat n) = Inl (MissingUnit (show_nat n))"
proof -
  have "is_digit (last (show_nat n))"
    using show_nat_digits [of n] show_nat_not_Nil [of n] by (simp add: list_all_iff)
  then have "trim (show_nat n) = show_nat n"
    using hd_show_nat [of n] by (intro trim_visible) (auto simp: is_digit_def)
  moreover have "dropWhile is_digit (show_nat n) = []"
    using show_nat_digits [of n] by (simp add: list_all_iff)
  ultimately show ?thesis by (simp add: parse_duration_def)
qed

lemma unat_mult_60: "n < 2 ^ 64 div 60 \<Longrightarrow> unat ((of_nat n :: 64 word) * 60) = 60 * n"
  by (simp add: unat_word_ariths unat_of_nat)

lemma max_attempts_pos: "1 \<le> max_attempts r"
  by (simp add: max_attempts_def split: option.splits)

end
