(* ===== verification/Routing.thy ===== *)
theory Routing
  imports Config
begin

text \<open>
  \<open>routing.rs\<close>: the host and path matchers and first-match route selection, with the
  label-wise and segment-wise descriptions they implement.
\<close>

section \<open>The matchers\<close>

definition host_matches :: "string option \<Rightarrow> string option \<Rightarrow> bool" where
  "host_matches pattern actual =
     (case pattern of
        None \<Rightarrow> True
      | Some pattern \<Rightarrow>
          (case actual of
             None \<Rightarrow> False
           | Some actual \<Rightarrow>
               (let actual = hd (split_on CHR '':'' actual) in
                case strip_prefix ''*.'' pattern of
                  Some suf \<Rightarrow> eq_ignore_ascii_case actual suf
                    \<or> ends_with (to_ascii_lowercase actual) (''.'' @ to_ascii_lowercase suf)
                | None \<Rightarrow> eq_ignore_ascii_case actual pattern)))"

definition path_matches :: "string option \<Rightarrow> string \<Rightarrow> bool" where
  "path_matches pattern actual =
     (case pattern of
        None \<Rightarrow> True
      | Some pattern \<Rightarrow>
          (let pattern = trim_end_matches CHR ''/'' pattern in
           if pattern = [] then True
           else if \<not> starts_with actual pattern then False
           else (case nth_opt (length pattern) actual of
               None \<Rightarrow> True
             | Some b \<Rightarrow> b = CHR ''/'')))"

definition route_matches :: "string option \<Rightarrow> string \<Rightarrow> route_config \<Rightarrow> bool" where
  "route_matches host path r = (host_matches (rc_host r) host \<and> path_matches (rc_path r) path)"

definition select_route :: "route_config list \<Rightarrow> string option \<Rightarrow> string \<Rightarrow> route_config option" where
  "select_route routes host path = find (route_matches host path) routes"

section \<open>Joining what was split\<close>

fun join_with :: "char \<Rightarrow> string list \<Rightarrow> string" where
  "join_with c [] = []"
| "join_with c [p] = p"
| "join_with c (p # q # ps) = p @ c # join_with c (q # ps)"

lemma join_with_Cons: "ps \<noteq> [] \<Longrightarrow> join_with c (p # ps) = p @ c # join_with c ps"
  by (cases ps) auto

lemma join_split [simp]: "join_with c (split_on c s) = s"
proof (induction s)
  case (Cons x s)
  obtain p ps where "split_on c s = p # ps" by (cases "split_on c s") auto
  with Cons show ?case by (cases ps) (auto simp: join_with_Cons)
qed simp

lemma split_on_append: "split_on c (p @ c # r) = split_on c p @ split_on c r"
  by (induction p) (auto split: list.splits)

lemma join_append:
  "ps \<noteq> [] \<Longrightarrow> qs \<noteq> [] \<Longrightarrow> join_with c (ps @ qs) = join_with c ps @ c # join_with c qs"
  by (induction ps rule: list_nonempty_induct) (auto simp: join_with_Cons)

lemma split_prefix_iff:
  "prefix (split_on c p) (split_on c s) \<longleftrightarrow> s = p \<or> (\<exists>r. s = p @ c # r)"
proof
  assume "prefix (split_on c p) (split_on c s)"
  then obtain zs where zs: "split_on c s = split_on c p @ zs" by (auto simp: prefix_def)
  then have "s = join_with c (split_on c p @ zs)" by (metis join_split)
  then show "s = p \<or> (\<exists>r. s = p @ c # r)" by (cases "zs = []") (auto simp: join_append)
qed (auto simp: split_on_append)

lemma split_suffix_iff:
  "suffix (split_on c p) (split_on c s) \<longleftrightarrow> s = p \<or> (\<exists>r. s = r @ c # p)"
proof
  assume "suffix (split_on c p) (split_on c s)"
  then obtain zs where zs: "split_on c s = zs @ split_on c p" by (auto simp: suffix_def)
  then have "s = join_with c (zs @ split_on c p)" by (metis join_split)
  then show "s = p \<or> (\<exists>r. s = r @ c # p)" by (cases "zs = []") (auto simp: join_append)
qed (auto simp: split_on_append suffix_def)

section \<open>What the matchers decide\<close>

lemma nth_opt_append: "nth_opt (length p) (p @ r) = (case r of [] \<Rightarrow> None | b # _ \<Rightarrow> Some b)"
  by (induction p) (auto split: list.splits)

lemma nth_opt_length [simp]: "nth_opt (length p) p = None"
  using nth_opt_append [of p "[]"] by simp

lemma path_matches_boundary:
  "path_matches (Some p) s \<longleftrightarrow>
     (let q = trim_end_matches CHR ''/'' p in q = [] \<or> s = q \<or> (\<exists>r. s = q @ CHR ''/'' # r))"
  by (auto simp: path_matches_def Let_def starts_with_prefix prefix_def nth_opt_append
      split: list.splits)

lemma path_matches_segments:
  "path_matches (Some p) s \<longleftrightarrow>
     trim_end_matches CHR ''/'' p = []
     \<or> prefix (split_on CHR ''/'' (trim_end_matches CHR ''/'' p)) (split_on CHR ''/'' s)"
  unfolding path_matches_boundary split_prefix_iff Let_def by auto

text \<open>The host a request names, without its port, in lower case.\<close>

definition host_of :: "string \<Rightarrow> string" where
  "host_of h = to_ascii_lowercase (takeWhile (\<lambda>c. c \<noteq> CHR '':'') h)"

lemma host_matches_exact:
  "strip_prefix ''*.'' p = None \<Longrightarrow>
     host_matches (Some p) (Some h) \<longleftrightarrow> host_of h = to_ascii_lowercase p"
  by (simp add: host_matches_def host_of_def hd_split_on eq_ignore_ascii_case_def)

lemma host_matches_wildcard:
  "host_matches (Some (''*.'' @ d)) (Some h) \<longleftrightarrow>
     suffix (split_on CHR ''.'' (to_ascii_lowercase d)) (split_on CHR ''.'' (host_of h))"
  unfolding split_suffix_iff
  by (auto simp: host_matches_def host_of_def hd_split_on eq_ignore_ascii_case_def Let_def
      ends_with_suffix suffix_def)

lemma host_matches_None [simp]: "host_matches p None \<longleftrightarrow> p = None"
  by (simp add: host_matches_def split: option.splits)

lemma host_of_port [simp]: "CHR '':'' \<notin> set h \<Longrightarrow> host_of (h @ CHR '':'' # port) = to_ascii_lowercase h"
  by (simp add: host_of_def takeWhile_tail takeWhile_no_sep takeWhile_append)

lemma host_of_plain: "CHR '':'' \<notin> set h \<Longrightarrow> host_of h = to_ascii_lowercase h"
  by (simp add: host_of_def takeWhile_no_sep)

lemma select_route_Some_iff:
  "select_route rs h p = Some r \<longleftrightarrow>
     (\<exists>ys zs. rs = ys @ r # zs \<and> route_matches h p r \<and> (\<forall>y\<in>set ys. \<not> route_matches h p y))"
  unfolding select_route_def by (rule find_Some_split)

lemma select_route_None_iff:
  "select_route rs h p = None \<longleftrightarrow> (\<forall>r\<in>set rs. \<not> route_matches h p r)"
  by (auto simp: select_route_def find_None_iff)

lemma select_route_mem: "select_route rs h p = Some r \<Longrightarrow> r \<in> set rs"
  by (auto simp: select_route_Some_iff)

lemma catch_all_matches: "rc_host r = None \<Longrightarrow> rc_path r = None \<Longrightarrow> route_matches h p r"
  by (simp add: route_matches_def host_matches_def path_matches_def)

lemma select_route_catch_all:
  assumes "rc_host r = None" "rc_path r = None"
  shows "select_route (ys @ r # zs) h p = (case select_route ys h p of None \<Rightarrow> Some r | Some x \<Rightarrow> Some x)"
  using catch_all_matches [OF assms, of h p] by (induction ys) (auto simp: select_route_def)

section \<open>Properties\<close>


text \<open>C27 Path prefixes match on segment boundaries: after trailing slashes of the pattern are
  dropped, a pattern matches a path exactly when the pattern's segments are an initial part
  of the path's segments (or nothing is left of the pattern).\<close>

theorem path_match_is_segment_prefix:
  "path_matches (Some p) s =
     (let q = trim_end_matches CHR ''/'' p in
      q = [] \<or> prefix (split_on CHR ''/'' q) (split_on CHR ''/'' s))"
  unfolding Let_def by (rule path_matches_segments)

text \<open>C28 A wildcard host pattern matches exactly the domain itself and its subdomains: the
  labels of the domain are a final part of the labels of the request's host, whatever the
  letter case and the port.\<close>

theorem wildcard_host_is_label_suffix:
  "host_matches (Some (''*.'' @ d)) (Some h) =
     suffix (split_on CHR ''.'' (to_ascii_lowercase d)) (split_on CHR ''.'' (host_of h))"
  by (rule host_matches_wildcard)

text \<open>A request that carries no \<open>Host\<close> header (as HTTP/2 requests, which name the
  authority in a pseudo-header, do) is never given to a route with a host constraint: it is
  routed as if those routes were not configured.\<close>

lemma hostless_request_skips_host_routes:
  "select_route routes None path =
     find (\<lambda>r. path_matches (rc_path r) path) (filter (\<lambda>r. rc_host r = None) routes)"
  by (induction routes) (auto simp: select_route_def route_matches_def)

text \<open>An IPv6 literal in the \<open>Host\<close> header is cut at its first colon, so no host pattern
  that names an IPv6 address matches the request it names.\<close>

lemma ipv6_literal_host_never_matches:
  "\<not> host_matches (Some (CHR ''['' # a @ CHR '':'' # b)) (Some (CHR ''['' # a @ CHR '':'' # b))"
proof -
  have len: "length (host_of (CHR ''['' # a @ CHR '':'' # b)) \<le> length (CHR ''['' # a)"
  proof -
    have "takeWhile (\<lambda>c. c \<noteq> CHR '':'') ((CHR ''['' # a) @ CHR '':'' # b)
        = takeWhile (\<lambda>c. c \<noteq> CHR '':'') (CHR ''['' # a)"
      by (rule takeWhile_tail) simp
    then show ?thesis by (simp add: host_of_def length_takeWhile_le)
  qed
  have "strip_prefix ''*.'' (CHR ''['' # a @ CHR '':'' # b) = None" by simp
  then show ?thesis using len
    by (auto simp: host_matches_exact dest!: arg_cong [where f = length])
qed

end
