(* ===== verification/Health.thy ===== *)
theory Health
  imports Config
begin

text \<open>
  \<open>health.rs\<close>: the shared health registry, the probers and the HTTP probe.  The registry's
  \<open>Arc<RwLock<HashMap<String, Arc<AtomicBool>>>>\<close> is a partial map from addresses to flags:
  entries are only ever added, so the flag behind an \<open>Arc\<close> is the map's own (the registry
  heap theory has the flags apart, and derives this view).  The TCP
  exchange of a probe (tokio) is a parameter.
\<close>

section \<open>The registry\<close>

type_synonym health_registry = "string \<rightharpoonup> bool"

datatype health_event = BecameHealthy string | BecameUnhealthy string

definition registry_new :: health_registry where
  "registry_new = Map.empty"

definition is_healthy :: "health_registry \<Rightarrow> string \<Rightarrow> bool" where
  "is_healthy reg addr = (case reg addr of Some flag \<Rightarrow> flag | None \<Rightarrow> True)"

text \<open>
  \<open>HealthRegistry::set\<close>: find or create the flag (created as healthy), swap the value in, and
  log a transition when the value changed.
\<close>

definition registry_set ::
  "health_registry \<Rightarrow> string \<Rightarrow> bool \<Rightarrow> health_registry \<times> health_event list" where
  "registry_set reg addr healthy =
     (let reg = (case reg addr of Some _ \<Rightarrow> reg | None \<Rightarrow> reg(addr \<mapsto> True));
          was_healthy = (case reg addr of Some f \<Rightarrow> f | None \<Rightarrow> True)
      in (reg(addr \<mapsto> healthy),
          if was_healthy \<noteq> healthy
          then [if healthy then BecameHealthy addr else BecameUnhealthy addr] else []))"

definition set_flag :: "health_registry \<Rightarrow> string \<Rightarrow> bool \<Rightarrow> health_registry" where
  "set_flag reg addr healthy = fst (registry_set reg addr healthy)"

lemma set_flag_upd: "set_flag reg addr healthy = reg(addr \<mapsto> healthy)"
  by (auto simp: set_flag_def registry_set_def Let_def split: option.splits)

lemma registry_set_events:
  "snd (registry_set reg addr healthy) =
     (if is_healthy reg addr = healthy then []
      else [if healthy then BecameHealthy addr else BecameUnhealthy addr])"
  by (auto simp: registry_set_def is_healthy_def Let_def split: option.splits)

text \<open>
  The contract the load balancer and the probers rely on: unknown addresses are healthy, and
  a write is visible at its own address only.
\<close>

locale health_view =
  fixes new :: 'r
    and healthy :: "'r \<Rightarrow> string \<Rightarrow> bool"
    and update :: "'r \<Rightarrow> string \<Rightarrow> bool \<Rightarrow> 'r"
  assumes healthy_new: "healthy new a"
    and healthy_update: "healthy (update r a b) x = (if x = a then b else healthy r x)"
begin

definition updates :: "'r \<Rightarrow> (string \<times> bool) list \<Rightarrow> 'r" where
  "updates r ps = foldl (\<lambda>r (a, b). update r a b) r ps"

lemma updates_Nil [simp]: "updates r [] = r"
  by (simp add: updates_def)

lemma updates_snoc [simp]: "updates r (ps @ [(a, b)]) = update (updates r ps) a b"
  by (simp add: updates_def)

lemma healthy_updates:
  "healthy (updates r ps) x =
     (case find (\<lambda>p. fst p = x) (rev ps) of None \<Rightarrow> healthy r x | Some (_, b) \<Rightarrow> b)"
proof (induction ps rule: rev_induct)
  case (snoc p ps)
  then show ?case by (cases p) (auto simp: healthy_update)
qed simp

lemma healthy_updates_other:
  "x \<notin> fst ` set ps \<Longrightarrow> healthy (updates r ps) x = healthy r x"
proof (induction ps rule: rev_induct)
  case (snoc p ps)
  then show ?case by (cases p) (auto simp: healthy_update)
qed simp

end

interpretation registry: health_view registry_new is_healthy set_flag
  by unfold_locales (auto simp: registry_new_def is_healthy_def set_flag_upd)

section \<open>Probing\<close>

text \<open>
  One TCP exchange with an upstream: how long it took, and the bytes of the first read if the
  connection, the write and the read all succeeded.
\<close>

type_synonym tcp = "string \<Rightarrow> nat \<Rightarrow> string \<Rightarrow> duration \<times> string option"

definition crlf :: string where
  "crlf = [CHR 0x0D, CHR 0x0A]"

definition probe_request :: "string \<Rightarrow> string \<Rightarrow> string" where
  "probe_request path host =
     ''GET '' @ path @ '' HTTP/1.1'' @ crlf @ ''Host: '' @ host @ crlf
       @ ''Connection: close'' @ crlf @ crlf"

definition probe_status :: "string \<Rightarrow> nat" where
  "probe_status head =
     (case Option.bind (nth_opt 1 (split_whitespace head)) parse_u16 of
        None \<Rightarrow> 0 | Some n \<Rightarrow> n)"

definition probe_once :: "tcp \<Rightarrow> string \<Rightarrow> string \<Rightarrow> duration \<Rightarrow> bool" where
  "probe_once net addr path limit =
     (case upstream_host_port addr of
        Inl _ \<Rightarrow> False
      | Inr (host, port) \<Rightarrow>
          (let (elapsed, reply) = net host port (probe_request path host) in
           if limit < elapsed then False
           else (case reply of
               None \<Rightarrow> False
             | Some bytes \<Rightarrow>
                 (let status = probe_status (take 512 bytes) in status \<noteq> 0 \<and> status < 500))))"

record prober =
  pb_addr :: string
  pb_path :: string
  pb_interval :: duration
  pb_timeout :: duration

text \<open>
  One round of a prober's loop (probe, store, then sleep for \<open>pb_interval\<close>), and the first
  \<open>n\<close> rounds; the network may answer differently each time.
\<close>

definition prober_round :: "tcp \<Rightarrow> prober \<Rightarrow> health_registry \<Rightarrow> health_registry" where
  "prober_round net p reg =
     set_flag reg (pb_addr p) (probe_once net (pb_addr p) (pb_path p) (pb_timeout p))"

fun prober_rounds :: "(nat \<Rightarrow> tcp) \<Rightarrow> prober \<Rightarrow> nat \<Rightarrow> health_registry \<Rightarrow> health_registry" where
  "prober_rounds net p 0 reg = reg"
| "prober_rounds net p (Suc n) reg = prober_round (net n) p (prober_rounds net p n reg)"

definition unwrap_or :: "'e + 'a \<Rightarrow> 'a \<Rightarrow> 'a" where
  "unwrap_or r d = (case r of Inl _ \<Rightarrow> d | Inr a \<Rightarrow> a)"

definition route_probers :: "route_config \<Rightarrow> prober list" where
  "route_probers r = (case rc_health_check r of
      None \<Rightarrow> []
    | Some hc \<Rightarrow> map (\<lambda>u. \<lparr>pb_addr = uc_addr u, pb_path = hk_path_or_default hc,
          pb_interval = unwrap_or (interval_duration hc) 10000,
          pb_timeout = unwrap_or (timeout_duration hc) 2000\<rparr>) (rc_upstream r))"

text \<open>\<open>spawn_all_probers\<close>: the probers started for a configuration, in order.\<close>

definition spawn_all_probers :: "config \<Rightarrow> prober list" where
  "spawn_all_probers c = concat (map route_probers (cfg_route c))"

lemma prober_rounds_other:
  "a \<noteq> pb_addr p \<Longrightarrow> is_healthy (prober_rounds net p n reg) a = is_healthy reg a"
  by (induction n) (auto simp: prober_round_def registry.healthy_update)

lemma prober_rounds_last:
  "is_healthy (prober_rounds net p (Suc n) reg) (pb_addr p) =
     probe_once (net n) (pb_addr p) (pb_path p) (pb_timeout p)"
  by (simp add: prober_round_def registry.healthy_update)

lemma spawned_addr:
  "p \<in> set (spawn_all_probers c) \<longleftrightarrow>
     (\<exists>r hc u. r \<in> set (cfg_route c) \<and> rc_health_check r = Some hc \<and> u \<in> set (rc_upstream r)
        \<and> p = \<lparr>pb_addr = uc_addr u, pb_path = hk_path_or_default hc,
          pb_interval = unwrap_or (interval_duration hc) 10000,
          pb_timeout = unwrap_or (timeout_duration hc) 2000\<rparr>)"
proof -
  have "p \<in> set (route_probers r) \<longleftrightarrow> (\<exists>hc u. rc_health_check r = Some hc \<and> u \<in> set (rc_upstream r)
        \<and> p = \<lparr>pb_addr = uc_addr u, pb_path = hk_path_or_default hc,
          pb_interval = unwrap_or (interval_duration hc) 10000,
          pb_timeout = unwrap_or (timeout_duration hc) 2000\<rparr>)" for r
    by (cases "rc_health_check r") (auto simp: route_probers_def)
  then show ?thesis by (simp add: spawn_all_probers_def) blast
qed

text \<open>The status word of a well-formed status line is read back.\<close>

lemma ws_front_space: "ws_front (CHR '' '' # s) = Some s"
  by (simp add: ascii_ws_def char_code_def)

lemma ws_front_visible:
  "32 < char_code c \<Longrightarrow> char_code c < 128 \<Longrightarrow> ws_front (c # s) = None"
  by (rule ws_front_ascii) (auto simp: ascii_ws_def)

lemma split_ws_visible:
  assumes "\<forall>c\<in>set w. 32 < char_code c \<and> char_code c < 128" "w \<noteq> [] \<or> cur \<noteq> []"
  shows "split_ws cur (w @ CHR '' '' # s) = (rev cur @ w) # split_ws [] s"
  using assms
proof (induction w arbitrary: cur)
  case Nil
  then show ?case by (subst split_ws.simps) (simp add: ws_front_space del: ws_front.simps)
next
  case (Cons c w)
  then have "ws_front (c # w @ CHR '' '' # s) = None" by (simp add: ws_front_visible del: ws_front.simps)
  then have "split_ws cur ((c # w) @ CHR '' '' # s) = split_ws (c # cur) (w @ CHR '' '' # s)"
    by (subst split_ws.simps) simp
  with Cons show ?case by simp
qed

lemma digit_visible: "is_digit c \<Longrightarrow> 32 < char_code c \<and> char_code c < 128"
  by (auto simp: is_digit_def)

lemma probe_status_line:
  assumes "n < 2 ^ 16" "\<forall>c\<in>set v. 32 < char_code c \<and> char_code c < 128" "v \<noteq> []"
  shows "probe_status (v @ CHR '' '' # show_nat n @ CHR '' '' # rest) = n"
proof -
  have "\<forall>c\<in>set (show_nat n). 32 < char_code c \<and> char_code c < 128"
    using show_nat_digits [of n] digit_visible by (auto simp: list_all_iff)
  then have "split_whitespace (v @ CHR '' '' # show_nat n @ CHR '' '' # rest)
      = v # show_nat n # split_ws [] rest"
    using assms by (simp add: split_whitespace_def split_ws_visible)
  then show ?thesis using assms(1)
    by (simp add: probe_status_def parse_u16_def parse_show_nat)
qed

section \<open>Properties\<close>

text \<open>The registry after any sequence of probe results: an address's state is the last
  result stored for it, and an address never probed is healthy.\<close>

lemma registry_last_write:
  "is_healthy (foldl (\<lambda>reg (a, b). set_flag reg a b) registry_new results) addr =
     (case find (\<lambda>p. fst p = addr) (rev results) of None \<Rightarrow> True | Some (_, b) \<Rightarrow> b)"
  using registry.healthy_updates [of registry_new results addr]
  by (cases "find (\<lambda>p. fst p = addr) (rev results)")
    (simp_all add: registry.updates_def registry.healthy_new)

text \<open>A probe reports an upstream as up exactly when its address parses, the exchange
  completed within the timeout, and the status word it read is a non-zero number below 500.\<close>

lemma probe_verdict:
  "probe_once net addr path limit =
     (\<exists>host port elapsed bytes. upstream_host_port addr = Inr (host, port)
        \<and> net host port (probe_request path host) = (elapsed, Some bytes) \<and> elapsed \<le> limit
        \<and> 0 < probe_status (take 512 bytes) \<and> probe_status (take 512 bytes) < 500)"
  by (auto simp: probe_once_def Let_def not_less split: sum.splits prod.splits option.splits)

end
