(* ===== verification/Upstream.thy ===== *)
theory Upstream
  imports Health
begin

text \<open>
  \<open>upstream.rs\<close>: the weighted round-robin schedule and the two ways to pick from it.  The
  shared \<open>AtomicUsize\<close> is a 64-bit word that every pick increments (\<open>fetch_add\<close> wraps
  around); \<open>start + i\<close> wraps as well in the release profile.  Weights are \<open>u32\<close> values, on
  which the code only takes maxima, remainders and quotients, so they are naturals.
\<close>

section \<open>The balancer\<close>

record upstream_pool =
  up_addr :: string
  up_weight :: nat

record load_balancer =
  lb_upstreams :: "upstream_pool list"
  lb_counter :: "64 word"

fun gcd_u32 :: "nat \<Rightarrow> nat \<Rightarrow> nat" where
  "gcd_u32 a b = (if b = 0 then a else gcd_u32 b (a mod b))"

declare gcd_u32.simps [simp del]

definition gcd_all :: "upstream_pool list \<Rightarrow> nat" where
  "gcd_all ups = foldl gcd_u32 0 (map (\<lambda>u. max (up_weight u) 1) ups)"

definition reduce_weights :: "upstream_pool list \<Rightarrow> upstream_pool list" where
  "reduce_weights ups =
     map (\<lambda>u. u\<lparr>up_weight := max (up_weight u) 1 div max (gcd_all ups) 1\<rparr>) ups"

definition max_weight :: "upstream_pool list \<Rightarrow> nat" where
  "max_weight reduced = (if reduced = [] then 1 else Max (set (map up_weight reduced)))"

definition expand :: "upstream_pool list \<Rightarrow> upstream_pool list" where
  "expand reduced =
     concat (map (\<lambda>i. filter (\<lambda>u. i < up_weight u) reduced) [0..<max_weight reduced])"

definition lb_new :: "upstream_pool list \<Rightarrow> load_balancer" where
  "lb_new ups = \<lparr>lb_upstreams = expand (reduce_weights ups), lb_counter = 0\<rparr>"

definition lb_next :: "load_balancer \<Rightarrow> upstream_pool option \<times> load_balancer" where
  "lb_next lb =
     (if lb_upstreams lb = [] then (None, lb)
      else (nth_opt (unat (lb_counter lb) mod length (lb_upstreams lb)) (lb_upstreams lb),
            lb\<lparr>lb_counter := lb_counter lb + 1\<rparr>))"

text \<open>The candidates of one selection, in the order both loops of \<open>next_healthy\<close> try them.\<close>

definition candidates :: "load_balancer \<Rightarrow> upstream_pool list" where
  "candidates lb =
     map (\<lambda>i. lb_upstreams lb ! (unat (lb_counter lb + of_nat i) mod length (lb_upstreams lb)))
       [0..<length (lb_upstreams lb)]"

definition next_healthy ::
  "load_balancer \<Rightarrow> (string \<Rightarrow> bool) \<Rightarrow> string list \<Rightarrow> upstream_pool option \<times> load_balancer" where
  "next_healthy lb healthy exclude =
     (if lb_upstreams lb = [] then (None, lb)
      else
        (case find (\<lambda>u. \<not> list_ex (\<lambda>e. e = up_addr u) exclude \<and> healthy (up_addr u)) (candidates lb) of
           Some u \<Rightarrow> Some u
         | None \<Rightarrow>
             (case find (\<lambda>u. healthy (up_addr u)) (candidates lb) of
                Some u \<Rightarrow> Some u
              | None \<Rightarrow> Some (lb_upstreams lb ! (unat (lb_counter lb) mod length (lb_upstreams lb)))),
         lb\<lparr>lb_counter := lb_counter lb + 1\<rparr>))"

definition route_pools :: "route_config \<Rightarrow> upstream_pool list" where
  "route_pools r = map (\<lambda>u. \<lparr>up_addr = uc_addr u,
     up_weight = (case uc_weight u of None \<Rightarrow> 100 | Some w \<Rightarrow> w)\<rparr>) (rc_upstream r)"

text \<open>Collecting into a \<open>HashMap\<close> keyed by route name: a later entry replaces an earlier one.\<close>

definition build_lb_map :: "config \<Rightarrow> string \<rightharpoonup> load_balancer" where
  "build_lb_map c =
     foldl (\<lambda>m r. m(rc_name r \<mapsto> lb_new (route_pools r))) Map.empty (cfg_route c)"

section \<open>Weights and the schedule\<close>

lemma gcd_u32_eq: "gcd_u32 a b = gcd a b"
proof (induction a b rule: gcd_u32.induct)
  case (1 a b)
  then show ?case
    by (cases "b = 0") (simp_all add: gcd_u32.simps [of a b] gcd_u32.simps [of a 0] gcd_red_nat [of a b])
qed

lemma foldl_gcd: "foldl gcd_u32 a xs = gcd a (Gcd (set xs))"
  by (induction xs arbitrary: a) (simp_all add: gcd_u32_eq gcd.assoc)

lemma gcd_all_eq: "gcd_all ups = Gcd (set (map (\<lambda>u. max (up_weight u) 1) ups))"
  by (simp add: gcd_all_def foldl_gcd)

lemma gcd_all_dvd: "u \<in> set ups \<Longrightarrow> gcd_all ups dvd max (up_weight u) 1"
  unfolding gcd_all_eq by (rule Gcd_dvd) auto

lemma gcd_all_pos: "ups \<noteq> [] \<Longrightarrow> 0 < gcd_all ups"
proof -
  assume "ups \<noteq> []"
  then obtain u where "u \<in> set ups" by (cases ups) auto
  then show ?thesis by (intro dvd_pos_nat [OF _ gcd_all_dvd]) simp_all
qed

lemma reduce_weights_Nil [simp]: "reduce_weights ups = [] \<longleftrightarrow> ups = []"
  by (simp add: reduce_weights_def)

lemma reduced_weight_pos: "u \<in> set (reduce_weights ups) \<Longrightarrow> 0 < up_weight u"
proof -
  assume "u \<in> set (reduce_weights ups)"
  then obtain v where v: "v \<in> set ups" "u = v\<lparr>up_weight := max (up_weight v) 1 div max (gcd_all ups) 1\<rparr>"
    by (auto simp: reduce_weights_def)
  then have "ups \<noteq> []" by auto
  then have "gcd_all ups dvd max (up_weight v) 1" "0 < gcd_all ups"
    using gcd_all_dvd v gcd_all_pos by blast+
  then have "max (gcd_all ups) 1 \<le> max (up_weight v) 1" by (auto dest: dvd_imp_le)
  then show ?thesis using v by (simp add: div_greater_zero_iff)
qed

lemma weight_le_max: "u \<in> set us \<Longrightarrow> up_weight u \<le> max_weight us"
  by (auto simp: max_weight_def)

lemma sum_list_filter_nat:
  "sum_list (map (\<lambda>i. of_bool (i < w)) [0..<n]) = (min w n :: nat)"
  by (induction n) auto

lemma length_filter_filter:
  "length (filter P (filter Q us)) = sum_list (map (\<lambda>u. if P u then of_bool (Q u) else 0) us)"
  by (induction us) auto

lemma filter_concat_count:
  "length (filter P (concat (map (\<lambda>i. filter (\<lambda>u. i < f u) us) is))) =
     sum_list (map (\<lambda>u. if P u then sum_list (map (\<lambda>i. of_bool (i < f u)) is) else 0) us)"
proof (induction "is")
  case Nil
  show ?case by auto
next
  case (Cons i "is")
  let ?s = "\<lambda>is u. if P u then sum_list (map (\<lambda>i. of_bool (i < f u)) is) else (0::nat)"
  let ?h = "\<lambda>u. if P u then of_bool (i < f u) else (0::nat)"
  have "length (filter P (concat (map (\<lambda>i. filter (\<lambda>u. i < f u) us) (i # is))))
      = sum_list (map ?h us) + sum_list (map (?s is) us)"
    using Cons by (simp add: length_filter_filter del: filter_filter)
  also have "\<dots> = sum_list (map (\<lambda>u. ?h u + ?s is u) us)"
    by (simp only: sum_list_addf)
  also have "(\<lambda>u. ?h u + ?s is u) = ?s (i # is)"
    by (rule ext) simp
  finally show ?case .
qed

lemma count_expand:
  "length (filter P (expand us)) = sum_list (map up_weight (filter P us))"
proof -
  have "length (filter P (expand us)) =
      sum_list (map (\<lambda>u. if P u then min (up_weight u) (max_weight us) else 0) us)"
    unfolding expand_def filter_concat_count sum_list_filter_nat ..
  also have "\<dots> = sum_list (map (\<lambda>u. if P u then up_weight u else 0) us)"
    by (rule arg_cong [where f = sum_list]) (auto simp: min_absorb1 weight_le_max)
  also have "\<dots> = sum_list (map up_weight (filter P us))"
    by (induction us) auto
  finally show ?thesis .
qed

lemma length_expand: "length (expand us) = sum_list (map up_weight us)"
  using count_expand [of "\<lambda>_. True" us] by simp

definition weight_of :: "string \<Rightarrow> upstream_pool list \<Rightarrow> nat" where
  "weight_of a ups = sum_list (map (\<lambda>u. max (up_weight u) 1) (filter (\<lambda>u. up_addr u = a) ups))"

lemma sum_reduced:
  "sum_list (map up_weight (filter (\<lambda>u. up_addr u = a) (reduce_weights ups))) * max (gcd_all ups) 1
     = weight_of a ups"
proof -
  have "sum_list (map up_weight (filter (\<lambda>u. up_addr u = a)
        (map (\<lambda>u. u\<lparr>up_weight := max (up_weight u) 1 div g\<rparr>) us))) * g
      = sum_list (map (\<lambda>u. max (up_weight u) 1) (filter (\<lambda>u. up_addr u = a) us))"
    if "\<forall>u\<in>set us. g dvd max (up_weight u) 1" for us :: "upstream_pool list" and g
    using that by (induction us) (auto simp: algebra_simps)
  moreover have "\<forall>u\<in>set ups. max (gcd_all ups) 1 dvd max (up_weight u) 1"
  proof
    fix u assume u: "u \<in> set ups"
    then have "0 < gcd_all ups" by (intro gcd_all_pos) auto
    then have "max (gcd_all ups) 1 = gcd_all ups" by simp
    with gcd_all_dvd [OF u] show "max (gcd_all ups) 1 dvd max (up_weight u) 1" by metis
  qed
  ultimately show ?thesis by (simp add: reduce_weights_def weight_of_def)
qed

definition share :: "load_balancer \<Rightarrow> string \<Rightarrow> nat" where
  "share lb a = length (filter (\<lambda>u. up_addr u = a) (lb_upstreams lb))"

lemma share_lb_new: "share (lb_new ups) a * max (gcd_all ups) 1 = weight_of a ups"
  unfolding share_def lb_new_def load_balancer.simps count_expand by (rule sum_reduced)

lemma expand_addrs: "up_addr ` set (expand (reduce_weights ups)) = up_addr ` set ups"
proof
  show "up_addr ` set (expand (reduce_weights ups)) \<subseteq> up_addr ` set ups"
    by (auto simp: expand_def reduce_weights_def)
  show "up_addr ` set ups \<subseteq> up_addr ` set (expand (reduce_weights ups))"
  proof
    fix a assume "a \<in> up_addr ` set ups"
    then have "a \<in> up_addr ` set (reduce_weights ups)" by (simp add: reduce_weights_def image_image)
    then obtain u where u: "u \<in> set (reduce_weights ups)" "a = up_addr u" by blast
    have "0 < up_weight u" "up_weight u \<le> max_weight (reduce_weights ups)"
      using u reduced_weight_pos weight_le_max by blast+
    then have "u \<in> set (expand (reduce_weights ups))" using u by (force simp: expand_def)
    with u show "a \<in> up_addr ` set (expand (reduce_weights ups))" by blast
  qed
qed

lemma expand_Nil: "expand (reduce_weights ups) = [] \<longleftrightarrow> ups = []"
  using expand_addrs [of ups] by (metis image_is_empty set_empty)

section \<open>Picking\<close>

lemma unat_counter_add:
  "unat (c :: 64 word) + i < 2 ^ 64 \<Longrightarrow> unat (c + of_nat i) = unat c + i"
  by (simp add: unat_word_ariths unat_of_nat)

lemma candidates_rotate:
  assumes "unat (lb_counter lb) + length (lb_upstreams lb) \<le> 2 ^ 64"
  shows "candidates lb = rotate (unat (lb_counter lb)) (lb_upstreams lb)"
proof (rule nth_equalityI)
  fix i assume "i < length (candidates lb)"
  then have i: "i < length (lb_upstreams lb)" by (simp add: candidates_def)
  with assms have "unat (lb_counter lb + of_nat i) = unat (lb_counter lb) + i"
    by (intro unat_counter_add) simp
  with i show "candidates lb ! i = rotate (unat (lb_counter lb)) (lb_upstreams lb) ! i"
    by (simp add: candidates_def nth_rotate)
qed (simp add: candidates_def)

lemma candidates_subset: "set (candidates lb) \<subseteq> set (lb_upstreams lb)"
  by (cases "lb_upstreams lb = []") (auto simp: candidates_def)

lemma candidates_set:
  "unat (lb_counter lb) + length (lb_upstreams lb) \<le> 2 ^ 64 \<Longrightarrow>
     set (candidates lb) = set (lb_upstreams lb)"
  by (simp add: candidates_rotate)

lemma nth_opt_nth: "i < length xs \<Longrightarrow> nth_opt i xs = Some (xs ! i)"
  by (induction i xs rule: nth_opt.induct) auto

fun lb_run :: "nat \<Rightarrow> load_balancer \<Rightarrow> upstream_pool option list" where
  "lb_run 0 lb = []"
| "lb_run (Suc n) lb = (case lb_next lb of (u, lb') \<Rightarrow> u # lb_run n lb')"

lemma lb_run_nth:
  "lb_upstreams lb \<noteq> [] \<Longrightarrow> lb_run n lb =
     map (\<lambda>i. Some (lb_upstreams lb ! (unat (lb_counter lb + of_nat i) mod length (lb_upstreams lb)))) [0..<n]"
proof (induction n arbitrary: lb)
  case (Suc n)
  let ?lb = "lb\<lparr>lb_counter := lb_counter lb + 1\<rparr>"
  have "lb_next lb = (Some (lb_upstreams lb ! (unat (lb_counter lb) mod length (lb_upstreams lb))), ?lb)"
    using Suc.prems by (simp add: lb_next_def nth_opt_nth)
  with Suc.IH [of ?lb] Suc.prems show ?case
    by (simp add: upt_conv_Cons map_Suc_upt [symmetric] add.assoc del: upt_Suc)
qed simp

lemma lb_run_window:
  assumes "lb_upstreams lb \<noteq> []" "unat (lb_counter lb) + length (lb_upstreams lb) \<le> 2 ^ 64"
  shows "lb_run (length (lb_upstreams lb)) lb = map Some (rotate (unat (lb_counter lb)) (lb_upstreams lb))"
  unfolding candidates_rotate [OF assms(2), symmetric] lb_run_nth [OF assms(1)]
  by (simp add: candidates_def)

lemma mset_rotate [simp]: "mset (rotate n xs) = mset xs"
  by (metis append_take_drop_id mset_append rotate_drop_take union_commute)

text \<open>
  What the request path needs from a balancer: a pick is a configured upstream; while some
  upstream is healthy (and untried), so is the pick; only an empty balancer gives none.
  \<open>room k\<close> says that \<open>k\<close> more picks are left before the counter wraps around.
\<close>

locale balancer =
  fixes pick :: "'lb \<Rightarrow> (string \<Rightarrow> bool) \<Rightarrow> string list \<Rightarrow> string option \<times> 'lb"
    and addrs :: "'lb \<Rightarrow> string set"
    and room :: "nat \<Rightarrow> 'lb \<Rightarrow> bool"
  assumes pick_None: "fst (pick b h ex) = None \<longleftrightarrow> addrs b = {}"
    and pick_addrs: "addrs (snd (pick b h ex)) = addrs b"
    and pick_in: "fst (pick b h ex) = Some a \<Longrightarrow> a \<in> addrs b"
    and pick_fresh: "room (Suc k) b \<Longrightarrow> fst (pick b h ex) = Some a \<Longrightarrow>
      x \<in> addrs b \<Longrightarrow> h x \<Longrightarrow> x \<notin> set ex \<Longrightarrow> h a \<and> a \<notin> set ex"
    and pick_healthy: "room (Suc k) b \<Longrightarrow> fst (pick b h ex) = Some a \<Longrightarrow>
      x \<in> addrs b \<Longrightarrow> h x \<Longrightarrow> h a"
    and pick_room: "room (Suc k) b \<Longrightarrow> room k (snd (pick b h ex))"

text \<open>The addresses successive attempts of one request are sent to, each attempt excluding
  the ones before it.\<close>

fun pick_seq ::
  "('lb \<Rightarrow> (string \<Rightarrow> bool) \<Rightarrow> string list \<Rightarrow> string option \<times> 'lb) \<Rightarrow> nat \<Rightarrow> 'lb
    \<Rightarrow> (string \<Rightarrow> bool) \<Rightarrow> string list \<Rightarrow> string list" where
  "pick_seq pick 0 b h ex = []"
| "pick_seq pick (Suc n) b h ex =
     (case pick b h ex of
        (None, _) \<Rightarrow> []
      | (Some a, b') \<Rightarrow> a # pick_seq pick n b' h (ex @ [a]))"

context balancer
begin

lemma pick_cases:
  assumes "addrs b \<noteq> {}"
  obtains a b' where "pick b h ex = (Some a, b')" "addrs b' = addrs b" "a \<in> addrs b"
  using assms pick_None [of b h ex] pick_addrs [of b h ex] pick_in [of b h ex]
  by (cases "pick b h ex") fastforce

lemma length_pick_seq: "addrs b \<noteq> {} \<Longrightarrow> length (pick_seq pick n b h ex) = n"
proof (induction n arbitrary: b ex)
  case (Suc n)
  from Suc.prems obtain a b' where "pick b h ex = (Some a, b')" "addrs b' = addrs b"
    by (rule pick_cases)
  with Suc show ?case by simp
qed simp

lemma pick_seq_subset: "set (pick_seq pick n b h ex) \<subseteq> addrs b"
proof (induction n arbitrary: b ex)
  case (Suc n)
  obtain u b' where p: "pick b h ex = (u, b')" by (cases "pick b h ex")
  with pick_addrs [of b h ex] have "addrs b' = addrs b" by simp
  then have "set (pick_seq pick n b' h es) \<subseteq> addrs b" for es using Suc [of b' es] by simp
  with p pick_in [of b h ex] show ?case by (cases u) auto
qed simp

lemma pick_seq_healthy:
  "room n b \<Longrightarrow> x \<in> addrs b \<Longrightarrow> h x \<Longrightarrow> a \<in> set (pick_seq pick n b h ex) \<Longrightarrow> h a"
proof (induction n arbitrary: b ex)
  case (Suc n)
  from Suc.prems(2) have "addrs b \<noteq> {}" by auto
  then obtain c b' where p: "pick b h ex = (Some c, b')" "addrs b' = addrs b" by (rule pick_cases)
  with Suc.prems have "room n b'" using pick_room [OF Suc.prems(1), of h ex] by simp
  moreover have "h c" using pick_healthy [of n b h ex c x] Suc.prems(1-3) p by simp
  ultimately show ?case using Suc p by auto
qed simp

lemma pick_seq_distinct:
  "room n b \<Longrightarrow> finite (addrs b) \<Longrightarrow> n \<le> card {x \<in> addrs b. h x \<and> x \<notin> set ex} \<Longrightarrow>
     distinct (pick_seq pick n b h ex) \<and> set (pick_seq pick n b h ex) \<inter> set ex = {}"
proof (induction n arbitrary: b ex)
  case (Suc n)
  let ?fresh = "\<lambda>ex. {x \<in> addrs b. h x \<and> x \<notin> set ex}"
  from Suc.prems(3) have "?fresh ex \<noteq> {}" by (metis card.empty not_less_eq_eq zero_le)
  then obtain x where x: "x \<in> addrs b" "h x" "x \<notin> set ex" by blast
  then have "addrs b \<noteq> {}" by auto
  then obtain c b' where p: "pick b h ex = (Some c, b')" and ab: "addrs b' = addrs b" "c \<in> addrs b"
    by (rule pick_cases)
  have c: "h c" "c \<notin> set ex" using pick_fresh [of n b h ex c x] Suc.prems(1) x p by auto
  have "?fresh (ex @ [c]) = ?fresh ex - {c}" by auto
  moreover have "c \<in> ?fresh ex" using ab c by blast
  ultimately have "n \<le> card (?fresh (ex @ [c]))"
    using Suc.prems(2,3) by (simp add: card_Diff_singleton)
  with Suc.IH [of b' "ex @ [c]"] pick_room [OF Suc.prems(1), of h ex] p ab Suc.prems(2)
  have "distinct (pick_seq pick n b' h (ex @ [c])) \<and> set (pick_seq pick n b' h (ex @ [c])) \<inter> set (ex @ [c]) = {}"
    by simp
  with p c show ?case by auto
qed simp

end

definition lb_pick ::
  "load_balancer \<Rightarrow> (string \<Rightarrow> bool) \<Rightarrow> string list \<Rightarrow> string option \<times> load_balancer" where
  "lb_pick lb healthy exclude =
     (case next_healthy lb healthy exclude of (u, lb') \<Rightarrow> (map_option up_addr u, lb'))"

definition lb_addrs :: "load_balancer \<Rightarrow> string set" where
  "lb_addrs lb = up_addr ` set (lb_upstreams lb)"

definition lb_room :: "nat \<Rightarrow> load_balancer \<Rightarrow> bool" where
  "lb_room k lb = (unat (lb_counter lb) + k + length (lb_upstreams lb) \<le> 2 ^ 64)"

lemma next_healthy_lb: "lb_upstreams (snd (next_healthy lb h ex)) = lb_upstreams lb"
  by (simp add: next_healthy_def)

lemma next_healthy_counter:
  "lb_upstreams lb \<noteq> [] \<Longrightarrow> lb_counter (snd (next_healthy lb h ex)) = lb_counter lb + 1"
  by (simp add: next_healthy_def)

lemma next_healthy_None: "fst (next_healthy lb h ex) = None \<longleftrightarrow> lb_upstreams lb = []"
  by (simp add: next_healthy_def split: option.splits)

lemma next_healthy_mem: "fst (next_healthy lb h ex) = Some u \<Longrightarrow> u \<in> set (lb_upstreams lb)"
  using candidates_subset [of lb]
  by (auto simp: next_healthy_def dest!: find_SomeD split: option.splits if_splits)

lemma next_healthy_fresh:
  assumes "lb_room (Suc k) lb" "fst (next_healthy lb h ex) = Some u"
    and "x \<in> lb_addrs lb" "h x" "x \<notin> set ex"
  shows "h (up_addr u) \<and> up_addr u \<notin> set ex"
proof -
  have "set (candidates lb) = set (lb_upstreams lb)"
    using assms(1) by (intro candidates_set) (simp add: lb_room_def)
  with assms(3-5) obtain v where "v \<in> set (candidates lb)" "h (up_addr v)" "up_addr v \<notin> set ex"
    by (auto simp: lb_addrs_def)
  then have "find (\<lambda>u. \<not> list_ex (\<lambda>e. e = up_addr u) ex \<and> h (up_addr u)) (candidates lb) \<noteq> None"
    by (auto simp: find_None_iff list_ex_iff)
  with assms(2) show ?thesis
    by (auto simp: next_healthy_def list_ex_iff dest!: find_SomeD split: if_splits)
qed

lemma next_healthy_healthy:
  assumes "lb_room (Suc k) lb" "fst (next_healthy lb h ex) = Some u" "x \<in> lb_addrs lb" "h x"
  shows "h (up_addr u)"
proof -
  have "set (candidates lb) = set (lb_upstreams lb)"
    using assms(1) by (intro candidates_set) (simp add: lb_room_def)
  with assms(3,4) obtain v where "v \<in> set (candidates lb)" "h (up_addr v)"
    by (auto simp: lb_addrs_def)
  then have "find (\<lambda>u. h (up_addr u)) (candidates lb) \<noteq> None"
    by (auto simp: find_None_iff)
  with assms(2) show ?thesis
    by (auto simp: next_healthy_def dest!: find_SomeD split: if_splits option.splits)
qed

lemma lb_room_step:
  assumes "lb_room (Suc k) lb"
  shows "lb_room k (snd (next_healthy lb h ex))"
proof (cases "lb_upstreams lb = []")
  case True
  with assms show ?thesis by (simp add: lb_room_def next_healthy_def)
next
  case False
  then have "unat (lb_counter lb) + 1 < 2 ^ 64"
    using assms unfolding lb_room_def by (cases "lb_upstreams lb") simp_all
  then have "unat (lb_counter lb + of_nat 1) = unat (lb_counter lb) + 1"
    by (rule unat_counter_add)
  with assms False show ?thesis
    by (simp add: lb_room_def next_healthy_lb next_healthy_counter)
qed

interpretation lb: balancer lb_pick lb_addrs lb_room
proof unfold_locales
  fix b h ex k a x
  show "fst (lb_pick b h ex) = None \<longleftrightarrow> lb_addrs b = {}"
    using next_healthy_None [of b h ex] by (auto simp: lb_pick_def lb_addrs_def split: prod.splits)
  show "lb_addrs (snd (lb_pick b h ex)) = lb_addrs b"
    using next_healthy_lb [of b h ex] by (auto simp: lb_pick_def lb_addrs_def split: prod.splits)
  show "fst (lb_pick b h ex) = Some a \<Longrightarrow> a \<in> lb_addrs b"
    using next_healthy_mem [of b h ex] by (auto simp: lb_pick_def lb_addrs_def split: prod.splits)
  show "lb_room (Suc k) b \<Longrightarrow> fst (lb_pick b h ex) = Some a \<Longrightarrow> x \<in> lb_addrs b \<Longrightarrow> h x \<Longrightarrow>
      x \<notin> set ex \<Longrightarrow> h a \<and> a \<notin> set ex"
    using next_healthy_fresh [of k b h ex] by (auto simp: lb_pick_def split: prod.splits)
  show "lb_room (Suc k) b \<Longrightarrow> fst (lb_pick b h ex) = Some a \<Longrightarrow> x \<in> lb_addrs b \<Longrightarrow> h x \<Longrightarrow> h a"
    using next_healthy_healthy [of k b h ex] by (auto simp: lb_pick_def split: prod.splits)
  show "lb_room (Suc k) b \<Longrightarrow> lb_room k (snd (lb_pick b h ex))"
    using lb_room_step [of k b h ex] by (auto simp: lb_pick_def split: prod.splits)
qed

section \<open>Balancers of a configuration\<close>

lemma foldl_map_upd_find:
  "foldl (\<lambda>m r. m(f r \<mapsto> g r)) m xs k =
     (case find (\<lambda>r. f r = k) (rev xs) of None \<Rightarrow> m k | Some r \<Rightarrow> Some (g r))"
  by (induction xs rule: rev_induct) auto

lemma build_lb_map_lookup:
  "build_lb_map c n =
     map_option (\<lambda>r. lb_new (route_pools r)) (find (\<lambda>r. rc_name r = n) (rev (cfg_route c)))"
  unfolding build_lb_map_def foldl_map_upd_find by (simp split: option.splits)

lemma build_lb_map_route:
  assumes "r \<in> set (cfg_route c)"
  shows "\<exists>r'\<in>set (cfg_route c). rc_name r' = rc_name r
    \<and> build_lb_map c (rc_name r) = Some (lb_new (route_pools r'))"
proof -
  have "find (\<lambda>x. rc_name x = rc_name r) (rev (cfg_route c)) \<noteq> None"
    using assms by (auto simp: find_None_iff)
  then obtain r' where "find (\<lambda>x. rc_name x = rc_name r) (rev (cfg_route c)) = Some r'" by blast
  then show ?thesis by (auto simp: build_lb_map_lookup dest!: find_SomeD)
qed

lemma route_pools_Nil [simp]: "route_pools r = [] \<longleftrightarrow> rc_upstream r = []"
  by (simp add: route_pools_def)

lemma lb_new_addrs: "lb_addrs (lb_new (route_pools r)) = uc_addr ` set (rc_upstream r)"
  unfolding lb_addrs_def lb_new_def load_balancer.simps expand_addrs
  by (simp add: route_pools_def image_image)

lemma schedule_bound:
  assumes "\<forall>u\<in>set ups. max (up_weight u) 1 \<le> B"
  shows "length (expand (reduce_weights ups)) \<le> B * length ups"
proof -
  have sum: "\<forall>u\<in>set us. up_weight u \<le> B \<Longrightarrow> sum_list (map up_weight us) \<le> B * length us"
    for us :: "upstream_pool list"
    by (induction us) auto
  have "\<forall>u\<in>set (reduce_weights ups). up_weight u \<le> B"
    using assms by (auto simp: reduce_weights_def intro: le_trans [OF div_le_dividend])
  from sum [OF this] show ?thesis by (simp add: length_expand reduce_weights_def)
qed

section \<open>Properties\<close>

text \<open>C29 The schedule is proportional to the configured weights: an address occurs in it as
  often as its total weight (a zero weight counts as one) divided by the common divisor of
  all weights.\<close>

theorem schedule_is_proportional:
  "length (filter (\<lambda>u. up_addr u = a) (lb_upstreams (lb_new ups))) * max (Gcd (set (map (\<lambda>u. max (up_weight u) 1) ups))) 1
     = sum_list (map (\<lambda>u. max (up_weight u) 1) (filter (\<lambda>u. up_addr u = a) ups))"
  using share_lb_new [of ups a] by (simp only: share_def weight_of_def gcd_all_eq)

text \<open>C30 Round robin is fair: from any state of the counter, as long as it does not wrap
  around, as many picks in a row as the schedule is long serve each upstream exactly as often
  as the schedule lists it.\<close>

theorem round_robin_window_fair:
  assumes "lb_upstreams lb \<noteq> []" "unat (lb_counter lb) + length (lb_upstreams lb) \<le> 2 ^ 64"
  shows "mset (lb_run (length (lb_upstreams lb)) lb) = image_mset Some (mset (lb_upstreams lb))"
  by (simp add: lb_run_window [OF assms])

theorem round_robin_window_fair_witness:
  "let a = \<lparr>up_addr = ''a'', up_weight = 2\<rparr>; b = \<lparr>up_addr = ''b'', up_weight = 1\<rparr> in
   mset (lb_run (Suc (Suc (Suc 0))) \<lparr>lb_upstreams = [a, b, a], lb_counter = 5\<rparr>) = {#Some a, Some b, Some a#}"
  unfolding Let_def
  using round_robin_window_fair [of "\<lparr>lb_upstreams = [\<lparr>up_addr = ''a'', up_weight = 2\<rparr>,
      \<lparr>up_addr = ''b'', up_weight = 1\<rparr>, \<lparr>up_addr = ''a'', up_weight = 2\<rparr>], lb_counter = 5\<rparr>"]
  by (simp del: lb_run.simps)

text \<open>C31 Selection for a request: with at least one upstream there always is a pick, it is a
  configured upstream, it is healthy and untried if any upstream is, and healthy if any
  upstream is (only when all are down does the selection fail open).\<close>

theorem next_healthy_selection:
  assumes "lb_upstreams lb \<noteq> []" "unat (lb_counter lb) + length (lb_upstreams lb) < 2 ^ 64"
  shows "\<exists>u lb'. next_healthy lb healthy tried = (Some u, lb') \<and> u \<in> set (lb_upstreams lb)
    \<and> ((\<exists>x\<in>set (lb_upstreams lb). healthy (up_addr x) \<and> up_addr x \<notin> set tried)
         \<longrightarrow> healthy (up_addr u) \<and> up_addr u \<notin> set tried)
    \<and> ((\<exists>x\<in>set (lb_upstreams lb). healthy (up_addr x)) \<longrightarrow> healthy (up_addr u))"
proof -
  obtain o' lb' where n: "next_healthy lb healthy tried = (o', lb')" by (cases "next_healthy lb healthy tried")
  with next_healthy_None [of lb healthy tried] assms(1) obtain u where u: "o' = Some u" by auto
  have room: "lb_room (Suc 0) lb" using assms(2) by (simp add: lb_room_def)
  have "u \<in> set (lb_upstreams lb)" using next_healthy_mem [of lb healthy tried u] n u by simp
  moreover have "healthy (up_addr u) \<and> up_addr u \<notin> set tried"
    if "x \<in> set (lb_upstreams lb)" "healthy (up_addr x)" "up_addr x \<notin> set tried" for x
    using next_healthy_fresh [OF room, of healthy tried u "up_addr x"] that n u by (simp add: lb_addrs_def)
  moreover have "healthy (up_addr u)"
    if "x \<in> set (lb_upstreams lb)" "healthy (up_addr x)" for x
    using next_healthy_healthy [OF room, of healthy tried u "up_addr x"] that n u by (simp add: lb_addrs_def)
  ultimately show ?thesis using n u by blast
qed

theorem next_healthy_selection_witness:
  "\<exists>u lb'. next_healthy (lb_new [\<lparr>up_addr = ''a'', up_weight = 50\<rparr>, \<lparr>up_addr = ''b'', up_weight = 50\<rparr>])
      (\<lambda>a. a = ''b'') [''a''] = (Some u, lb')"
proof -
  let ?lb = "lb_new [\<lparr>up_addr = ''a'', up_weight = 50\<rparr>, \<lparr>up_addr = ''b'', up_weight = 50\<rparr>]"
  have "lb_upstreams ?lb \<noteq> []" by (simp add: lb_new_def expand_Nil)
  moreover have "length (lb_upstreams ?lb) \<le> 50 * 2"
    using schedule_bound [of "[\<lparr>up_addr = ''a'', up_weight = 50\<rparr>, \<lparr>up_addr = ''b'', up_weight = 50\<rparr>]" 50]
    by (simp add: lb_new_def)
  then have "unat (lb_counter ?lb) + length (lb_upstreams ?lb) < 2 ^ 64" by (simp add: lb_new_def)
  ultimately show ?thesis
    using next_healthy_selection [of ?lb "\<lambda>a. a = ''b''" "[''a'']"] by blast
qed

end
