(* ===== verification/Proxy.thy ===== *)
theory Proxy
  imports Config
begin

text \<open>
  \<open>proxy.rs\<close>: what happens to a request on its way to an upstream and to the response on its
  way back.  hyper's client is a parameter: for a request it yields how long it took and
  either an error (connection failure or anything else) or a response.
\<close>

section \<open>Requests and responses\<close>

datatype http_version = HTTP_09 | HTTP_10 | HTTP_11 | HTTP_2 | HTTP_3

record incoming =
  in_bytes :: string
  in_exact :: "nat option"      \<comment> \<open>\<open>size_hint().exact()\<close>\<close>

datatype upstream_body = EmptyBody | Streaming incoming

record 'm request =
  rq_method :: string
  rq_uri :: string
  rq_version :: http_version
  rq_headers :: 'm
  rq_body :: upstream_body

record 'm response =
  rs_status :: nat
  rs_headers :: 'm
  rs_body :: string

datatype client_error = ConnectFailed | OtherFailure

datatype proxy_error =
    AddrFailure addr_error
  | UriFailure
  | HostFailure
  | ClientFailure client_error

type_synonym 'm client = "'m request \<Rightarrow> duration \<times> (client_error + 'm response)"

section \<open>Header handling\<close>

definition HOP_BY_HOP_HEADERS :: "string list" where
  "HOP_BY_HOP_HEADERS = [''connection'', ''keep-alive'', ''proxy-authenticate'',
     ''proxy-authorization'', ''te'', ''trailer'', ''transfer-encoding'', ''upgrade'']"

definition is_retryable :: "proxy_error \<Rightarrow> bool" where
  "is_retryable e = (case e of ClientFailure c \<Rightarrow> c = ConnectFailed | _ \<Rightarrow> False)"

text \<open>The header names a \<open>Connection\<close> header lists.\<close>

definition connection_names :: "'m http_api \<Rightarrow> 'm \<Rightarrow> string list" where
  "connection_names H m =
     List.map_filter (\<lambda>name. header_name H (trim name))
       (concat (map (split_on CHR '','')
         (List.map_filter (header_str H) (hm_get_all H m ''connection''))))"

definition strip_hop_by_hop :: "'m http_api \<Rightarrow> 'm \<Rightarrow> 'm" where
  "strip_hop_by_hop H m =
     foldl (hm_remove H) (foldl (hm_remove H) m (connection_names H m)) HOP_BY_HOP_HEADERS"

definition apply_override :: "'m http_api \<Rightarrow> 'm \<Rightarrow> string \<times> string \<Rightarrow> 'm" where
  "apply_override H m nv =
     (case header_name H (fst nv) of
        None \<Rightarrow> m
      | Some name \<Rightarrow>
          if snd nv = [] then hm_remove H m name
          else (case header_value H (snd nv) of
              Some value \<Rightarrow> hm_insert H m name value
            | None \<Rightarrow> m))"

definition apply_header_overrides :: "'m http_api \<Rightarrow> 'm \<Rightarrow> overrides \<Rightarrow> 'm" where
  "apply_header_overrides H m ov = foldl (apply_override H) m ov"

definition forwarded_for :: "'m http_api \<Rightarrow> 'm \<Rightarrow> socket_addr \<Rightarrow> string" where
  "forwarded_for H m client_addr =
     (case Option.bind (hm_get H m ''x-forwarded-for'') (header_str H) of
        Some existing \<Rightarrow> existing @ '', '' @ ip_text client_addr
      | None \<Rightarrow> ip_text client_addr)"

definition append_forwarded_headers ::
  "'m http_api \<Rightarrow> 'm \<Rightarrow> socket_addr \<Rightarrow> string \<Rightarrow> 'm" where
  "append_forwarded_headers H m client_addr proto =
     (let m1 = (case header_value H (forwarded_for H m client_addr) of
          Some v \<Rightarrow> hm_insert H m ''x-forwarded-for'' v
        | None \<Rightarrow> m)
      in hm_insert H m1 ''x-forwarded-proto'' proto)"

section \<open>Forwarding one request\<close>

definition authority :: "string \<Rightarrow> nat \<Rightarrow> string" where
  "authority host port = host @ CHR '':'' # show_nat port"

definition prepare_request ::
  "'m http_api \<Rightarrow> 'm request \<Rightarrow> string \<Rightarrow> socket_addr \<Rightarrow> string \<Rightarrow> proxy_error + 'm request" where
  "prepare_request H req upstream client_addr proto =
     (let path_and_query = (case uri_path_and_query H (rq_uri req) of None \<Rightarrow> ''/'' | Some pq \<Rightarrow> pq) in
      case upstream_host_port upstream of
        Inl e \<Rightarrow> Inl (AddrFailure e)
      | Inr (host, port) \<Rightarrow>
          (case uri_parse H (''http://'' @ authority host port @ path_and_query) of
             None \<Rightarrow> Inl UriFailure
           | Some uri \<Rightarrow>
               (let stripped = strip_hop_by_hop H (rq_headers req) in
                case header_value H (authority host port) of
                  None \<Rightarrow> Inl HostFailure
                | Some v \<Rightarrow> Inr (req\<lparr>rq_uri := uri,
                    rq_headers := append_forwarded_headers H (hm_insert H stripped ''host'' v)
                      client_addr proto\<rparr>))))"

definition proxy_request ::
  "'m http_api \<Rightarrow> 'm client \<Rightarrow> 'm request \<Rightarrow> string \<Rightarrow> socket_addr \<Rightarrow> string
    \<Rightarrow> duration \<times> (proxy_error + 'm response)" where
  "proxy_request H client req upstream client_addr proto =
     (case prepare_request H req upstream client_addr proto of
        Inl e \<Rightarrow> (0, Inl e)
      | Inr sent \<Rightarrow>
          (case client sent of
             (elapsed, Inl e) \<Rightarrow> (elapsed, Inl (ClientFailure e))
           | (elapsed, Inr response) \<Rightarrow>
               (elapsed, Inr (response\<lparr>rs_headers := strip_hop_by_hop H (rs_headers response)\<rparr>))))"

section \<open>What the headers are afterwards\<close>

lemma field_char_comma: "list_all field_char '', ''"
  by (simp add: field_char_def char_code_def)

context header_map
begin

lemma strip_get_all:
  "hm_get_all H (strip_hop_by_hop H m) k =
     (if k \<in> set HOP_BY_HOP_HEADERS \<or> k \<in> set (connection_names H m) then [] else hm_get_all H m k)"
  by (simp add: strip_hop_by_hop_def removes_get_all)

lemma forwarded_for_accepted:
  assumes "list_all field_char (ip_text a)"
  shows "header_value H (forwarded_for H m a) = Some (forwarded_for H m a)"
proof (rule header_value_accepts)
  show "list_all field_char (forwarded_for H m a)"
    using assms field_char_comma
    by (auto simp: forwarded_for_def bind_eq_Some_conv dest!: str_bytes split: option.splits)
qed

lemma append_get_all:
  assumes "list_all field_char (ip_text a)"
  shows "hm_get_all H (append_forwarded_headers H m a proto) k =
    (if k = ''x-forwarded-proto'' then [proto]
     else if k = ''x-forwarded-for'' then [forwarded_for H m a]
     else hm_get_all H m k)"
  by (simp add: append_forwarded_headers_def forwarded_for_accepted [OF assms] get_all_insert)

lemma prepare_InrD:
  assumes "prepare_request H req upstream a proto = Inr sent"
  obtains host port uri where
    "upstream_host_port upstream = Inr (host, port)"
    "sent = req\<lparr>rq_uri := uri, rq_headers := append_forwarded_headers H
        (hm_insert H (strip_hop_by_hop H (rq_headers req)) ''host'' (authority host port)) a proto\<rparr>"
proof -
  obtain host port uri v where "upstream_host_port upstream = Inr (host, port)"
    and v: "header_value H (authority host port) = Some v"
    and "sent = req\<lparr>rq_uri := uri, rq_headers := append_forwarded_headers H
        (hm_insert H (strip_hop_by_hop H (rq_headers req)) ''host'' v) a proto\<rparr>"
    using assms unfolding prepare_request_def Let_def by (auto split: sum.splits option.splits)
  with value_bytes [OF v] show thesis using that by simp
qed

lemma prepare_get_all:
  assumes "prepare_request H req upstream a proto = Inr sent"
    and "upstream_host_port upstream = Inr (host, port)" "list_all field_char (ip_text a)"
  shows "hm_get_all H (rq_headers sent) k =
    (if k = ''x-forwarded-proto'' then [proto]
     else if k = ''x-forwarded-for'' then [forwarded_for H (strip_hop_by_hop H (rq_headers req)) a]
     else if k = ''host'' then [authority host port]
     else if k \<in> set HOP_BY_HOP_HEADERS \<or> k \<in> set (connection_names H (rq_headers req)) then []
     else hm_get_all H (rq_headers req) k)"
proof -
  obtain uri where sent: "sent = req\<lparr>rq_uri := uri, rq_headers := append_forwarded_headers H
        (hm_insert H (strip_hop_by_hop H (rq_headers req)) ''host'' (authority host port)) a proto\<rparr>"
    using prepare_InrD [OF assms(1)] assms(2) by (metis Inr_inject prod.inject)
  have "forwarded_for H (hm_insert H (strip_hop_by_hop H (rq_headers req)) ''host'' (authority host port)) a
      = forwarded_for H (strip_hop_by_hop H (rq_headers req)) a"
    by (simp add: forwarded_for_def get_insert)
  then show ?thesis by (simp add: sent append_get_all assms(3) get_all_insert strip_get_all)
qed

lemma override_get_all:
  "hm_get_all H (apply_override H m nv) k =
     (if header_name H (fst nv) = Some k \<and> (snd nv = [] \<or> header_value H (snd nv) \<noteq> None)
      then (if snd nv = [] then [] else [snd nv]) else hm_get_all H m k)"
  by (auto simp: apply_override_def get_all_insert get_all_remove dest: value_bytes
      split: option.splits)

lemma overrides_get_all_None:
  "(\<forall>nv\<in>set ov. header_name H (fst nv) \<noteq> Some k) \<Longrightarrow>
     hm_get_all H (apply_header_overrides H m ov) k = hm_get_all H m k"
  unfolding apply_header_overrides_def
  by (induction ov arbitrary: m) (auto simp: override_get_all)

lemma overrides_get_all:
  assumes "distinct (map (\<lambda>nv. header_name H (fst nv)) ov)" "(n, v) \<in> set ov"
    and "header_name H n = Some k" "v = [] \<or> header_value H v \<noteq> None"
  shows "hm_get_all H (apply_header_overrides H m ov) k = (if v = [] then [] else [v])"
proof -
  obtain as bs where ov: "ov = as @ (n, v) # bs" using assms(2) by (meson split_list)
  have "\<forall>nv\<in>set bs. header_name H (fst nv) \<noteq> Some k"
    using assms(1,3) by (force simp: ov)
  then have "hm_get_all H (apply_header_overrides H (apply_override H (apply_header_overrides H m as) (n, v)) bs) k
      = hm_get_all H (apply_override H (apply_header_overrides H m as) (n, v)) k"
    by (rule overrides_get_all_None)
  with assms(3,4) show ?thesis by (simp add: ov apply_header_overrides_def override_get_all)
qed

end

lemma header_map_std: "header_map std_http"
  by unfold_locales

section \<open>Properties\<close>

text \<open>C23 What an upstream receives: no hop-by-hop header and no header the client's
  \<open>Connection\<close> header names reaches it (unless the proxy sets it itself), \<open>Host\<close> is the
  upstream's authority, \<open>X-Forwarded-Proto\<close> the client's protocol, and every other header
  is passed on unchanged.\<close>

theorem forwarded_request_headers:
  assumes "header_map H" "list_all field_char (ip_text client)"
    and "prepare_request H req upstream client proto = Inr sent"
  shows "(\<forall>k\<in>set HOP_BY_HOP_HEADERS. hm_get_all H (rq_headers sent) k = [])
    \<and> hm_get_all H (rq_headers sent) ''x-forwarded-proto'' = [proto]
    \<and> (\<exists>host port. upstream_host_port upstream = Inr (host, port)
        \<and> hm_get_all H (rq_headers sent) ''host'' = [host @ '':'' @ show_nat port])
    \<and> (\<forall>k. k \<notin> {''host'', ''x-forwarded-for'', ''x-forwarded-proto''} \<union> set HOP_BY_HOP_HEADERS
        \<longrightarrow> hm_get_all H (rq_headers sent) k =
          (if k \<in> set (connection_names H (rq_headers req)) then [] else hm_get_all H (rq_headers req) k))"
proof -
  obtain host port where hp: "upstream_host_port upstream = Inr (host, port)"
    using header_map.prepare_InrD [OF assms(1,3)] by metis
  note g = header_map.prepare_get_all [OF assms(1,3) hp assms(2)]
  show ?thesis using hp by (auto simp: g HOP_BY_HOP_HEADERS_def authority_def)
qed

theorem forwarded_request_headers_witness:
  "\<exists>sent. prepare_request std_http
      \<lparr>rq_method = ''GET'', rq_uri = ''/a'', rq_version = HTTP_11,
       rq_headers = [(''host'', ''x''), (''connection'', ''close, X-A''), (''x-a'', ''1''), (''te'', ''y'')],
       rq_body = EmptyBody\<rparr>
      ''http://up:80'' \<lparr>ip_text = ''10.0.0.1'', port_num = 5\<rparr> ''https'' = Inr sent
    \<and> hm_get_all std_http (rq_headers sent) ''te'' = []"
proof -
  let ?req = "\<lparr>rq_method = ''GET'', rq_uri = ''/a'', rq_version = HTTP_11,
       rq_headers = [(''host'', ''x''), (''connection'', ''close, X-A''), (''x-a'', ''1''), (''te'', ''y'')],
       rq_body = EmptyBody\<rparr>"
  have ok: "case prepare_request std_http ?req ''http://up:80'' \<lparr>ip_text = ''10.0.0.1'', port_num = 5\<rparr> ''https''
      of Inl _ \<Rightarrow> False | Inr _ \<Rightarrow> True" by code_simp
  then obtain sent where sent: "prepare_request std_http ?req ''http://up:80''
      \<lparr>ip_text = ''10.0.0.1'', port_num = 5\<rparr> ''https'' = Inr sent" by (auto split: sum.splits)
  have "list_all field_char (ip_text \<lparr>ip_text = ''10.0.0.1'', port_num = 5\<rparr>)" by code_simp
  from forwarded_request_headers [OF header_map_std this sent]
  have "hm_get_all std_http (rq_headers sent) ''te'' = []" by (simp add: HOP_BY_HOP_HEADERS_def)
  with sent show ?thesis by blast
qed

text \<open>The last hop of \<open>X-Forwarded-For\<close> is the peer the proxy saw: the upstream receives
  exactly one such line, and it is the peer's address, alone or after the client's first
  \<open>X-Forwarded-For\<close> line; every further line of the client is lost.\<close>

lemma forwarded_for_last_hop:
  assumes "header_map H" "list_all field_char (ip_text client)"
    and "prepare_request H req upstream client proto = Inr sent"
  shows "\<exists>x. hm_get_all H (rq_headers sent) ''x-forwarded-for'' = [x]
    \<and> (x = ip_text client \<or>
       (\<exists>first rest. hm_get_all H (rq_headers req) ''x-forwarded-for'' = first # rest
          \<and> x = first @ '', '' @ ip_text client))"
proof -
  obtain host port where hp: "upstream_host_port upstream = Inr (host, port)"
    using header_map.prepare_InrD [OF assms(1,3)] by metis
  let ?s = "strip_hop_by_hop H (rq_headers req)"
  have x: "hm_get_all H (rq_headers sent) ''x-forwarded-for'' = [forwarded_for H ?s client]"
    by (simp add: header_map.prepare_get_all [OF assms(1,3) hp assms(2)])
  have "forwarded_for H ?s client = ip_text client \<or>
     (\<exists>first rest. hm_get_all H (rq_headers req) ''x-forwarded-for'' = first # rest
        \<and> forwarded_for H ?s client = first @ '', '' @ ip_text client)"
    by (auto simp: forwarded_for_def header_map.get_first [OF assms(1)]
        header_map.strip_get_all [OF assms(1)] bind_eq_Some_conv
        dest!: header_map.str_bytes [OF assms(1)] split: option.splits list.splits if_splits)
  with x show ?thesis by blast
qed

lemma forwarded_for_last_hop_example:
  "\<exists>sent x. prepare_request std_http
      \<lparr>rq_method = ''GET'', rq_uri = ''/'', rq_version = HTTP_11,
       rq_headers = [(''x-forwarded-for'', ''1.1.1.1''), (''x-forwarded-for'', ''2.2.2.2'')], rq_body = EmptyBody\<rparr>
      ''up:81'' \<lparr>ip_text = ''10.0.0.1'', port_num = 5\<rparr> ''http'' = Inr sent
    \<and> hm_get_all std_http (rq_headers sent) ''x-forwarded-for'' = [x]"
proof -
  let ?req = "\<lparr>rq_method = ''GET'', rq_uri = ''/'', rq_version = HTTP_11,
       rq_headers = [(''x-forwarded-for'', ''1.1.1.1''), (''x-forwarded-for'', ''2.2.2.2'')], rq_body = EmptyBody\<rparr>"
  have ok: "case prepare_request std_http ?req ''up:81'' \<lparr>ip_text = ''10.0.0.1'', port_num = 5\<rparr> ''http''
      of Inl _ \<Rightarrow> False | Inr _ \<Rightarrow> True" by code_simp
  then obtain sent where sent: "prepare_request std_http ?req ''up:81''
      \<lparr>ip_text = ''10.0.0.1'', port_num = 5\<rparr> ''http'' = Inr sent" by (auto split: sum.splits)
  have "list_all field_char (ip_text \<lparr>ip_text = ''10.0.0.1'', port_num = 5\<rparr>)" by code_simp
  from forwarded_for_last_hop [OF header_map_std this sent] sent show ?thesis by blast
qed

text \<open>Header overrides do not depend on the order the map of overrides is enumerated in,
  when no two of its names denote the same header.\<close>

lemma overrides_order_irrelevant:
  assumes "header_map H" "distinct (map (\<lambda>nv. header_name H (fst nv)) ov)" "mset ov' = mset ov"
    and "list_all (\<lambda>nv. snd nv = [] \<or> header_value H (snd nv) \<noteq> None) ov"
  shows "hm_get_all H (apply_header_overrides H m ov') k = hm_get_all H (apply_header_overrides H m ov) k"
proof (cases "\<exists>nv\<in>set ov. header_name H (fst nv) = Some k")
  case True
  then obtain n v where nv: "(n, v) \<in> set ov" "header_name H n = Some k" by force
  have val: "v = [] \<or> header_value H v \<noteq> None" using assms(4) nv(1) by (fastforce simp: list_all_iff)
  have "(n, v) \<in> set ov'" using assms(3) nv(1) by (metis set_mset_mset)
  moreover have "distinct (map (\<lambda>nv. header_name H (fst nv)) ov')"
    using assms(2,3) by (metis mset_eq_imp_distinct_iff mset_map)
  ultimately show ?thesis
    using header_map.overrides_get_all [OF assms(1) _ _ nv(2) val] assms(2) nv(1) by simp
next
  case False
  then have "\<forall>nv\<in>set ov'. header_name H (fst nv) \<noteq> Some k"
    using assms(3) by (metis set_mset_mset)
  with False show ?thesis by (simp add: header_map.overrides_get_all_None [OF assms(1)])
qed

lemma overrides_order_irrelevant_example:
  "hm_get_all std_http (apply_header_overrides std_http [] [(''B'', ''''), (''a'', ''1'')]) ''a''
     = hm_get_all std_http (apply_header_overrides std_http [] [(''a'', ''1''), (''B'', '''')]) ''a''"
  by (rule overrides_order_irrelevant [OF header_map_std])
    (code_simp, simp, code_simp)

text \<open>Overrides whose names differ only in letter case are accepted and denote the same
  header; which one wins then depends on the enumeration order of the map.\<close>

lemma overrides_case_collision:
  "list_all (valid_override std_http) [(''X-A'', ''1''), (''x-a'', ''2'')]
   \<and> hm_get_all std_http (apply_header_overrides std_http [] [(''X-A'', ''1''), (''x-a'', ''2'')]) ''x-a'' = [''2'']
   \<and> hm_get_all std_http (apply_header_overrides std_http [] [(''x-a'', ''2''), (''X-A'', ''1'')]) ''x-a'' = [''1'']"
  by code_simp

end
