(* ===== verification/Plugin.thy ===== *)
theory Plugin
  imports Config
begin

text \<open>
  \<open>plugin.rs\<close>: loading WASM request filters, running one against a request, and the cache of
  compiled plugins.  wasmtime is a parameter: the record \<open>wasm_api\<close> lists the calls made,
  each with the ways it can fail.  A store (\<open>'st\<close>) is the state of one invocation; every
  invocation starts from a fresh one.
\<close>

definition FUEL_PER_CALL :: nat where
  "FUEL_PER_CALL = 5000000"

datatype verdict = Allow | Deny "16 word"

datatype plugin_error =
    EngineInit
  | ReadPlugin string
  | CompilePlugin string
  | MissingExport string
  | SetFuel
  | Instantiate
  | NoMemory
  | WrongSignature string
  | AllocFailed
  | MemoryWrite
  | Trapped

record ('md, 'st) wasm_api =
  wa_engine :: bool                                         \<comment> \<open>\<open>Engine::new\<close> succeeds\<close>
  wa_compile :: "string \<Rightarrow> 'md option"                      \<comment> \<open>\<open>Module::new\<close>\<close>
  wa_export :: "'md \<Rightarrow> string \<Rightarrow> bool"                      \<comment> \<open>\<open>Module::get_export\<close>\<close>
  wa_store :: "nat \<Rightarrow> 'st option"                           \<comment> \<open>\<open>Store::new\<close>, \<open>set_fuel\<close>\<close>
  wa_instantiate :: "'md \<Rightarrow> 'st \<Rightarrow> 'st option"              \<comment> \<open>\<open>Instance::new\<close>\<close>
  wa_memory :: "'st \<Rightarrow> bool"                                \<comment> \<open>\<open>get_memory\<close>\<close>
  wa_typed :: "'st \<Rightarrow> string \<Rightarrow> bool"                       \<comment> \<open>\<open>get_typed_func\<close>\<close>
  wa_alloc :: "'st \<Rightarrow> 32 word \<Rightarrow> (32 word \<times> 'st) option"    \<comment> \<open>calling \<open>alloc\<close>\<close>
  wa_write :: "'st \<Rightarrow> 64 word \<Rightarrow> string \<Rightarrow> 'st option"       \<comment> \<open>\<open>Memory::write\<close>\<close>
  wa_on_request :: "'st \<Rightarrow> 32 word \<Rightarrow> 32 word \<Rightarrow> 32 word \<Rightarrow> 32 word \<Rightarrow> 32 word option"
                                                            \<comment> \<open>calling \<open>on_request\<close>\<close>

definition ok_or :: "'a option \<Rightarrow> 'e \<Rightarrow> 'e + 'a" where
  "ok_or x e = (case x of None \<Rightarrow> Inl e | Some a \<Rightarrow> Inr a)"

definition and_then :: "'e + 'a \<Rightarrow> ('a \<Rightarrow> 'e + 'b) \<Rightarrow> 'e + 'b" where
  "and_then r f = (case r of Inl e \<Rightarrow> Inl e | Inr a \<Rightarrow> f a)"

definition require :: "bool \<Rightarrow> 'e \<Rightarrow> 'e + unit" where
  "require b e = (if b then Inr () else Inl e)"

lemma and_then_Inr [simp]: "and_then r f = Inr b \<longleftrightarrow> (\<exists>a. r = Inr a \<and> f a = Inr b)"
  by (simp add: and_then_def split: sum.splits)

lemma ok_or_Inr [simp]: "ok_or x e = Inr a \<longleftrightarrow> x = Some a"
  by (simp add: ok_or_def split: option.splits)

lemma require_Inr [simp]: "require b e = Inr u \<longleftrightarrow> b"
  by (simp add: require_def)

definition plugin_load ::
  "('md, 'st) wasm_api \<Rightarrow> (string \<Rightarrow> string option) \<Rightarrow> string \<Rightarrow> plugin_error + 'md" where
  "plugin_load W read path =
     and_then (require (wa_engine W) EngineInit) (\<lambda>_.
     and_then (ok_or (read path) (ReadPlugin path)) (\<lambda>bytes.
     and_then (ok_or (wa_compile W bytes) (CompilePlugin path)) (\<lambda>module.
     and_then (require (wa_export W module ''on_request'') (MissingExport ''on_request'')) (\<lambda>_.
     and_then (require (wa_export W module ''alloc'') (MissingExport ''alloc'')) (\<lambda>_.
     and_then (require (wa_export W module ''memory'') (MissingExport ''memory'')) (\<lambda>_.
     Inr module))))))"

text \<open>\<open>write_bytes\<close>: the length is cut to 32 bits, the pointer sign-extended to \<open>usize\<close>.\<close>

definition write_bytes ::
  "('md, 'st) wasm_api \<Rightarrow> 'st \<Rightarrow> string \<Rightarrow> plugin_error + 32 word \<times> 'st" where
  "write_bytes W st bytes =
     and_then (ok_or (wa_alloc W st (of_nat (length bytes))) AllocFailed) (\<lambda>(ptr, st).
     and_then (ok_or (wa_write W st (signed_take_bit 31 (ucast ptr)) bytes) MemoryWrite) (\<lambda>st.
     Inr (ptr, st)))"

definition verdict_of :: "32 word \<Rightarrow> verdict" where
  "verdict_of code =
     (if code = 0 then Allow
      else if 400 \<le> sint code \<and> sint code < 600 then Deny (ucast code)
      else Deny 403)"

definition try_evaluate ::
  "('md, 'st) wasm_api \<Rightarrow> 'md \<Rightarrow> string \<Rightarrow> string \<Rightarrow> plugin_error + verdict" where
  "try_evaluate W module method path =
     and_then (ok_or (wa_store W FUEL_PER_CALL) SetFuel) (\<lambda>st.
     and_then (ok_or (wa_instantiate W module st) Instantiate) (\<lambda>st.
     and_then (require (wa_memory W st) NoMemory) (\<lambda>_.
     and_then (require (wa_typed W st ''alloc'') (WrongSignature ''alloc'')) (\<lambda>_.
     and_then (require (wa_typed W st ''on_request'') (WrongSignature ''on_request'')) (\<lambda>_.
     and_then (write_bytes W st method) (\<lambda>(method_ptr, st).
     and_then (write_bytes W st path) (\<lambda>(path_ptr, st).
     and_then (ok_or (wa_on_request W st method_ptr (of_nat (length method))
        path_ptr (of_nat (length path))) Trapped) (\<lambda>code.
     Inr (verdict_of code)))))))))"

definition evaluate ::
  "('md, 'st) wasm_api \<Rightarrow> 'md \<Rightarrow> string \<Rightarrow> string \<Rightarrow> verdict" where
  "evaluate W module method path =
     (case try_evaluate W module method path of Inr v \<Rightarrow> v | Inl _ \<Rightarrow> Deny 500)"

section \<open>The plugin cache\<close>

fun cache_routes ::
  "(string \<Rightarrow> plugin_error + 'md) \<Rightarrow> (string \<rightharpoonup> 'md) \<Rightarrow> route_config list
    \<Rightarrow> plugin_error + (string \<rightharpoonup> 'md)" where
  "cache_routes load cache [] = Inr cache"
| "cache_routes load cache (r # rs) =
     (case rc_plugin r of
        None \<Rightarrow> cache_routes load cache rs
      | Some path \<Rightarrow>
          if cache path = None
          then (case load path of
              Inl e \<Rightarrow> Inl e
            | Inr plugin \<Rightarrow> cache_routes load (cache(path \<mapsto> plugin)) rs)
          else cache_routes load cache rs)"

definition build_plugin_cache ::
  "('md, 'st) wasm_api \<Rightarrow> (string \<Rightarrow> string option) \<Rightarrow> config \<Rightarrow> plugin_error + (string \<rightharpoonup> 'md)" where
  "build_plugin_cache W read c = cache_routes (plugin_load W read) Map.empty (cfg_route c)"

definition plugin_paths :: "route_config list \<Rightarrow> string set" where
  "plugin_paths rs = {path. \<exists>r\<in>set rs. rc_plugin r = Some path}"

lemma plugin_paths_Cons:
  "plugin_paths (r # rs) = set_option (rc_plugin r) \<union> plugin_paths rs"
  by (auto simp: plugin_paths_def)

definition sound_cache :: "(string \<Rightarrow> plugin_error + 'md) \<Rightarrow> (string \<rightharpoonup> 'md) \<Rightarrow> bool" where
  "sound_cache load cache \<longleftrightarrow> (\<forall>path p. cache path = Some p \<longrightarrow> load path = Inr p)"

lemma cache_routes_sound:
  "sound_cache load cache \<Longrightarrow> cache_routes load cache rs = Inr cache' \<Longrightarrow>
     sound_cache load cache' \<and> dom cache' = dom cache \<union> plugin_paths rs"
proof (induction rs arbitrary: cache)
  case Nil
  then show ?case by (simp add: plugin_paths_def)
next
  case (Cons r rs)
  show ?case
  proof (cases "rc_plugin r")
    case None
    with Cons show ?thesis by (simp add: plugin_paths_Cons)
  next
    case (Some path)
    show ?thesis
    proof (cases "cache path")
      case None
      with Some Cons.prems obtain p where p: "load path = Inr p"
        "cache_routes load (cache(path \<mapsto> p)) rs = Inr cache'" by (auto split: sum.splits)
      have "sound_cache load (cache(path \<mapsto> p))"
        using Cons.prems(1) p(1) by (simp add: sound_cache_def)
      from Cons.IH [OF this p(2)] show ?thesis by (auto simp: plugin_paths_Cons Some)
    next
      case (Some p)
      with \<open>rc_plugin r = Some path\<close> Cons show ?thesis by (auto simp: plugin_paths_Cons)
    qed
  qed
qed

lemma cache_routes_error:
  "sound_cache load cache \<Longrightarrow>
     (\<exists>e. cache_routes load cache rs = Inl e) \<longleftrightarrow> (\<exists>path\<in>plugin_paths rs. \<exists>e. load path = Inl e)"
proof (induction rs arbitrary: cache)
  case Nil
  then show ?case by (simp add: plugin_paths_def)
next
  case (Cons r rs)
  show ?case
  proof (cases "rc_plugin r")
    case None
    with Cons show ?thesis by (simp add: plugin_paths_Cons)
  next
    case (Some path)
    show ?thesis
    proof (cases "cache path")
      case (Some p)
      then have "load path = Inr p" using Cons.prems by (simp add: sound_cache_def)
      with Some \<open>rc_plugin r = Some path\<close> Cons show ?thesis by (auto simp: plugin_paths_Cons)
    next
      case None
      show ?thesis
      proof (cases "load path")
        case (Inl e)
        with None Some show ?thesis by (auto simp: plugin_paths_Cons)
      next
        case (Inr p)
        then have "sound_cache load (cache(path \<mapsto> p))"
          using Cons.prems by (simp add: sound_cache_def)
        note IH = Cons.IH [OF this]
        have "cache_routes load cache (r # rs) = cache_routes load (cache(path \<mapsto> p)) rs"
          using None Some Inr by simp
        with IH Some Inr show ?thesis by (simp add: plugin_paths_Cons del: fun_upd_apply)
      qed
    qed
  qed
qed

lemma sound_cache_empty: "sound_cache load Map.empty"
  by (simp add: sound_cache_def)

lemma plugin_paths_of_cache:
  "build_plugin_cache W read c = Inr cache \<Longrightarrow> dom cache = plugin_paths (cfg_route c)"
  using cache_routes_sound [OF sound_cache_empty] by (fastforce simp: build_plugin_cache_def)

lemma sint_range_nat:
  assumes "400 \<le> sint (c :: 32 word)" "sint c < 600"
  shows "unat (ucast c :: 16 word) = nat (sint c)"
proof -
  define m where "m = nat (sint c)"
  have m: "m < 600" "sint c = int m" using assms by (simp_all add: m_def)
  have "c = word_of_int (sint c)" by simp
  then have "c = of_nat m" by (simp add: m(2))
  then have "unat c = m" using m(1) by (simp add: unat_of_nat)
  with m show ?thesis by (simp add: unsigned_ucast_eq take_bit_eq_mod)
qed

lemma verdict_of_range:
  "verdict_of c = Deny s \<Longrightarrow> 400 \<le> unat s \<and> unat s < 600"
  using sint_range_nat [of c] by (auto simp: verdict_of_def split: if_splits)

section \<open>Properties\<close>


text \<open>A filter that denies every request with 404, as a concrete instance.\<close>

definition deny_404 :: "(unit, unit) wasm_api" where
  "deny_404 = \<lparr>wa_engine = True, wa_compile = (\<lambda>_. Some ()), wa_export = (\<lambda>_ _. True),
     wa_store = (\<lambda>_. Some ()), wa_instantiate = (\<lambda>_ _. Some ()), wa_memory = (\<lambda>_. True),
     wa_typed = (\<lambda>_ _. True), wa_alloc = (\<lambda>_ _. Some (1024, ())), wa_write = (\<lambda>_ _ _. Some ()),
     wa_on_request = (\<lambda>_ _ _ _ _. Some 404)\<rparr>"

text \<open>C33 The plugin cache fails closed: building it succeeds exactly when every plugin a
  route names loads, and then it holds the loaded module of every named path and nothing
  else.\<close>

theorem plugin_cache_fails_closed:
  "(case build_plugin_cache W read c of
      Inl _ \<Rightarrow> \<exists>path e. path \<in> plugin_paths (cfg_route c) \<and> plugin_load W read path = Inl e
    | Inr cache \<Rightarrow> dom cache = plugin_paths (cfg_route c)
        \<and> (\<forall>path p. cache path = Some p \<longrightarrow> plugin_load W read path = Inr p))"
proof (cases "build_plugin_cache W read c")
  case (Inl e)
  then have "\<exists>e. cache_routes (plugin_load W read) Map.empty (cfg_route c) = Inl e"
    by (simp add: build_plugin_cache_def)
  then have "\<exists>path\<in>plugin_paths (cfg_route c). \<exists>e. plugin_load W read path = Inl e"
    by (simp only: cache_routes_error [OF sound_cache_empty])
  with Inl show ?thesis by auto
next
  case (Inr cache)
  with cache_routes_sound [OF sound_cache_empty, of "plugin_load W read" "cfg_route c" cache]
  show ?thesis by (simp add: build_plugin_cache_def sound_cache_def)
qed

theorem plugin_cache_fails_closed_witness:
  "let r = \<lparr>rc_name = ''r'', rc_host = None, rc_path = None, rc_when = None, rc_upstream = [],
       rc_mirror = None, rc_timeout = \<lparr>tc_connect = None, tc_first_byte = None, tc_total = None\<rparr>,
       rc_headers = \<lparr>hc_request = None, hc_response = None\<rparr>, rc_health_check = None,
       rc_retries = None, rc_plugin = Some ''f.wasm''\<rparr>;
     c = \<lparr>cfg_global = \<lparr>gc_workers = None, gc_log_format = None, gc_log_level = None, gc_metrics_addr = None\<rparr>,
       cfg_listener = [], cfg_route = [r]\<rparr> in
   \<exists>cache. build_plugin_cache deny_404 (\<lambda>_. Some ''wasm'') c = Inr cache \<and> dom cache = {''f.wasm''}"
proof -
  define r where "r = \<lparr>rc_name = ''r'', rc_host = None, rc_path = None, rc_when = None, rc_upstream = [],
       rc_mirror = None, rc_timeout = \<lparr>tc_connect = None, tc_first_byte = None, tc_total = None\<rparr>,
       rc_headers = \<lparr>hc_request = None, hc_response = None\<rparr>, rc_health_check = None,
       rc_retries = None, rc_plugin = Some ''f.wasm''\<rparr>"
  define c where "c = \<lparr>cfg_global = \<lparr>gc_workers = None, gc_log_format = None, gc_log_level = None, gc_metrics_addr = None\<rparr>,
       cfg_listener = [], cfg_route = [r]\<rparr>"
  have b: "build_plugin_cache deny_404 (\<lambda>_. Some ''wasm'') c = Inr (Map.empty(''f.wasm'' \<mapsto> ()))"
    by (simp add: build_plugin_cache_def c_def r_def plugin_load_def deny_404_def and_then_def
        ok_or_def require_def)
  have "plugin_paths (cfg_route c) = {''f.wasm''}" by (simp add: plugin_paths_def c_def r_def)
  with b plugin_cache_fails_closed [where c = c and W = deny_404 and read = "\<lambda>_. Some ''wasm''"]
  have "build_plugin_cache deny_404 (\<lambda>_. Some ''wasm'') c = Inr (Map.empty(''f.wasm'' \<mapsto> ()))
      \<and> dom (Map.empty(''f.wasm'' \<mapsto> ())) = {''f.wasm''}" by simp
  then show ?thesis unfolding Let_def c_def r_def by blast
qed

end
