(* ===== verification/Engine.thy ===== *)
theory Engine
  imports Routing Upstream Proxy Plugin
begin

text \<open>
  \<open>server.rs\<close>, first half: \<open>ProxyEngine\<close>.  The state its locks protect is the record
  \<open>world\<close>; \<open>handle\<close> routes a request, runs the plugin, spawns the mirror request and drives
  the attempts, and returns the reply together with everything it did.  What is outside one
  request is a parameter: how upstreams answer (\<open>env_client\<close>, one behaviour per attempt),
  what other tasks do to the shared state before each attempt (\<open>env_interfere\<close>, any
  function), and the clock's sub-second part.
\<close>

section \<open>Shared state\<close>

record metrics =
  mt_requests :: nat
  mt_durations :: "duration list"
  mt_errors :: nat

record 'md world =
  w_config :: config
  w_lbs :: "string \<rightharpoonup> load_balancer"
  w_health :: health_registry
  w_plugins :: "string \<rightharpoonup> 'md"
  w_metrics :: metrics

definition DEFAULT_TOTAL_TIMEOUT :: duration where
  "DEFAULT_TOTAL_TIMEOUT = 30000"

definition engine_new ::
  "('md, 'st) wasm_api \<Rightarrow> features \<Rightarrow> (string \<Rightarrow> string option) \<Rightarrow> config \<Rightarrow> metrics \<Rightarrow> 'md world" where
  "engine_new W F read c m = \<lparr>
     w_config = c,
     w_lbs = build_lb_map c,
     w_health = registry_new,
     w_plugins = (if feat_plugins F
        then (case build_plugin_cache W read c of Inr cache \<Rightarrow> cache | Inl _ \<Rightarrow> Map.empty)
        else Map.empty),
     w_metrics = m \<rparr>"

definition inc_requests :: "'md world \<Rightarrow> 'md world" where
  "inc_requests w = w\<lparr>w_metrics := (w_metrics w)\<lparr>mt_requests := mt_requests (w_metrics w) + 1\<rparr>\<rparr>"

definition inc_errors :: "'md world \<Rightarrow> 'md world" where
  "inc_errors w = w\<lparr>w_metrics := (w_metrics w)\<lparr>mt_errors := mt_errors (w_metrics w) + 1\<rparr>\<rparr>"

definition observe_duration :: "duration \<Rightarrow> 'md world \<Rightarrow> 'md world" where
  "observe_duration d w =
     w\<lparr>w_metrics := (w_metrics w)\<lparr>mt_durations := mt_durations (w_metrics w) @ [d]\<rparr>\<rparr>"

section \<open>Requests as the engine sees them\<close>

record 'm parts =
  pt_method :: string
  pt_uri :: string
  pt_version :: http_version
  pt_headers :: 'm

record connection =
  cn_addr :: socket_addr
  cn_proto :: string
  cn_fingerprint :: "string option"

record ('m, 'md, 'st) env =
  env_http :: "'m http_api"
  env_features :: features
  env_wasm :: "('md, 'st) wasm_api"
  env_client :: "nat \<Rightarrow> 'm client"
  env_interfere :: "nat \<Rightarrow> 'md world \<Rightarrow> 'md world"
  env_nanos :: nat

definition build_request :: "'m parts \<Rightarrow> upstream_body \<Rightarrow> 'm request" where
  "build_request parts body = \<lparr>
     rq_method = pt_method parts,
     rq_uri = pt_uri parts,
     rq_version = HTTP_11,
     rq_headers = pt_headers parts,
     rq_body = body \<rparr>"

definition should_mirror :: "nat \<Rightarrow> nat \<Rightarrow> bool" where
  "should_mirror nanos rate =
     (if 100 \<le> rate then True else if rate = 0 then False else nanos mod 100 < rate)"

definition error_response :: "'m http_api \<Rightarrow> nat \<Rightarrow> string \<Rightarrow> 'm response" where
  "error_response H status message = \<lparr>rs_status = status, rs_headers = hm_new H, rs_body = message\<rparr>"

section \<open>Routing a request\<close>

text \<open>What \<open>handle\<close> copies out of the selected route while it holds the configuration lock.\<close>

record 'md plan =
  pl_name :: string
  pl_attempts :: nat
  pl_timeout :: duration
  pl_request :: "overrides option"
  pl_response :: "overrides option"
  pl_mirror :: "mirror_config option"
  pl_plugin :: "'md option"

definition plan_of_route :: "features \<Rightarrow> (string \<rightharpoonup> 'md) \<Rightarrow> route_config \<Rightarrow> 'md plan" where
  "plan_of_route F plugins r = \<lparr>
     pl_name = rc_name r,
     pl_attempts = max_attempts r,
     pl_timeout = (case total_duration (rc_timeout r) of Some d \<Rightarrow> d | None \<Rightarrow> DEFAULT_TOTAL_TIMEOUT),
     pl_request = hc_request (rc_headers r),
     pl_response = hc_response (rc_headers r),
     pl_mirror = rc_mirror r,
     pl_plugin = (if feat_plugins F
        then (case rc_plugin r of Some path \<Rightarrow> plugins path | None \<Rightarrow> None) else None) \<rparr>"

definition request_host :: "'m http_api \<Rightarrow> 'm parts \<Rightarrow> string option" where
  "request_host H parts = Option.bind (hm_get H (pt_headers parts) ''host'') (header_str H)"

definition plan_route :: "'m http_api \<Rightarrow> features \<Rightarrow> 'md world \<Rightarrow> 'm parts \<Rightarrow> 'md plan option" where
  "plan_route H F w parts =
     map_option (plan_of_route F (w_plugins w))
       (select_route (cfg_route (w_config w)) (request_host H parts) (uri_path H (pt_uri parts)))"

definition plugin_gate ::
  "'m http_api \<Rightarrow> ('md, 'st) wasm_api \<Rightarrow> 'md plan \<Rightarrow> 'm parts \<Rightarrow> 'm response option" where
  "plugin_gate H W plan parts =
     (case pl_plugin plan of
        None \<Rightarrow> None
      | Some plugin \<Rightarrow>
          (case evaluate W plugin (pt_method parts) (uri_path H (pt_uri parts)) of
             Allow \<Rightarrow> None
           | Deny status \<Rightarrow>
               Some (error_response H
                 (case status_from_u16 H status of Some code \<Rightarrow> code | None \<Rightarrow> 403)
                 ''Denied by plugin'')))"

definition body_replayable :: "'m parts \<Rightarrow> incoming \<Rightarrow> bool" where
  "body_replayable parts body =
     (List.member [''GET'', ''HEAD'', ''OPTIONS''] (pt_method parts) \<and> in_exact body = Some 0)"

text \<open>The mirror task \<open>handle\<close> spawns: its target, its request and its timeout.\<close>

definition mirror_task ::
  "nat \<Rightarrow> 'md plan \<Rightarrow> 'm parts \<Rightarrow> bool \<Rightarrow> (string \<times> 'm request \<times> duration) option" where
  "mirror_task nanos plan parts replayable =
     (case pl_mirror plan of
        None \<Rightarrow> None
      | Some mirror \<Rightarrow>
          if replayable \<and> should_mirror nanos (case mc_rate mirror of None \<Rightarrow> 100 | Some r \<Rightarrow> r)
          then Some (mc_addr mirror, build_request parts EmptyBody, pl_timeout plan)
          else None)"

section \<open>One attempt\<close>

datatype 'm attempt_result = Answered "'m response" | Failed proxy_error | TimedOut

record 'm attempt =
  at_addr :: string
  at_request :: "'m request"
  at_result :: "'m attempt_result"

record ('m, 'md) loop_state =
  ls_attempt :: nat
  ls_body :: "incoming option"
  ls_tried :: "string list"
  ls_elapsed :: duration
  ls_world :: "'md world"
  ls_log :: "'m attempt list"

text \<open>A finished attempt carries the reply; \<open>Finish None\<close> is a panic of the task.\<close>

datatype 'm step = Finish "'m response option" | Retry

definition select_upstream :: "'md world \<Rightarrow> string \<Rightarrow> string list \<Rightarrow> string option \<times> 'md world" where
  "select_upstream w route_name tried =
     (case w_lbs w route_name of
        None \<Rightarrow> (None, w)
      | Some lb \<Rightarrow>
          (case lb_pick lb (is_healthy (w_health w)) tried of
             (addr, lb') \<Rightarrow> (addr, w\<lparr>w_lbs := (w_lbs w)(route_name \<mapsto> lb')\<rparr>)))"

definition take_body :: "bool \<Rightarrow> incoming option \<Rightarrow> (upstream_body \<times> incoming option) option" where
  "take_body can_retry body =
     (if can_retry then Some (EmptyBody, body)
      else (case body of None \<Rightarrow> None | Some b \<Rightarrow> Some (Streaming b, None)))"

definition attempt_request ::
  "'m http_api \<Rightarrow> 'md plan \<Rightarrow> 'm parts \<Rightarrow> connection \<Rightarrow> upstream_body \<Rightarrow> 'm request option" where
  "attempt_request H plan parts conn body =
     (let req = build_request parts body;
          h1 = (case pl_request plan of
             None \<Rightarrow> rq_headers req | Some ov \<Rightarrow> apply_header_overrides H (rq_headers req) ov);
          h2 = hm_remove H h1 ''x-client-cert-fingerprint''
      in case cn_fingerprint conn of
           None \<Rightarrow> Some (req\<lparr>rq_headers := h2\<rparr>)
         | Some fingerprint \<Rightarrow>
             (case header_value H fingerprint of
                None \<Rightarrow> None
              | Some v \<Rightarrow> Some (req\<lparr>rq_headers := hm_insert H h2 ''x-client-cert-fingerprint'' v\<rparr>)))"

definition final_response :: "'m http_api \<Rightarrow> 'md plan \<Rightarrow> 'm response \<Rightarrow> 'm response" where
  "final_response H plan resp =
     (case pl_response plan of
        None \<Rightarrow> resp
      | Some ov \<Rightarrow> resp\<lparr>rs_headers := apply_header_overrides H (rs_headers resp) ov\<rparr>)"

text \<open>\<open>tokio::time::timeout\<close> around one exchange, and what the loop does with its result.\<close>

definition settle_attempt ::
  "'m http_api \<Rightarrow> 'md plan \<Rightarrow> bool \<Rightarrow> string \<Rightarrow> 'm request \<Rightarrow> duration \<Rightarrow> proxy_error + 'm response
    \<Rightarrow> ('m, 'md) loop_state \<Rightarrow> 'm step \<times> ('m, 'md) loop_state" where
  "settle_attempt H plan can_retry addr req d result s =
     (let record_at = (\<lambda>res t w. s\<lparr>ls_attempt := ls_attempt s + 1, ls_elapsed := t, ls_world := w,
            ls_log := ls_log s @ [\<lparr>at_addr = addr, at_request = req, at_result = res\<rparr>]\<rparr>)
      in if pl_timeout plan < d then
           (Finish (Some (error_response H 504 ''Gateway Timeout'')),
            record_at TimedOut (ls_elapsed s + pl_timeout plan) (inc_errors (ls_world s)))
         else (case result of
             Inr resp \<Rightarrow>
               (Finish (Some (final_response H plan resp)),
                record_at (Answered resp) (ls_elapsed s + d)
                  (observe_duration (ls_elapsed s + d) (ls_world s)))
           | Inl e \<Rightarrow>
               (if \<not> can_retry \<or> \<not> is_retryable e
                then Finish (Some (error_response H 502 ''Bad Gateway'')) else Retry,
                (record_at (Failed e) (ls_elapsed s + d) (inc_errors (ls_world s)))
                  \<lparr>ls_tried := ls_tried s @ [addr]\<rparr>)))"

definition attempt_once ::
  "('m, 'md, 'st) env \<Rightarrow> 'md plan \<Rightarrow> 'm parts \<Rightarrow> connection \<Rightarrow> bool
    \<Rightarrow> ('m, 'md) loop_state \<Rightarrow> 'm step \<times> ('m, 'md) loop_state" where
  "attempt_once env plan parts conn can_retry s0 =
     (let H = env_http env; k = ls_attempt s0;
          (picked, w) = select_upstream (env_interfere env k (ls_world s0)) (pl_name plan) (ls_tried s0);
          s = s0\<lparr>ls_world := w\<rparr>
      in case picked of
           None \<Rightarrow> (Finish (Some (error_response H 502 ''Bad Gateway: no upstreams available'')), s)
         | Some addr \<Rightarrow>
             (case take_body can_retry (ls_body s) of
                None \<Rightarrow> (Finish None, s)
              | Some (body, rest) \<Rightarrow>
                  (case attempt_request H plan parts conn body of
                     None \<Rightarrow> (Finish None, s)
                   | Some req \<Rightarrow>
                       (case proxy_request H (env_client env k) req addr (cn_addr conn) (cn_proto conn) of
                          (d, result) \<Rightarrow>
                            settle_attempt H plan can_retry addr req d result (s\<lparr>ls_body := rest\<rparr>)))))"

section \<open>The loop and the handler\<close>

fun attempts ::
  "('m, 'md, 'st) env \<Rightarrow> 'md plan \<Rightarrow> 'm parts \<Rightarrow> connection \<Rightarrow> bool \<Rightarrow> nat
    \<Rightarrow> ('m, 'md) loop_state \<Rightarrow> 'm response option \<times> ('m, 'md) loop_state" where
  "attempts env plan parts conn can_retry 0 s =
     (Some (error_response (env_http env) 502 ''Bad Gateway''), s)"
| "attempts env plan parts conn can_retry (Suc n) s =
     (case attempt_once env plan parts conn can_retry s of
        (Finish reply, s') \<Rightarrow> (reply, s')
      | (Retry, s') \<Rightarrow> attempts env plan parts conn can_retry n s')"

record ('m, 'md) outcome =
  oc_reply :: "'m response option"      \<comment> \<open>\<open>None\<close>: the task panicked\<close>
  oc_world :: "'md world"
  oc_mirror :: "(string \<times> 'm request \<times> duration) option"
  oc_attempts :: "'m attempt list"
  oc_elapsed :: duration

definition can_retry :: "'md plan \<Rightarrow> 'm parts \<Rightarrow> incoming \<Rightarrow> bool" where
  "can_retry plan parts body = (1 < pl_attempts plan \<and> body_replayable parts body)"

definition effective_attempts :: "'md plan \<Rightarrow> 'm parts \<Rightarrow> incoming \<Rightarrow> nat" where
  "effective_attempts plan parts body = (if can_retry plan parts body then pl_attempts plan else 1)"

definition loop_start :: "incoming \<Rightarrow> 'md world \<Rightarrow> ('m, 'md) loop_state" where
  "loop_start body w = \<lparr>ls_attempt = 0, ls_body = Some body, ls_tried = [], ls_elapsed = 0,
     ls_world = w, ls_log = []\<rparr>"

definition forward ::
  "('m, 'md, 'st) env \<Rightarrow> 'md plan \<Rightarrow> 'm parts \<Rightarrow> incoming \<Rightarrow> connection \<Rightarrow> 'md world
    \<Rightarrow> ('m, 'md) outcome" where
  "forward env plan parts body conn w =
     (case attempts env plan parts conn (can_retry plan parts body)
        (effective_attempts plan parts body) (loop_start body w) of
        (reply, s) \<Rightarrow> \<lparr>oc_reply = reply, oc_world = ls_world s,
          oc_mirror = mirror_task (env_nanos env) plan parts (body_replayable parts body),
          oc_attempts = ls_log s, oc_elapsed = ls_elapsed s\<rparr>)"

definition answer_now :: "'m response \<Rightarrow> 'md world \<Rightarrow> ('m, 'md) outcome" where
  "answer_now resp w = \<lparr>oc_reply = Some resp, oc_world = w, oc_mirror = None, oc_attempts = [], oc_elapsed = 0\<rparr>"

definition handle ::
  "('m, 'md, 'st) env \<Rightarrow> 'm parts \<Rightarrow> incoming \<Rightarrow> connection \<Rightarrow> 'md world \<Rightarrow> ('m, 'md) outcome" where
  "handle env parts body conn w0 =
     (let H = env_http env; w = inc_requests w0 in
      case plan_route H (env_features env) w parts of
        None \<Rightarrow> answer_now (error_response H 404 ''Not Found: no route matched'') w
      | Some plan \<Rightarrow>
          (case plugin_gate H (env_wasm env) plan parts of
             Some denied \<Rightarrow> answer_now denied w
           | None \<Rightarrow> forward env plan parts body conn w))"

section \<open>The retry policy the loop implements\<close>

text \<open>
  What the loop promises, without the shared state: a run of at most \<open>n\<close> attempts is a list
  of attempts and the way it ends.  Only a connection failure of a replayable request is
  followed by another attempt.
\<close>

datatype 'm ending = Replied "'m response" | TimeLimit | GaveUp | NoUpstream | Panicked

inductive policy :: "bool \<Rightarrow> nat \<Rightarrow> 'm attempt list \<Rightarrow> 'm ending \<Rightarrow> bool" for cr where
  exhausted: "policy cr 0 [] GaveUp"
| no_upstream: "policy cr (Suc n) [] NoUpstream"
| panicked: "policy cr (Suc n) [] Panicked"
| replied: "at_result a = Answered r \<Longrightarrow> policy cr (Suc n) [a] (Replied r)"
| time_limit: "at_result a = TimedOut \<Longrightarrow> policy cr (Suc n) [a] TimeLimit"
| gave_up: "at_result a = Failed e \<Longrightarrow> \<not> (cr \<and> is_retryable e) \<Longrightarrow> policy cr (Suc n) [a] GaveUp"
| retried: "at_result a = Failed e \<Longrightarrow> cr \<Longrightarrow> is_retryable e \<Longrightarrow> policy cr n log ending
    \<Longrightarrow> policy cr (Suc n) (a # log) ending"

inductive_cases policy_NilE: "policy cr n [] ending"

definition ending_reply :: "'m http_api \<Rightarrow> 'md plan \<Rightarrow> 'm ending \<Rightarrow> 'm response option" where
  "ending_reply H plan ending =
     (case ending of
        Replied r \<Rightarrow> Some (final_response H plan r)
      | TimeLimit \<Rightarrow> Some (error_response H 504 ''Gateway Timeout'')
      | GaveUp \<Rightarrow> Some (error_response H 502 ''Bad Gateway'')
      | NoUpstream \<Rightarrow> Some (error_response H 502 ''Bad Gateway: no upstreams available'')
      | Panicked \<Rightarrow> None)"

definition connect_failed :: "'m attempt \<Rightarrow> bool" where
  "connect_failed a = (at_result a = Failed (ClientFailure ConnectFailed))"

lemma is_retryable_iff: "is_retryable e \<longleftrightarrow> e = ClientFailure ConnectFailed"
  by (cases e) (simp_all add: is_retryable_def)

lemma policy_length: "policy cr n log ending \<Longrightarrow> length log \<le> n"
  by (induction rule: policy.induct) auto

lemma policy_retry: "policy cr n log ending \<Longrightarrow> 1 < length log \<Longrightarrow> cr"
  by (induction rule: policy.induct) auto

lemma policy_butlast: "policy cr n log ending \<Longrightarrow> a \<in> set (butlast log) \<Longrightarrow> connect_failed a"
  by (induction rule: policy.induct)
    (auto simp: connect_failed_def is_retryable_iff split: if_splits)

lemma policy_last:
  "policy cr n log ending \<Longrightarrow> log \<noteq> [] \<Longrightarrow>
     (case at_result (last log) of
        Answered r \<Rightarrow> ending = Replied r
      | TimedOut \<Rightarrow> ending = TimeLimit
      | Failed e \<Rightarrow> ending \<in> {GaveUp, NoUpstream, Panicked})"
proof (induction rule: policy.induct)
  case (retried a e n log ending)
  then show ?case by (cases "log = []") (auto elim: policy_NilE)
qed auto

lemma policy_Nil: "policy cr n [] ending \<Longrightarrow> 0 < n \<Longrightarrow> ending \<in> {NoUpstream, Panicked}"
  by (auto elim: policy_NilE)

section \<open>The loop follows the policy\<close>

lemma attempt_once_cases:
  assumes "attempt_once env plan parts conn cr s = (st, s')"
  obtains (none) w where "st = Finish (Some (error_response (env_http env) 502 ''Bad Gateway: no upstreams available''))"
      "s' = s\<lparr>ls_world := w\<rparr>"
      "select_upstream (env_interfere env (ls_attempt s) (ls_world s)) (pl_name plan) (ls_tried s) = (None, w)"
  | (panic) addr w where "st = Finish None" "s' = s\<lparr>ls_world := w\<rparr>"
      "select_upstream (env_interfere env (ls_attempt s) (ls_world s)) (pl_name plan) (ls_tried s) = (Some addr, w)"
      "take_body cr (ls_body s) = None \<or>
        (\<exists>body rest. take_body cr (ls_body s) = Some (body, rest)
          \<and> attempt_request (env_http env) plan parts conn body = None)"
  | (sent) addr w body rest req d result where
      "select_upstream (env_interfere env (ls_attempt s) (ls_world s)) (pl_name plan) (ls_tried s) = (Some addr, w)"
      "take_body cr (ls_body s) = Some (body, rest)"
      "attempt_request (env_http env) plan parts conn body = Some req"
      "proxy_request (env_http env) (env_client env (ls_attempt s)) req addr (cn_addr conn) (cn_proto conn) = (d, result)"
      "settle_attempt (env_http env) plan cr addr req d result (s\<lparr>ls_world := w, ls_body := rest\<rparr>) = (st, s')"
proof (cases "select_upstream (env_interfere env (ls_attempt s) (ls_world s)) (pl_name plan) (ls_tried s)")
  case (Pair picked w)
  show thesis
  proof (cases picked)
    case None
    then show thesis using assms Pair by (intro none) (auto simp: attempt_once_def Let_def)
  next
    case (Some addr)
    show thesis
    proof (cases "take_body cr (ls_body s)")
      case None
      then show thesis using assms Pair Some
        by (intro panic [of w addr]) (auto simp: attempt_once_def Let_def)
    next
      case (Some br)
      obtain body rest where br: "br = (body, rest)" by (cases br)
      show thesis
      proof (cases "attempt_request (env_http env) plan parts conn body")
        case None
        then show thesis using assms Pair Some \<open>picked = Some addr\<close> br
          by (intro panic [of w addr]) (auto simp: attempt_once_def Let_def)
      next
        case (Some req)
        obtain d result where "proxy_request (env_http env) (env_client env (ls_attempt s)) req addr
            (cn_addr conn) (cn_proto conn) = (d, result)" by fastforce
        then show thesis
          using assms Pair Some \<open>picked = Some addr\<close> \<open>take_body cr (ls_body s) = Some br\<close> br
          by (intro sent [of addr w body rest req d result]) (auto simp: attempt_once_def Let_def)
      qed
    qed
  qed
qed

lemma settle_cases:
  assumes "settle_attempt H plan cr addr req d result s = (st, s')"
  obtains a where "ls_log s' = ls_log s @ [a]" "at_addr a = addr" "at_request a = req"
    "(\<exists>r. at_result a = Answered r \<and> result = Inr r \<and> st = Finish (Some (final_response H plan r))
        \<and> ls_world s' = observe_duration (ls_elapsed s') (ls_world s))
     \<or> (at_result a = TimedOut \<and> st = Finish (Some (error_response H 504 ''Gateway Timeout''))
        \<and> ls_world s' = inc_errors (ls_world s))
     \<or> (\<exists>e. at_result a = Failed e \<and> result = Inl e \<and> ls_world s' = inc_errors (ls_world s)
        \<and> st = (if cr \<and> is_retryable e then Retry else Finish (Some (error_response H 502 ''Bad Gateway''))))"
    "st = Retry \<Longrightarrow> ls_tried s' = ls_tried s @ [addr]"
    "ls_body s' = ls_body s" "ls_attempt s' = Suc (ls_attempt s)"
    "ls_elapsed s' \<le> ls_elapsed s + pl_timeout plan"
  by (rule that [of "\<lparr>at_addr = addr, at_request = req, at_result =
      (if pl_timeout plan < d then TimedOut else case result of Inr r \<Rightarrow> Answered r | Inl e \<Rightarrow> Failed e)\<rparr>"];
      use assms in \<open>auto simp: settle_attempt_def Let_def split: sum.splits if_splits\<close>)

lemma ending_reply_simps [simp]:
  "ending_reply H plan (Replied r) = Some (final_response H plan r)"
  "ending_reply H plan TimeLimit = Some (error_response H 504 ''Gateway Timeout'')"
  "ending_reply H plan GaveUp = Some (error_response H 502 ''Bad Gateway'')"
  "ending_reply H plan NoUpstream = Some (error_response H 502 ''Bad Gateway: no upstreams available'')"
  "ending_reply H plan Panicked = None"
  by (simp_all add: ending_reply_def)

lemma settled_policy:
  assumes "(\<exists>r. at_result a = Answered r \<and> Finish reply = Finish (Some (final_response H plan r)))
     \<or> (at_result a = TimedOut \<and> Finish reply = Finish (Some (error_response H 504 ''Gateway Timeout'')))
     \<or> (\<exists>e. at_result a = Failed e
        \<and> Finish reply = (if cr \<and> is_retryable e then Retry else Finish (Some (error_response H 502 ''Bad Gateway''))))"
  shows "\<exists>ending. policy cr (Suc n) [a] ending \<and> reply = ending_reply H plan ending"
  using assms
proof (elim disjE exE conjE)
  fix r
  assume "at_result a = Answered r" "Finish reply = Finish (Some (final_response H plan r))"
  then show ?thesis by (intro exI [of _ "Replied r"]) (simp add: policy.replied)
next
  assume "at_result a = TimedOut" "Finish reply = Finish (Some (error_response H 504 ''Gateway Timeout''))"
  then show ?thesis by (intro exI [of _ TimeLimit]) (simp add: policy.time_limit)
next
  fix e
  assume "at_result a = Failed e" "Finish reply = (if cr \<and> is_retryable e then Retry
      else Finish (Some (error_response H 502 ''Bad Gateway'')))"
  then show ?thesis by (intro exI [of _ GaveUp]) (auto simp: policy.gave_up split: if_splits)
qed

lemma attempts_policy:
  "attempts env plan parts conn cr n s = (reply, s') \<Longrightarrow>
     \<exists>new ending. policy cr n new ending \<and> ls_log s' = ls_log s @ new
       \<and> reply = ending_reply (env_http env) plan ending"
proof (induction n arbitrary: s)
  case 0
  then show ?case by (intro exI [of _ "[]"] exI [of _ GaveUp]) (auto intro: policy.intros)
next
  case (Suc n)
  obtain st s1 where one: "attempt_once env plan parts conn cr s = (st, s1)" by fastforce
  from one show ?case
  proof (cases rule: attempt_once_cases)
    case (none w)
    with one Suc.prems show ?thesis
      by (intro exI [of _ "[]"] exI [of _ NoUpstream]) (auto intro: policy.intros)
  next
    case (panic addr w)
    with one Suc.prems show ?thesis
      by (intro exI [of _ "[]"] exI [of _ Panicked]) (auto intro: policy.intros)
  next
    case (sent addr w body rest req d result)
    from sent(5) obtain a where log: "ls_log s1 = ls_log s @ [a]" and res:
      "(\<exists>r. at_result a = Answered r \<and> st = Finish (Some (final_response (env_http env) plan r)))
     \<or> (at_result a = TimedOut \<and> st = Finish (Some (error_response (env_http env) 504 ''Gateway Timeout'')))
     \<or> (\<exists>e. at_result a = Failed e
        \<and> st = (if cr \<and> is_retryable e then Retry else Finish (Some (error_response (env_http env) 502 ''Bad Gateway''))))"
      by (rule settle_cases) auto
    show ?thesis
    proof (cases st)
      case (Finish r)
      with one Suc.prems have rs: "reply = r" "s' = s1" by auto
      from res Finish have "\<exists>ending. policy cr (Suc n) [a] ending \<and> r = ending_reply (env_http env) plan ending"
        by (intro settled_policy) auto
      with log rs show ?thesis by blast
    next
      case Retry
      with one Suc.prems have "attempts env plan parts conn cr n s1 = (reply, s')" by simp
      from Suc.IH [OF this] obtain new ending where "policy cr n new ending"
        "ls_log s' = ls_log s1 @ new" "reply = ending_reply (env_http env) plan ending" by blast
      with res Retry log show ?thesis
        by (intro exI [of _ "a # new"] exI [of _ ending]) (auto split: if_splits intro: policy.retried)
    qed
  qed
qed

section \<open>Invariants of the loop\<close>

lemma attempts_invariant:
  assumes step: "\<And>s s' st. I s \<Longrightarrow> attempt_once env plan parts conn cr s = (st, s') \<Longrightarrow> I s'"
  shows "attempts env plan parts conn cr n s = (reply, s') \<Longrightarrow> I s \<Longrightarrow> I s'"
proof (induction n arbitrary: s)
  case (Suc n)
  obtain st s1 where one: "attempt_once env plan parts conn cr s = (st, s1)" by fastforce
  have "I s1" by (rule step [OF Suc.prems(2) one])
  with one Suc show ?case by (cases st) auto
qed simp

lemma select_upstream_frame:
  assumes "select_upstream w name tried = (picked, w')"
  shows "w_health w' = w_health w" "w_metrics w' = w_metrics w" "w_config w' = w_config w"
    "w_plugins w' = w_plugins w"
  using assms by (auto simp: select_upstream_def split: option.splits prod.splits)

text \<open>Every request sent is built from the client's head by \<open>attempt_request\<close>; the client's
  own body is part of it only when the loop runs once.\<close>

lemma attempts_sent:
  assumes "attempts env plan parts conn cr n s = (reply, s')"
    and "\<forall>a\<in>set (ls_log s). \<exists>body. attempt_request (env_http env) plan parts conn body = Some (at_request a)
      \<and> (cr \<longrightarrow> body = EmptyBody)"
  shows "\<forall>a\<in>set (ls_log s'). \<exists>body. attempt_request (env_http env) plan parts conn body = Some (at_request a)
      \<and> (cr \<longrightarrow> body = EmptyBody)"
  using assms
proof (rule attempts_invariant [rotated])
  fix s s' st
  assume I: "\<forall>a\<in>set (ls_log s). \<exists>body. attempt_request (env_http env) plan parts conn body = Some (at_request a)
      \<and> (cr \<longrightarrow> body = EmptyBody)"
    and one: "attempt_once env plan parts conn cr s = (st, s')"
  from one show "\<forall>a\<in>set (ls_log s'). \<exists>body. attempt_request (env_http env) plan parts conn body = Some (at_request a)
      \<and> (cr \<longrightarrow> body = EmptyBody)"
  proof (cases rule: attempt_once_cases)
    case (sent addr w body rest req d result)
    from sent(5) obtain a where "ls_log s' = ls_log s @ [a]" "at_request a = req"
      by (rule settle_cases) simp
    moreover have "cr \<longrightarrow> body = EmptyBody" using sent(2) by (auto simp: take_body_def)
    ultimately show ?thesis using I sent(3) by auto
  qed (use I in auto)
qed

lemma attempts_elapsed:
  assumes "attempts env plan parts conn cr n s = (reply, s')"
    and "ls_elapsed s \<le> length (ls_log s) * pl_timeout plan"
  shows "ls_elapsed s' \<le> length (ls_log s') * pl_timeout plan"
  using assms
proof (rule attempts_invariant [rotated])
  fix s s' :: "('a, 'b) loop_state" and st
  assume I: "ls_elapsed s \<le> length (ls_log s) * pl_timeout plan"
    and one: "attempt_once env plan parts conn cr s = (st, s')"
  from one show "ls_elapsed s' \<le> length (ls_log s') * pl_timeout plan"
  proof (cases rule: attempt_once_cases)
    case (sent addr w body rest req d result)
    from sent(5) obtain a where "ls_log s' = ls_log s @ [a]"
      "ls_elapsed s' \<le> ls_elapsed s + pl_timeout plan" by (rule settle_cases) simp
    with I show ?thesis by simp
  qed (use I in auto)
qed

text \<open>The counters: one error per attempt that was not answered, one observation per answer.\<close>

definition answered :: "'m attempt \<Rightarrow> bool" where
  "answered a = (case at_result a of Answered _ \<Rightarrow> True | _ \<Rightarrow> False)"

definition counts :: "metrics \<Rightarrow> 'm attempt list \<Rightarrow> metrics \<Rightarrow> bool" where
  "counts m0 log m \<longleftrightarrow> mt_requests m = mt_requests m0
     \<and> mt_errors m = mt_errors m0 + length (filter (\<lambda>a. \<not> answered a) log)
     \<and> length (mt_durations m) = length (mt_durations m0) + length (filter answered log)"

lemma attempts_counts:
  assumes "\<forall>k w. w_metrics (env_interfere env k w) = w_metrics w"
    and "attempts env plan parts conn cr n s = (reply, s')"
    and "counts m0 (ls_log s) (w_metrics (ls_world s))"
  shows "counts m0 (ls_log s') (w_metrics (ls_world s'))"
  using assms(2,3)
proof (rule attempts_invariant [rotated])
  fix s s' :: "('b, 'a) loop_state" and st
  assume I: "counts m0 (ls_log s) (w_metrics (ls_world s))"
    and one: "attempt_once env plan parts conn cr s = (st, s')"
  from one show "counts m0 (ls_log s') (w_metrics (ls_world s'))"
  proof (cases rule: attempt_once_cases)
    case (sent addr w body rest req d result)
    have w: "w_metrics w = w_metrics (ls_world s)"
      using select_upstream_frame(2) [OF sent(1)] assms(1) by simp
    from sent(5) obtain a where log: "ls_log s' = ls_log s @ [a]" and "(answered a \<and>
        ls_world s' = observe_duration (ls_elapsed s') w) \<or> (\<not> answered a \<and> ls_world s' = inc_errors w)"
      by (rule settle_cases) (auto simp: answered_def)
    with I w show ?thesis
      by (auto simp: counts_def observe_duration_def inc_errors_def)
  next
    case (none w)
    with select_upstream_frame(2) [OF none(3)] assms(1) I show ?thesis by simp
  next
    case (panic addr w)
    with select_upstream_frame(2) [OF panic(3)] assms(1) I show ?thesis by simp
  qed
qed

section \<open>When the task cannot panic and an upstream is always found\<close>

text \<open>What \<open>expect("hex-encoded fingerprint is always a valid header value")\<close> relies on.\<close>

definition fingerprint_ok :: "'m http_api \<Rightarrow> connection \<Rightarrow> bool" where
  "fingerprint_ok H conn = (case cn_fingerprint conn of None \<Rightarrow> True | Some fp \<Rightarrow> header_value H fp \<noteq> None)"

lemma attempt_request_None:
  "attempt_request H plan parts conn body = None \<Longrightarrow> \<not> fingerprint_ok H conn"
  by (auto simp: fingerprint_ok_def attempt_request_def Let_def split: option.splits)

definition has_upstream :: "'md world \<Rightarrow> string \<Rightarrow> bool" where
  "has_upstream w name = (case w_lbs w name of None \<Rightarrow> False | Some lb \<Rightarrow> lb_upstreams lb \<noteq> [])"

lemma select_upstream_Some:
  assumes "has_upstream w name" "select_upstream w name tried = (picked, w')"
  shows "picked \<noteq> None" "has_upstream w' name"
proof -
  obtain lb where lb: "w_lbs w name = Some lb" "lb_upstreams lb \<noteq> []"
    using assms(1) by (auto simp: has_upstream_def split: option.splits)
  then have "lb_addrs lb \<noteq> {}" by (simp add: lb_addrs_def)
  then obtain a lb' where p: "lb_pick lb (is_healthy (w_health w)) tried = (Some a, lb')"
    "lb_addrs lb' = lb_addrs lb" by (rule lb.pick_cases)
  with lb assms(2) show "picked \<noteq> None" by (auto simp: select_upstream_def)
  from p lb assms(2) show "has_upstream w' name"
    by (auto simp: select_upstream_def has_upstream_def lb_addrs_def)
qed

lemma attempts_no_panic:
  assumes "fingerprint_ok (env_http env) conn"
  shows "n = 0 \<or> cr \<or> (n = 1 \<and> ls_body s \<noteq> None) \<Longrightarrow>
    attempts env plan parts conn cr n s = (reply, s') \<Longrightarrow> reply \<noteq> None"
proof (induction n arbitrary: s)
  case (Suc n)
  obtain st s1 where one: "attempt_once env plan parts conn cr s = (st, s1)" by fastforce
  from one show ?case
  proof (cases rule: attempt_once_cases)
    case (panic addr w)
    with Suc.prems(1) assms show ?thesis
      by (auto simp: take_body_def dest: attempt_request_None split: if_splits option.splits)
  next
    case (sent addr w body rest req d result)
    from sent(5) have "st = Retry \<and> cr \<or> (\<exists>r. st = Finish (Some r))"
      by (rule settle_cases) (auto split: if_splits)
    with one Suc show ?thesis by auto
  qed (use one Suc.prems in auto)
qed auto

lemma attempts_first:
  assumes "fingerprint_ok (env_http env) conn" "ls_body s \<noteq> None"
    and "has_upstream (env_interfere env (ls_attempt s) (ls_world s)) (pl_name plan)"
    and "attempts env plan parts conn cr (Suc n) s = (reply, s')"
  shows "ls_log s' \<noteq> []"
proof -
  obtain st s1 where one: "attempt_once env plan parts conn cr s = (st, s1)" by fastforce
  from one have "ls_log s1 \<noteq> []"
  proof (cases rule: attempt_once_cases)
    case (none w)
    with select_upstream_Some(1) [OF assms(3) none(3)] show ?thesis by simp
  next
    case (panic addr w)
    with assms(1,2) show ?thesis
      by (auto simp: take_body_def dest: attempt_request_None split: if_splits option.splits)
  next
    case (sent addr w body rest req d result)
    from sent(5) show ?thesis by (rule settle_cases) simp
  qed
  moreover have "ls_log s' = ls_log s1 \<or> (\<exists>new. ls_log s' = ls_log s1 @ new)"
    using one assms(4) by (cases st) (auto dest: attempts_policy)
  ultimately show ?thesis by auto
qed

section \<open>Which upstreams the attempts go to\<close>

text \<open>Interference of other tasks that leaves the route's balancer and the health registry
  alone.\<close>

definition quiet :: "('m, 'md, 'st) env \<Rightarrow> string \<Rightarrow> bool" where
  "quiet env name \<longleftrightarrow> (\<forall>k w. w_lbs (env_interfere env k w) name = w_lbs w name
     \<and> w_health (env_interfere env k w) = w_health w)"

lemma select_upstream_pick:
  assumes "w_lbs w name = Some lb" "select_upstream w name tried = (picked, w')"
  shows "lb_pick lb (is_healthy (w_health w)) tried = (picked, the (w_lbs w' name))"
    "w_lbs w' name \<noteq> None"
  using assms by (auto simp: select_upstream_def split: prod.splits)

lemma attempts_addresses:
  assumes "quiet env (pl_name plan)"
  shows "w_lbs (ls_world s) (pl_name plan) = Some lb \<Longrightarrow>
    attempts env plan parts conn cr n s = (reply, s') \<Longrightarrow>
    \<exists>new. ls_log s' = ls_log s @ new \<and>
      prefix (map at_addr new) (pick_seq lb_pick n lb (is_healthy (w_health (ls_world s))) (ls_tried s))"
proof (induction n arbitrary: s lb)
  case (Suc n)
  let ?w0 = "env_interfere env (ls_attempt s) (ls_world s)"
  have q: "w_lbs ?w0 (pl_name plan) = Some lb" "w_health ?w0 = w_health (ls_world s)"
    using assms Suc.prems(1) by (simp_all add: quiet_def)
  obtain st s1 where one: "attempt_once env plan parts conn cr s = (st, s1)" by fastforce
  from one show ?case
  proof (cases rule: attempt_once_cases)
    case (sent addr w body rest req d result)
    obtain lb' where lb': "w_lbs w (pl_name plan) = Some lb'"
      "lb_pick lb (is_healthy (w_health (ls_world s))) (ls_tried s) = (Some addr, lb')"
      using select_upstream_pick [OF q(1) sent(1)] q(2) by auto
    from sent(5) obtain a where a: "ls_log s1 = ls_log s @ [a]" "at_addr a = addr"
      "st = Retry \<Longrightarrow> ls_tried s1 = ls_tried s @ [addr]"
      "w_lbs (ls_world s1) = w_lbs w" "w_health (ls_world s1) = w_health w"
      by (rule settle_cases) (auto simp: observe_duration_def inc_errors_def)
    show ?thesis
    proof (cases st)
      case Finish
      with one Suc.prems(2) a lb'(2) show ?thesis by (intro exI [of _ "[a]"]) simp
    next
      case Retry
      with one Suc.prems(2) have "attempts env plan parts conn cr n s1 = (reply, s')" by simp
      from Suc.IH [OF _ this, of lb'] lb'(1) a(4) obtain new where "ls_log s' = ls_log s1 @ new"
        "prefix (map at_addr new) (pick_seq lb_pick n lb' (is_healthy (w_health (ls_world s1))) (ls_tried s1))"
        by auto
      moreover have "w_health (ls_world s1) = w_health (ls_world s)"
        using a(5) select_upstream_frame(1) [OF sent(1)] q(2) by simp
      ultimately show ?thesis using a(1,2) a(3) [OF Retry] lb'(2)
        by (intro exI [of _ "a # new"]) simp
    qed
  qed (use one Suc.prems(2) in \<open>auto intro: exI [of _ "[]"]\<close>)
qed (auto intro: exI [of _ "[]"])

section \<open>The handler, case by case\<close>

lemma handle_cases:
  obtains (unrouted) "plan_route (env_http env) (env_features env) w parts = None"
      "handle env parts body conn w =
         answer_now (error_response (env_http env) 404 ''Not Found: no route matched'') (inc_requests w)"
  | (denied) plan resp where "plan_route (env_http env) (env_features env) w parts = Some plan"
      "plugin_gate (env_http env) (env_wasm env) plan parts = Some resp"
      "handle env parts body conn w = answer_now resp (inc_requests w)"
  | (forwarded) plan where "plan_route (env_http env) (env_features env) w parts = Some plan"
      "plugin_gate (env_http env) (env_wasm env) plan parts = None"
      "handle env parts body conn w = forward env plan parts body conn (inc_requests w)"
proof -
  have "plan_route (env_http env) (env_features env) (inc_requests w) parts
      = plan_route (env_http env) (env_features env) w parts"
    by (simp add: plan_route_def inc_requests_def)
  then have h: "handle env parts body conn w =
      (case plan_route (env_http env) (env_features env) w parts of
        None \<Rightarrow> answer_now (error_response (env_http env) 404 ''Not Found: no route matched'') (inc_requests w)
      | Some plan \<Rightarrow>
          (case plugin_gate (env_http env) (env_wasm env) plan parts of
             Some denied \<Rightarrow> answer_now denied (inc_requests w)
           | None \<Rightarrow> forward env plan parts body conn (inc_requests w)))"
    by (simp add: handle_def Let_def)
  show thesis
  proof (cases "plan_route (env_http env) (env_features env) w parts")
    case None
    with h show thesis by (intro unrouted) simp_all
  next
    case (Some plan)
    with h show thesis
      by (cases "plugin_gate (env_http env) (env_wasm env) plan parts") (auto intro: denied forwarded)
  qed
qed

lemma plan_route_SomeD:
  assumes "plan_route H F w parts = Some plan"
  obtains r where "select_route (cfg_route (w_config w)) (request_host H parts) (uri_path H (pt_uri parts)) = Some r"
    "r \<in> set (cfg_route (w_config w))" "plan = plan_of_route F (w_plugins w) r" "1 \<le> pl_attempts plan"
  using assms select_route_mem max_attempts_pos unfolding plan_route_def
  by (auto simp: plan_of_route_def)

lemma effective_attempts_pos: "1 \<le> pl_attempts plan \<Longrightarrow> \<exists>n. effective_attempts plan parts body = Suc n"
  by (cases "effective_attempts plan parts body") (auto simp: effective_attempts_def can_retry_def split: if_splits)

lemma effective_attempts_le: "1 \<le> pl_attempts plan \<Longrightarrow> effective_attempts plan parts body \<le> pl_attempts plan"
  by (simp add: effective_attempts_def)

lemma forward_run:
  obtains reply s where
    "attempts env plan parts conn (can_retry plan parts body) (effective_attempts plan parts body)
       (loop_start body w) = (reply, s)"
    "oc_reply (forward env plan parts body conn w) = reply"
    "oc_attempts (forward env plan parts body conn w) = ls_log s"
    "oc_elapsed (forward env plan parts body conn w) = ls_elapsed s"
    "oc_world (forward env plan parts body conn w) = ls_world s"
    "oc_mirror (forward env plan parts body conn w) =
       mirror_task (env_nanos env) plan parts (body_replayable parts body)"
  by (cases "attempts env plan parts conn (can_retry plan parts body) (effective_attempts plan parts body)
       (loop_start body w)") (simp add: forward_def)

lemma loop_start_simps [simp]:
  "ls_attempt (loop_start b w) = 0" "ls_body (loop_start b w) = Some b" "ls_tried (loop_start b w) = []"
  "ls_elapsed (loop_start b w) = 0" "ls_world (loop_start b w) = w" "ls_log (loop_start b w) = []"
  by (simp_all add: loop_start_def)

lemma answer_now_simps [simp]:
  "oc_reply (answer_now r w) = Some r" "oc_world (answer_now r w) = w" "oc_mirror (answer_now r w) = None"
  "oc_attempts (answer_now r w) = []" "oc_elapsed (answer_now r w) = 0"
  by (simp_all add: answer_now_def)

lemma forward_policy:
  obtains ending where
    "policy (can_retry plan parts body) (effective_attempts plan parts body)
       (oc_attempts (forward env plan parts body conn w)) ending"
    "oc_reply (forward env plan parts body conn w) = ending_reply (env_http env) plan ending"
proof (rule forward_run [of env plan parts conn body w])
  fix reply s
  assume r: "attempts env plan parts conn (can_retry plan parts body) (effective_attempts plan parts body)
       (loop_start body w) = (reply, s)"
    and "oc_reply (forward env plan parts body conn w) = reply"
      "oc_attempts (forward env plan parts body conn w) = ls_log s"
  with attempts_policy [OF r] that show thesis by auto
qed

lemma forward_sent:
  assumes "a \<in> set (oc_attempts (forward env plan parts body conn w))"
  shows "\<exists>b. attempt_request (env_http env) plan parts conn b = Some (at_request a)
    \<and> (can_retry plan parts body \<longrightarrow> b = EmptyBody)"
proof (rule forward_run [of env plan parts conn body w])
  fix reply s
  assume r: "attempts env plan parts conn (can_retry plan parts body) (effective_attempts plan parts body)
       (loop_start body w) = (reply, s)"
    and "oc_attempts (forward env plan parts body conn w) = ls_log s"
  with attempts_sent [OF r] assms show ?thesis by simp
qed

lemma attempt_request_head:
  assumes "attempt_request H plan parts conn b = Some req"
  shows "rq_method req = pt_method parts \<and> rq_uri req = pt_uri parts \<and> rq_version req = HTTP_11
    \<and> rq_body req = b"
  using assms by (auto simp: attempt_request_def Let_def build_request_def split: option.splits)

text \<open>The fingerprint header of an attempt is the connection's, whatever the client sent.\<close>

lemma attempt_request_fingerprint:
  assumes "header_map H" "attempt_request H plan parts conn b = Some req"
  shows "hm_get_all H (rq_headers req) ''x-client-cert-fingerprint'' =
    (case cn_fingerprint conn of None \<Rightarrow> [] | Some fp \<Rightarrow> [fp])"
  using assms(2)
  by (auto simp: attempt_request_def Let_def build_request_def header_map.get_all_insert [OF assms(1)]
      header_map.get_all_remove [OF assms(1)] dest: header_map.value_bytes [OF assms(1)]
      split: option.splits)

text \<open>An answer is the client's response without its hop-by-hop headers.\<close>

definition from_client :: "('m, 'md, 'st) env \<Rightarrow> 'm response \<Rightarrow> bool" where
  "from_client env r \<longleftrightarrow> (\<exists>k req d r0. env_client env k req = (d, Inr r0)
     \<and> r = r0\<lparr>rs_headers := strip_hop_by_hop (env_http env) (rs_headers r0)\<rparr>)"

lemma proxy_request_from_client:
  "proxy_request (env_http env) (env_client env k) req addr a p = (d, Inr r) \<Longrightarrow> from_client env r"
  unfolding from_client_def
  by (auto simp: proxy_request_def split: sum.splits prod.splits)

lemma attempts_answers:
  assumes "attempts env plan parts conn cr n s = (reply, s')"
    and "\<forall>a\<in>set (ls_log s). \<forall>r. at_result a = Answered r \<longrightarrow> from_client env r"
  shows "\<forall>a\<in>set (ls_log s'). \<forall>r. at_result a = Answered r \<longrightarrow> from_client env r"
  using assms
proof (rule attempts_invariant [rotated])
  fix s s' st
  assume I: "\<forall>a\<in>set (ls_log s). \<forall>r. at_result a = Answered r \<longrightarrow> from_client env r"
    and one: "attempt_once env plan parts conn cr s = (st, s')"
  from one show "\<forall>a\<in>set (ls_log s'). \<forall>r. at_result a = Answered r \<longrightarrow> from_client env r"
  proof (cases rule: attempt_once_cases)
    case (sent addr w body rest req d result)
    have "from_client env r" if "result = Inr r" for r
      using sent(4) that proxy_request_from_client by blast
    moreover from sent(5) obtain a where "ls_log s' = ls_log s @ [a]"
      "\<forall>r. at_result a = Answered r \<longrightarrow> result = Inr r" by (rule settle_cases) auto
    ultimately show ?thesis using I by auto
  qed (use I in auto)
qed

lemma forward_answers:
  assumes "a \<in> set (oc_attempts (forward env plan parts body conn w))" "at_result a = Answered r"
  shows "from_client env r"
proof (rule forward_run [of env plan parts conn body w])
  fix reply s
  assume r: "attempts env plan parts conn (can_retry plan parts body) (effective_attempts plan parts body)
       (loop_start body w) = (reply, s)"
    and "oc_attempts (forward env plan parts body conn w) = ls_log s"
  with attempts_answers [OF r] assms show ?thesis by simp
qed

lemma forward_no_panic:
  assumes "fingerprint_ok (env_http env) conn"
  shows "oc_reply (forward env plan parts body conn w) \<noteq> None"
proof (rule forward_run [of env plan parts conn body w])
  fix reply s
  assume r: "attempts env plan parts conn (can_retry plan parts body) (effective_attempts plan parts body)
       (loop_start body w) = (reply, s)"
    and "oc_reply (forward env plan parts body conn w) = reply"
  with attempts_no_panic [OF assms _ r] show ?thesis
    by (auto simp: effective_attempts_def split: if_splits)
qed

lemma forward_mirror:
  "oc_mirror (forward env plan parts body conn w) =
     mirror_task (env_nanos env) plan parts (body_replayable parts body)"
  by (rule forward_run [of env plan parts conn body w])

lemma forward_length:
  "length (oc_attempts (forward env plan parts body conn w)) \<le> effective_attempts plan parts body"
  by (rule forward_policy [of plan parts body env conn w]) (rule policy_length)

lemma forward_elapsed:
  "oc_elapsed (forward env plan parts body conn w)
     \<le> length (oc_attempts (forward env plan parts body conn w)) * pl_timeout plan"
proof (rule forward_run [of env plan parts conn body w])
  fix reply s
  assume r: "attempts env plan parts conn (can_retry plan parts body) (effective_attempts plan parts body)
       (loop_start body w) = (reply, s)"
    and "oc_attempts (forward env plan parts body conn w) = ls_log s"
      "oc_elapsed (forward env plan parts body conn w) = ls_elapsed s"
  with attempts_elapsed [OF r] show ?thesis by simp
qed

lemma forward_counts:
  assumes "\<forall>k w. w_metrics (env_interfere env k w) = w_metrics w"
  shows "counts (w_metrics w) (oc_attempts (forward env plan parts body conn w))
    (w_metrics (oc_world (forward env plan parts body conn w)))"
proof (rule forward_run [of env plan parts conn body w])
  fix reply s
  assume r: "attempts env plan parts conn (can_retry plan parts body) (effective_attempts plan parts body)
       (loop_start body w) = (reply, s)"
    and "oc_attempts (forward env plan parts body conn w) = ls_log s"
      "oc_world (forward env plan parts body conn w) = ls_world s"
  with attempts_counts [OF assms r, of "w_metrics w"] show ?thesis by (simp add: counts_def)
qed

lemma forward_addresses:
  assumes "quiet env (pl_name plan)" "w_lbs w (pl_name plan) = Some lb"
  shows "prefix (map at_addr (oc_attempts (forward env plan parts body conn w)))
    (pick_seq lb_pick (effective_attempts plan parts body) lb (is_healthy (w_health w)) [])"
proof (rule forward_run [of env plan parts conn body w])
  fix reply s
  assume r: "attempts env plan parts conn (can_retry plan parts body) (effective_attempts plan parts body)
       (loop_start body w) = (reply, s)"
    and "oc_attempts (forward env plan parts body conn w) = ls_log s"
  with attempts_addresses [OF assms(1) _ r] assms(2) show ?thesis by auto
qed

lemma policy_replied: "policy cr n log (Replied r) \<Longrightarrow> \<exists>a\<in>set log. at_result a = Answered r"
  by (induction n log "Replied r" rule: policy.induct) auto

lemma plugin_gate_headers:
  "plugin_gate H W plan parts = Some resp \<Longrightarrow> rs_headers resp = hm_new H"
  by (auto simp: plugin_gate_def error_response_def split: option.splits verdict.splits)

lemma error_response_headers [simp]: "rs_headers (error_response H s m) = hm_new H"
  by (simp add: error_response_def)

text \<open>Every attempt goes to an address the balancer picked in the world of that attempt.\<close>

lemma attempts_picked:
  assumes "\<And>k w tried addr w'. select_upstream (env_interfere env k w) (pl_name plan) tried = (Some addr, w') \<Longrightarrow> P addr"
    and "attempts env plan parts conn cr n s = (reply, s')" "\<forall>a\<in>set (ls_log s). P (at_addr a)"
  shows "\<forall>a\<in>set (ls_log s'). P (at_addr a)"
  using assms(2,3)
proof (rule attempts_invariant [rotated])
  fix s s' st
  assume I: "\<forall>a\<in>set (ls_log s). P (at_addr a)"
    and one: "attempt_once env plan parts conn cr s = (st, s')"
  from one show "\<forall>a\<in>set (ls_log s'). P (at_addr a)"
  proof (cases rule: attempt_once_cases)
    case (sent addr w body rest req d result)
    from sent(5) obtain a where "ls_log s' = ls_log s @ [a]" "at_addr a = addr"
      by (rule settle_cases) simp
    with I assms(1) [OF sent(1)] show ?thesis by simp
  qed (use I in auto)
qed

lemma forward_picked:
  assumes "\<And>k w tried addr w'. select_upstream (env_interfere env k w) (pl_name plan) tried = (Some addr, w') \<Longrightarrow> P addr"
    and "a \<in> set (oc_attempts (forward env plan parts body conn w))"
  shows "P (at_addr a)"
proof (rule forward_run [of env plan parts conn body w])
  fix reply s
  assume r: "attempts env plan parts conn (can_retry plan parts body) (effective_attempts plan parts body)
       (loop_start body w) = (reply, s)"
    and "oc_attempts (forward env plan parts body conn w) = ls_log s"
  with attempts_picked [where P = P, OF assms(1) r] assms(2) show ?thesis by simp
qed

lemma select_upstream_addr:
  assumes "select_upstream w name tried = (Some addr, w')"
  obtains lb where "w_lbs w name = Some lb" "addr \<in> lb_addrs lb"
proof (cases "w_lbs w name")
  case (Some lb)
  with select_upstream_pick(1) [OF Some assms] lb.pick_in [of lb "is_healthy (w_health w)" tried addr] that
  show thesis by simp
qed (use assms in \<open>simp add: select_upstream_def\<close>)

end
