(* ===== verification/Handling.thy ===== *)
theory Handling
  imports Engine
begin

text \<open>
  What \<open>ProxyEngine::handle\<close> guarantees: when it retries, what it answers, what upstreams and
  mirrors receive, how long it takes and what it counts.  The proofs apply the loop lemmas of
  the engine theory; a small concrete deployment serves the witnesses.
\<close>

section \<open>A concrete deployment\<close>

definition plain_route :: "string \<Rightarrow> string list \<Rightarrow> route_config" where
  "plain_route name addrs = \<lparr>rc_name = name, rc_host = None, rc_path = None, rc_when = None,
     rc_upstream = map (\<lambda>a. \<lparr>uc_addr = a, uc_weight = None\<rparr>) addrs,
     rc_mirror = None, rc_timeout = \<lparr>tc_connect = None, tc_first_byte = None, tc_total = None\<rparr>,
     rc_headers = \<lparr>hc_request = None, hc_response = None\<rparr>, rc_health_check = None,
     rc_retries = None, rc_plugin = None\<rparr>"

definition plain_config :: "route_config list \<Rightarrow> config" where
  "plain_config rs = \<lparr>cfg_global = \<lparr>gc_workers = None, gc_log_format = None, gc_log_level = None,
       gc_metrics_addr = None\<rparr>,
     cfg_listener = [\<lparr>lc_addr = ''127.0.0.1:8080'', lc_protocol = ''http'', lc_tls_cert = None,
       lc_tls_key = None, lc_tls_client_ca = None, lc_acme = None\<rparr>],
     cfg_route = rs\<rparr>"

definition plain_features :: features where
  "plain_features = \<lparr>feat_acme = False, feat_plugins = True\<rparr>"

definition no_metrics :: metrics where
  "no_metrics = \<lparr>mt_requests = 0, mt_durations = [], mt_errors = 0\<rparr>"

definition plain_env :: "(nat \<Rightarrow> assoc_headers client) \<Rightarrow> (assoc_headers, unit, unit) env" where
  "plain_env client = \<lparr>env_http = std_http, env_features = plain_features, env_wasm = deny_404,
     env_client = client, env_interfere = (\<lambda>_ w. w), env_nanos = 0\<rparr>"

definition plain_world :: "route_config list \<Rightarrow> unit world" where
  "plain_world rs = engine_new deny_404 plain_features (\<lambda>_. None) (plain_config rs) no_metrics"

definition get_parts :: "assoc_headers \<Rightarrow> assoc_headers parts" where
  "get_parts hs = \<lparr>pt_method = ''GET'', pt_uri = ''/a'', pt_version = HTTP_11, pt_headers = hs\<rparr>"

definition no_body :: incoming where
  "no_body = \<lparr>in_bytes = [], in_exact = Some 0\<rparr>"

definition peer :: "string option \<Rightarrow> connection" where
  "peer fp = \<lparr>cn_addr = \<lparr>ip_text = ''10.0.0.1'', port_num = 5000\<rparr>, cn_proto = ''https'', cn_fingerprint = fp\<rparr>"

text \<open>The first attempt cannot connect, the second is answered with 200.\<close>

definition second_answers :: "nat \<Rightarrow> assoc_headers client" where
  "second_answers k req = (if k = 0 then (20000, Inl ConnectFailed)
     else (25000, Inr \<lparr>rs_status = 200, rs_headers = [(''te'', ''x''), (''etag'', ''1'')], rs_body = ''ok''\<rparr>))"

lemmas plain_defs = plain_route_def plain_config_def plain_features_def no_metrics_def plain_env_def
  plain_world_def get_parts_def no_body_def peer_def second_answers_def

lemma catch_all_plan:
  "rc_host r = None \<Longrightarrow> rc_path r = None \<Longrightarrow> w_config w = plain_config (r # rs) \<Longrightarrow>
     plan_route H F w parts = Some (plan_of_route F (w_plugins w) r)"
  by (simp add: plan_route_def select_route_def route_matches_def host_matches_def path_matches_def
      plain_config_def)

lemma plain_plan:
  "plan_route (env_http (plain_env c)) (env_features (plain_env c)) (plain_world [plain_route n addrs]) parts
     = Some (plan_of_route plain_features (w_plugins (plain_world [plain_route n addrs])) (plain_route n addrs))"
  by (subst catch_all_plan [of "plain_route n addrs"])
    (simp_all add: plain_route_def plain_world_def engine_new_def plain_env_def)

lemma handle_no_panic:
  assumes "fingerprint_ok (env_http env) conn"
  shows "oc_reply (handle env parts body conn w) \<noteq> None"
  using forward_no_panic [OF assms] by (cases rule: handle_cases [of env w parts body conn]) simp_all

lemma handle_attempts:
  assumes "fingerprint_ok (env_http env) conn"
    and "plan_route (env_http env) (env_features env) w parts = Some plan"
    and "plugin_gate (env_http env) (env_wasm env) plan parts = None"
    and "has_upstream (env_interfere env 0 (inc_requests w)) (pl_name plan)"
  shows "1 \<le> length (oc_attempts (handle env parts body conn w))"
proof (cases rule: handle_cases [of env w parts body conn])
  case (forwarded p)
  with assms(2) have p: "p = plan" by simp
  from forwarded(1) have "1 \<le> pl_attempts p" by (rule plan_route_SomeD)
  then obtain n where n: "effective_attempts p parts body = Suc n"
    using effective_attempts_pos by blast
  obtain reply s where r: "attempts env p parts conn (can_retry p parts body)
      (effective_attempts p parts body) (loop_start body (inc_requests w)) = (reply, s)"
    and log: "oc_attempts (forward env p parts body conn (inc_requests w)) = ls_log s"
    by (rule forward_run)
  have "ls_log s \<noteq> []"
    by (rule attempts_first [OF assms(1) _ _ r [unfolded n]]) (use assms(4) p in simp_all)
  then show ?thesis using log forwarded(3) by (simp add: Suc_le_eq)
qed (use assms in simp_all)

text \<open>A plugin's denial has the plugin's status.\<close>

lemma evaluate_deny_range: "evaluate W plugin m p = Deny s \<Longrightarrow> 400 \<le> unat s \<and> unat s < 600"
  by (auto simp: evaluate_def try_evaluate_def dest: verdict_of_range split: sum.splits)

lemma plugin_gate_status:
  assumes "header_map H" "plugin_gate H W plan parts = Some resp"
  shows "400 \<le> rs_status resp \<and> rs_status resp < 600"
proof -
  from assms(2) obtain plugin s where s: "evaluate W plugin (pt_method parts) (uri_path H (pt_uri parts)) = Deny s"
    "rs_status resp = (case status_from_u16 H s of Some code \<Rightarrow> code | None \<Rightarrow> 403)"
    by (auto simp: plugin_gate_def error_response_def split: option.splits verdict.splits)
  from evaluate_deny_range [OF s(1)] have "400 \<le> unat s" "unat s < 600" by simp_all
  with s(2) header_map.status_range [OF assms(1), of s] show ?thesis by simp
qed

section \<open>Properties\<close>

text \<open>C5 Retries are safe: the number of attempts is bounded by the route's \<open>retries\<close>, a
  second attempt is made only for a GET, HEAD or OPTIONS request whose body is known to be
  empty, only after attempts that failed to connect, and a client body is streamed to at most
  one upstream.\<close>

theorem retries_are_safe:
  "let log = oc_attempts (handle env parts body conn w) in
     length log \<le> (case plan_route (env_http env) (env_features env) w parts of
        None \<Rightarrow> 0 | Some plan \<Rightarrow> pl_attempts plan)
   \<and> list_all connect_failed (butlast log)
   \<and> (length log \<le> 1
      \<or> pt_method parts \<in> {''GET'', ''HEAD'', ''OPTIONS''} \<and> in_exact body = Some 0
        \<and> list_all (\<lambda>a. rq_body (at_request a) = EmptyBody) log)"
proof (cases rule: handle_cases [of env w parts body conn])
  case (forwarded plan)
  define log where "log = oc_attempts (handle env parts body conn w)"
  from forwarded(1) have pos: "1 \<le> pl_attempts plan" by (rule plan_route_SomeD)
  obtain ending where pol: "policy (can_retry plan parts body) (effective_attempts plan parts body) log ending"
    using forward_policy [of plan parts body env conn "inc_requests w"]
    by (auto simp: log_def forwarded(3))
  have "length log \<le> pl_attempts plan"
    using policy_length [OF pol] effective_attempts_le [OF pos, of parts body] by simp
  moreover have "list_all connect_failed (butlast log)"
    using policy_butlast [OF pol] by (simp add: list_all_iff)
  moreover have "pt_method parts \<in> {''GET'', ''HEAD'', ''OPTIONS''} \<and> in_exact body = Some 0
        \<and> list_all (\<lambda>a. rq_body (at_request a) = EmptyBody) log" if "1 < length log"
  proof -
    have cr: "can_retry plan parts body" using policy_retry [OF pol that] .
    have "rq_body (at_request a) = EmptyBody" if "a \<in> set log" for a
      using forward_sent [OF that [unfolded log_def forwarded(3)]] cr attempt_request_head by fastforce
    with cr show ?thesis
      by (auto simp: can_retry_def body_replayable_def list_all_iff)
  qed
  ultimately show ?thesis
    unfolding Let_def log_def [symmetric] forwarded(1) by (auto simp: not_less)
qed simp_all

text \<open>C6 The reply is determined by the route, the filter and the last attempt: 404 without a
  route, the filter's status when it denies, the answer of the upstream that answered (with
  the route's response overrides), 504 when an attempt ran into the timeout, and 502 in every
  other case.  The task never panics.\<close>

theorem reply_follows_last_attempt:
  assumes "fingerprint_ok (env_http env) conn"
  shows "let out = handle env parts body conn w; H = env_http env in
    case plan_route H (env_features env) w parts of
      None \<Rightarrow> oc_reply out = Some (error_response H 404 ''Not Found: no route matched'')
        \<and> oc_attempts out = [] \<and> oc_mirror out = None
    | Some plan \<Rightarrow>
        (case plugin_gate H (env_wasm env) plan parts of
           Some denied \<Rightarrow> oc_reply out = Some denied \<and> oc_attempts out = [] \<and> oc_mirror out = None
         | None \<Rightarrow>
             if oc_attempts out = []
             then oc_reply out = Some (error_response H 502 ''Bad Gateway: no upstreams available'')
             else (case at_result (last (oc_attempts out)) of
                 Answered r \<Rightarrow> oc_reply out = Some (final_response H plan r)
               | TimedOut \<Rightarrow> oc_reply out = Some (error_response H 504 ''Gateway Timeout'')
               | Failed _ \<Rightarrow> oc_reply out \<in> {Some (error_response H 502 ''Bad Gateway''),
                   Some (error_response H 502 ''Bad Gateway: no upstreams available'')}))"
proof (cases rule: handle_cases [of env w parts body conn])
  case (forwarded plan)
  let ?out = "forward env plan parts body conn (inc_requests w)"
  obtain ending where pol: "policy (can_retry plan parts body) (effective_attempts plan parts body)
      (oc_attempts ?out) ending" and reply: "oc_reply ?out = ending_reply (env_http env) plan ending"
    by (rule forward_policy)
  have "1 \<le> pl_attempts plan" using forwarded(1) by (rule plan_route_SomeD)
  then have pos: "0 < effective_attempts plan parts body"
    using effective_attempts_pos [of plan parts body] by auto
  have "oc_reply ?out \<noteq> None" using assms by (rule forward_no_panic)
  with reply have "ending \<noteq> Panicked" by auto
  show ?thesis
  proof (cases "oc_attempts ?out = []")
    case True
    with pol pos \<open>ending \<noteq> Panicked\<close> have "ending = NoUpstream" by (auto dest: policy_Nil)
    with True reply show ?thesis by (simp add: Let_def forwarded)
  next
    case False
    with policy_last [OF pol] reply \<open>ending \<noteq> Panicked\<close> show ?thesis
      by (auto simp: Let_def forwarded split: attempt_result.splits)
  qed
qed (simp_all)

theorem reply_follows_last_attempt_witness:
  "let out = handle (plain_env second_answers) (get_parts []) no_body (peer (Some ''ab''))
      (plain_world [plain_route ''r'' [''http://a:80'', ''http://b:80'']]) in
   oc_reply out = Some \<lparr>rs_status = 200, rs_headers = [(''etag'', ''1'')], rs_body = ''ok''\<rparr>
   \<and> length (oc_attempts out) = 2"
proof -
  let ?env = "plain_env second_answers" and ?w = "plain_world [plain_route ''r'' [''http://a:80'', ''http://b:80'']]"
  let ?out = "handle ?env (get_parts []) no_body (peer (Some ''ab'')) ?w"
  let ?plan = "plan_of_route plain_features (w_plugins ?w) (plain_route ''r'' [''http://a:80'', ''http://b:80''])"
  have fp: "fingerprint_ok (env_http ?env) (peer (Some ''ab''))" by code_simp
  have "length (oc_attempts ?out) = 2" by code_simp
  moreover have "at_result (last (oc_attempts ?out))
      = Answered \<lparr>rs_status = 200, rs_headers = [(''etag'', ''1'')], rs_body = ''ok''\<rparr>" by code_simp
  moreover have "plan_route (env_http ?env) (env_features ?env) ?w (get_parts []) = Some ?plan" by (rule plain_plan)
  moreover have "plugin_gate (env_http ?env) (env_wasm ?env) ?plan (get_parts []) = None"
    by (simp add: plugin_gate_def plan_of_route_def plain_defs)
  moreover have "pl_response ?plan = None" by (simp add: plan_of_route_def plain_defs)
  ultimately show ?thesis
    using reply_follows_last_attempt [OF fp, of "get_parts []" no_body ?w]
    by (auto simp: Let_def final_response_def split: if_splits)
qed

text \<open>The client-certificate header cannot be forged: the request an upstream receives
  carries the fingerprint of the connection's verified certificate or no
  \<open>X-Client-Cert-Fingerprint\<close> at all, whatever the client or the route's overrides put
  there.  It is missing, even on a verified connection, exactly when a \<open>Connection\<close> header
  of the outgoing request names it.\<close>

lemma fingerprint_cannot_be_forged:
  assumes "header_map (env_http env)" "list_all field_char (ip_text (cn_addr conn))"
    and "a \<in> set (oc_attempts (handle env parts body conn w))"
    and "prepare_request (env_http env) (at_request a) (at_addr a) (cn_addr conn) (cn_proto conn) = Inr sent"
  shows "hm_get_all (env_http env) (rq_headers sent) ''x-client-cert-fingerprint'' =
    (if ''x-client-cert-fingerprint'' \<in> set (connection_names (env_http env) (rq_headers (at_request a))) then []
     else (case cn_fingerprint conn of None \<Rightarrow> [] | Some fp \<Rightarrow> [fp]))"
proof (cases rule: handle_cases [of env w parts body conn])
  case (forwarded plan)
  with assms(3) have a: "a \<in> set (oc_attempts (forward env plan parts body conn (inc_requests w)))" by simp
  from forward_sent [OF a] obtain b where
    "attempt_request (env_http env) plan parts conn b = Some (at_request a)" by blast
  note fp = attempt_request_fingerprint [OF assms(1) this]
  obtain host port where hp: "upstream_host_port (at_addr a) = Inr (host, port)"
    using header_map.prepare_InrD [OF assms(1,4)] by metis
  show ?thesis
    by (simp add: header_map.prepare_get_all [OF assms(1,4) hp assms(2)] fp HOP_BY_HOP_HEADERS_def)
qed (use assms in simp_all)

lemma fingerprint_cannot_be_forged_example:
  "\<exists>a sent. a \<in> set (oc_attempts (handle (plain_env second_answers)
        (get_parts [(''x-client-cert-fingerprint'', ''forged'')]) no_body (peer (Some ''ab''))
        (plain_world [plain_route ''r'' [''http://a:80'']])))
    \<and> prepare_request std_http (at_request a) (at_addr a) (cn_addr (peer (Some ''ab''))) ''https'' = Inr sent
    \<and> hm_get_all std_http (rq_headers sent) ''x-client-cert-fingerprint'' = [''ab'']"
proof -
  let ?env = "plain_env second_answers" and ?conn = "peer (Some ''ab'')"
  let ?log = "oc_attempts (handle ?env (get_parts [(''x-client-cert-fingerprint'', ''forged'')]) no_body ?conn
        (plain_world [plain_route ''r'' [''http://a:80'']]))"
  have ne: "?log \<noteq> []" by code_simp
  have ok: "case prepare_request std_http (at_request (hd ?log)) (at_addr (hd ?log)) (cn_addr ?conn) ''https''
      of Inl _ \<Rightarrow> False | Inr _ \<Rightarrow> True" by code_simp
  then obtain sent where sent: "prepare_request std_http (at_request (hd ?log)) (at_addr (hd ?log))
      (cn_addr ?conn) ''https'' = Inr sent" by (auto split: sum.splits)
  have H: "env_http ?env = std_http" "cn_proto ?conn = ''https''" "cn_fingerprint ?conn = Some ''ab''"
    by (simp_all add: plain_env_def peer_def)
  have names: "connection_names std_http (rq_headers (at_request (hd ?log))) = []" by code_simp
  have ip: "list_all field_char (ip_text (cn_addr ?conn))" by code_simp
  have mem: "hd ?log \<in> set ?log" using ne by (rule list.set_sel(1))
  have "hm_get_all std_http (rq_headers sent) ''x-client-cert-fingerprint'' = [''ab'']"
    using fingerprint_cannot_be_forged [of ?env ?conn, unfolded H, OF header_map_std ip mem sent]
    by (simp add: names)
  with ne sent show ?thesis by (meson list.set_sel(1))
qed

text \<open>A verified client can hide its identity from the upstream: a request whose
  \<open>Connection\<close> header names \<open>x-client-cert-fingerprint\<close> reaches the upstream without the
  fingerprint of the connection's certificate, since it is set before the hop-by-hop headers
  are stripped.\<close>

lemma connection_header_drops_fingerprint:
  "map (\<lambda>a. case prepare_request std_http (at_request a) (at_addr a) (cn_addr (peer (Some ''ab''))) ''https'' of
        Inl _ \<Rightarrow> None | Inr sent \<Rightarrow> Some (hm_get_all std_http (rq_headers sent) ''x-client-cert-fingerprint''))
     (oc_attempts (handle (plain_env (\<lambda>_ _. (1, Inr \<lparr>rs_status = 200, rs_headers = [], rs_body = ''''\<rparr>)))
        (get_parts [(''connection'', ''close, X-Client-Cert-Fingerprint'')]) no_body (peer (Some ''ab''))
        (plain_world [plain_route ''r'' [''http://a:80'']])))
   = [Some []]"
  by code_simp

text \<open>C38 A mirrored request is a copy of the client's head with an empty body: only for a
  request that passed the filter, that is replayable, and whose route names the mirror.  Its
  headers are the client's own: neither the route's overrides nor the removal of a forged
  \<open>X-Client-Cert-Fingerprint\<close> apply to it.\<close>

theorem mirror_copies_client_head:
  assumes "oc_mirror (handle env parts body conn w) = Some (addr, req, t)"
  shows "\<exists>plan m. plan_route (env_http env) (env_features env) w parts = Some plan
    \<and> plugin_gate (env_http env) (env_wasm env) plan parts = None
    \<and> pl_mirror plan = Some m \<and> addr = mc_addr m \<and> t = pl_timeout plan \<and> mc_rate m \<noteq> Some 0
    \<and> body_replayable parts body
    \<and> req = \<lparr>rq_method = pt_method parts, rq_uri = pt_uri parts, rq_version = HTTP_11,
        rq_headers = pt_headers parts, rq_body = EmptyBody\<rparr>"
proof (cases rule: handle_cases [of env w parts body conn])
  case (forwarded plan)
  then have "mirror_task (env_nanos env) plan parts (body_replayable parts body) = Some (addr, req, t)"
    using assms by (simp add: forward_mirror)
  with forwarded(1,2) show ?thesis
    by (auto simp: mirror_task_def build_request_def should_mirror_def split: option.splits if_splits)
qed (use assms in simp_all)

theorem mirror_copies_client_head_witness:
  "\<exists>req. oc_mirror (handle (plain_env second_answers)
      (get_parts [(''x-client-cert-fingerprint'', ''forged'')]) no_body (peer None)
      (plain_world [(plain_route ''r'' [''http://a:80''])\<lparr>rc_mirror := Some \<lparr>mc_addr = ''m:80'', mc_rate = None\<rparr>\<rparr>]))
        = Some (''m:80'', req, 30000)
    \<and> hm_get_all std_http (rq_headers req) ''x-client-cert-fingerprint'' = [''forged'']"
proof -
  let ?parts = "get_parts [(''x-client-cert-fingerprint'', ''forged'')]"
  let ?m = "oc_mirror (handle (plain_env second_answers) ?parts no_body (peer None)
      (plain_world [(plain_route ''r'' [''http://a:80''])\<lparr>rc_mirror := Some \<lparr>mc_addr = ''m:80'', mc_rate = None\<rparr>\<rparr>]))"
  have "case ?m of None \<Rightarrow> False | Some (addr, req, t) \<Rightarrow> addr = ''m:80'' \<and> t = 30000" by code_simp
  then obtain req where m: "?m = Some (''m:80'', req, 30000)" by (auto split: option.splits)
  from mirror_copies_client_head [OF m] have "rq_headers req = pt_headers ?parts" by auto
  moreover have "hm_get_all std_http (pt_headers ?parts) ''x-client-cert-fingerprint'' = [''forged'']"
    by code_simp
  ultimately show ?thesis using m by auto
qed

text \<open>A request is answered in bounded time: after at most the route's timeout for each
  attempt.\<close>

lemma time_is_bounded_per_attempt:
  "let out = handle env parts body conn w in
   case plan_route (env_http env) (env_features env) w parts of
     None \<Rightarrow> oc_elapsed out = 0
   | Some plan \<Rightarrow> oc_elapsed out \<le> length (oc_attempts out) * pl_timeout plan
       \<and> oc_elapsed out \<le> pl_attempts plan * pl_timeout plan"
proof (cases rule: handle_cases [of env w parts body conn])
  case (forwarded plan)
  let ?out = "forward env plan parts body conn (inc_requests w)"
  have "1 \<le> pl_attempts plan" using forwarded(1) by (rule plan_route_SomeD)
  then have "length (oc_attempts ?out) \<le> pl_attempts plan"
    using forward_length [of env plan parts body conn] effective_attempts_le order_trans by blast
  then have "length (oc_attempts ?out) * pl_timeout plan \<le> pl_attempts plan * pl_timeout plan"
    by (rule mult_le_mono1)
  note le_trans [OF forward_elapsed this]
  with forward_elapsed [of env plan parts body conn "inc_requests w"] forwarded
  show ?thesis by (simp add: Let_def)
qed (simp_all add: Let_def)

text \<open>\<open>timeout.total\<close> bounds each attempt, not the request: with the default of 30 s a
  request is answered with 200 after 45 s, when its first upstream takes 20 s to refuse the
  connection and its second 25 s to answer.\<close>

lemma total_timeout_restarts_per_attempt:
  "let out = handle (plain_env second_answers) (get_parts []) no_body (peer None)
      (plain_world [plain_route ''r'' [''http://a:80'', ''http://b:80'']]) in
   map_option pl_timeout (plan_route std_http plain_features
      (plain_world [plain_route ''r'' [''http://a:80'', ''http://b:80'']]) (get_parts [])) = Some 30000
   \<and> map_option rs_status (oc_reply out) = Some 200 \<and> oc_elapsed out = 45000"
  by code_simp

text \<open>The metrics count what happened: one request, one upstream error for each attempt
  that was not answered, and one observed duration exactly when an upstream answered.\<close>

lemma metrics_count_attempts:
  assumes "\<forall>k v. w_metrics (env_interfere env k v) = w_metrics v"
  shows "let out = handle env parts body conn w; m = w_metrics (oc_world out); m0 = w_metrics w in
    mt_requests m = mt_requests m0 + 1
    \<and> mt_errors m = mt_errors m0 + length (filter (\<lambda>a. \<not> answered a) (oc_attempts out))
    \<and> length (mt_durations m) = length (mt_durations m0) + length (filter answered (oc_attempts out))"
proof (cases rule: handle_cases [of env w parts body conn])
  case (forwarded plan)
  from forward_counts [OF assms, where plan = plan and parts = parts and body = body and conn = conn
      and w = "inc_requests w"] forwarded(3)
  show ?thesis by (simp add: counts_def inc_requests_def Let_def)
qed (simp_all add: Let_def inc_requests_def)

lemma metrics_count_attempts_example:
  "let out = handle (plain_env second_answers) (get_parts []) no_body (peer None)
      (plain_world [plain_route ''r'' [''http://a:80'', ''http://b:80'']]) in
   mt_requests (w_metrics (oc_world out)) = 1 \<and> mt_errors (w_metrics (oc_world out)) = 1
   \<and> length (mt_durations (w_metrics (oc_world out))) = 1"
proof -
  let ?env = "plain_env second_answers" and ?w = "plain_world [plain_route ''r'' [''http://a:80'', ''http://b:80'']]"
  have "\<forall>k v. w_metrics (env_interfere ?env k v) = w_metrics v" by (simp add: plain_env_def)
  note m = metrics_count_attempts [OF this, of "get_parts []" no_body "peer None" ?w]
  have l: "length (filter (\<lambda>a. \<not> answered a) (oc_attempts (handle ?env (get_parts []) no_body (peer None) ?w))) = 1"
    "length (filter answered (oc_attempts (handle ?env (get_parts []) no_body (peer None) ?w))) = 1"
    by code_simp+
  have "w_metrics ?w = no_metrics" by (simp add: plain_world_def engine_new_def)
  then show ?thesis using m unfolding Let_def l by (simp add: no_metrics_def)
qed



text \<open>C24 No hop-by-hop header of an upstream reaches the client: the reply has none of them,
  unless the route's response overrides set it.\<close>

theorem reply_has_no_hop_by_hop_headers:
  assumes "header_map (env_http env)" "k \<in> set HOP_BY_HOP_HEADERS"
    and "plan_route (env_http env) (env_features env) w parts = Some plan"
    and "\<forall>nv\<in>set (case pl_response plan of None \<Rightarrow> [] | Some ov \<Rightarrow> ov). header_name (env_http env) (fst nv) \<noteq> Some k"
    and "oc_reply (handle env parts body conn w) = Some resp"
  shows "hm_get_all (env_http env) (rs_headers resp) k = []"
proof (cases rule: handle_cases [of env w parts body conn])
  case (forwarded p)
  with assms(3) have p: "p = plan" by simp
  let ?out = "forward env plan parts body conn (inc_requests w)"
  obtain ending where pol: "policy (can_retry plan parts body) (effective_attempts plan parts body)
      (oc_attempts ?out) ending" and reply: "oc_reply ?out = ending_reply (env_http env) plan ending"
    by (rule forward_policy)
  have resp: "ending_reply (env_http env) plan ending = Some resp"
    using reply assms(5) forwarded(3) p by simp
  show ?thesis
  proof (cases ending)
    case (Replied r)
    with policy_replied pol obtain a where a: "a \<in> set (oc_attempts ?out)" "at_result a = Answered r"
      by blast
    from forward_answers [OF a] obtain m where m: "rs_headers r = strip_hop_by_hop (env_http env) m"
      by (auto simp: from_client_def)
    have "hm_get_all (env_http env) (rs_headers r) k = []"
      unfolding m using assms(2) by (simp add: header_map.strip_get_all [OF assms(1)])
    moreover have "resp = final_response (env_http env) plan r" using resp Replied by simp
    ultimately show ?thesis using assms(4) header_map.overrides_get_all_None [OF assms(1)]
      by (cases "pl_response plan") (simp_all add: final_response_def)
  qed (use resp header_map.get_all_new [OF assms(1)] in auto)
next
  case (denied p resp')
  with assms(5) plugin_gate_headers [OF denied(2)] header_map.get_all_new [OF assms(1)]
  show ?thesis by simp
qed (use assms in simp)

theorem reply_has_no_hop_by_hop_headers_witness:
  "\<exists>resp. oc_reply (handle (plain_env second_answers) (get_parts []) no_body (peer None)
      (plain_world [plain_route ''r'' [''http://a:80'', ''http://b:80'']])) = Some resp
    \<and> hm_get_all std_http (rs_headers resp) ''te'' = []"
proof -
  let ?r = "plain_route ''r'' [''http://a:80'', ''http://b:80'']"
  let ?w = "plain_world [?r]" and ?env = "plain_env second_answers"
  let ?plan = "plan_of_route plain_features (w_plugins ?w) ?r"
  have H: "env_http ?env = std_http" by (simp add: plain_env_def)
  have plan: "plan_route (env_http ?env) (env_features ?env) ?w (get_parts []) = Some ?plan" by (rule plain_plan)
  have "oc_reply (handle ?env (get_parts []) no_body (peer None) ?w) \<noteq> None" by code_simp
  then obtain resp where resp: "oc_reply (handle ?env (get_parts []) no_body (peer None) ?w) = Some resp"
    by blast
  have none: "pl_response ?plan = None" by (simp add: plan_of_route_def plain_route_def)
  have "hm_get_all (env_http ?env) (rs_headers resp) ''te'' = []"
    by (rule reply_has_no_hop_by_hop_headers [OF _ _ plan _ resp])
      (simp_all add: H header_map_std HOP_BY_HOP_HEADERS_def none)
  then show ?thesis using resp by (auto simp: H)
qed



text \<open>A plugin that does not load at start-up leaves its routes unfiltered: the engine is
  then created with an empty plugin cache, and every request passes the filter of every
  route, although the plugin would have denied it.\<close>

lemma startup_plugin_failure_disables_filters:
  assumes "build_plugin_cache W read c = Inl e"
    and "plan_route H F (engine_new W F read c m) parts = Some plan"
  shows "plugin_gate H W' plan parts = None"
proof -
  have "w_plugins (engine_new W F read c m) = Map.empty" using assms(1) by (simp add: engine_new_def)
  with assms(2) have "pl_plugin plan = None"
    by (auto elim!: plan_route_SomeD simp: plan_of_route_def split: option.splits)
  then show ?thesis by (simp add: plugin_gate_def)
qed

lemma startup_plugin_failure_disables_filters_example:
  "let r = (plain_route ''r'' [''http://a:80''])\<lparr>rc_plugin := Some ''f.wasm''\<rparr>; c = plain_config [r];
       w = engine_new deny_404 plain_features (\<lambda>_. None) c no_metrics;
       plan = plan_of_route plain_features (w_plugins w) r in
     accepts std_http plain_features c
     \<and> plugin_gate std_http deny_404 plan (get_parts []) = None
     \<and> evaluate deny_404 () ''GET'' ''/a'' = Deny 404"
proof -
  let ?r = "(plain_route ''r'' [''http://a:80''])\<lparr>rc_plugin := Some ''f.wasm''\<rparr>"
  let ?c = "plain_config [?r]"
  let ?w = "engine_new deny_404 plain_features (\<lambda>_. None) ?c no_metrics"
  let ?plan = "plan_of_route plain_features (w_plugins ?w) ?r"
  have "build_plugin_cache deny_404 (\<lambda>_. None) ?c = Inl (ReadPlugin ''f.wasm'')"
    by (simp add: build_plugin_cache_def plain_config_def plain_route_def plugin_load_def deny_404_def
        and_then_def ok_or_def require_def)
  moreover have "plan_route std_http plain_features ?w (get_parts []) = Some ?plan"
    by (rule catch_all_plan [of _ _ "[]"]) (simp_all add: plain_route_def engine_new_def)
  ultimately have "plugin_gate std_http deny_404 ?plan (get_parts []) = None"
    by (rule startup_plugin_failure_disables_filters)
  moreover have "accepts std_http plain_features ?c" by code_simp
  moreover have "evaluate deny_404 () ''GET'' ''/a'' = Deny 404" by code_simp
  ultimately show ?thesis by (simp add: Let_def)
qed

end
