(* ===== verification/Validation.thy ===== *)
theory Validation
  imports Handling
begin

text \<open>
  What \<open>Config::validate\<close> buys the rest of the program: it decides the validity of a
  configuration, reports exactly the ignored fields, and an accepted configuration gives every
  route a usable, bounded load balancer and every address a host and port.
\<close>

section \<open>Warnings\<close>

definition route_warnings :: "route_config \<Rightarrow> config_warning list" where
  "route_warnings r =
     (if rc_when r \<noteq> None then [WhenIgnored (rc_name r)] else []) @
     (if tc_connect (rc_timeout r) \<noteq> None \<or> tc_first_byte (rc_timeout r) \<noteq> None
      then [TimeoutFieldsIgnored (rc_name r)] else [])"

abbreviation warnings :: "vcheck list \<Rightarrow> config_warning list" where
  "warnings cs \<equiv> concat (map fst cs)"

lemma run_checks_warnings: "snd (run_checks cs) = None \<Longrightarrow> fst (run_checks cs) = concat (map fst cs)"
  by (induction cs rule: run_checks.induct) (auto split: prod.splits)

lemma warnings_basic [simp]:
  "fst (reject_if b e) = []" "fst (reject_err r ctx) = []" "fst (warn_if b w) = (if b then [w] else [])"
  by (simp_all add: reject_if_def reject_err_def warn_if_def)

lemma warnings_on_some: "(\<And>a. warnings (f a) = []) \<Longrightarrow> warnings (on_some x f) = []"
  by (cases x) (simp_all add: on_some_def)

lemma warnings_concat: "(\<And>a. warnings (f a) = []) \<Longrightarrow> warnings (concat (map f xs)) = []"
  by (induction xs) simp_all

lemma warnings_listener: "warnings (validate_listener H F l) = []"
  by (auto simp: validate_listener_def validate_acme_def on_some_def reject_if_def split: option.splits)

lemma warnings_route: "warnings (validate_route H F r) = route_warnings r"
proof -
  have "warnings (validate_upstream n u) = []" for n u
    by (simp add: validate_upstream_def warnings_on_some)
  moreover have "warnings (validate_health n hc) = []" for n hc by (simp add: validate_health_def)
  moreover have "warnings (validate_mirror n m) = []" for n m
    by (simp add: validate_mirror_def warnings_on_some)
  moreover have "warnings (validate_override H n nv) = []" for n nv
    by (cases nv) (simp add: validate_override_def)
  ultimately show ?thesis
    by (simp add: validate_route_def route_warnings_def warnings_on_some warnings_concat)
qed

lemma warnings_concat_map: "warnings (concat (map f xs)) = concat (map (\<lambda>x. warnings (f x)) xs)"
  by (induction xs) simp_all

lemma validate_warnings:
  assumes "snd (validate H F c) = None"
  shows "fst (validate H F c) = concat (map route_warnings (cfg_route c))"
proof -
  have "fst (validate H F c) = warnings ([reject_if (cfg_listener c = []) NoListener, reject_if (cfg_route c = []) NoRoute] @
      concat (map (validate_listener H F) (cfg_listener c)) @ concat (map (validate_route H F) (cfg_route c)))"
    using assms unfolding validate_def by (rule run_checks_warnings)
  also have "\<dots> = concat (map (\<lambda>l. warnings (validate_listener H F l)) (cfg_listener c))
      @ concat (map (\<lambda>r. warnings (validate_route H F r)) (cfg_route c))"
    by (simp only: map_append concat_append list.map concat.simps warnings_basic append_Nil warnings_concat_map)
  also have "concat (map (\<lambda>l. warnings (validate_listener H F l)) (cfg_listener c)) = []"
    by (simp only: warnings_listener concat_eq_Nil_conv) auto
  finally show ?thesis by (simp only: warnings_route append_Nil)
qed

section \<open>Balancers of an accepted configuration\<close>

lemma valid_route_of: "valid_config H F c \<Longrightarrow> r \<in> set (cfg_route c) \<Longrightarrow> valid_route H F r"
  by (simp add: valid_config_def)

lemma valid_route_weights:
  assumes "valid_route H F r"
  shows "\<forall>u\<in>set (route_pools r). max (up_weight u) 1 \<le> 10000"
  using assms by (auto simp: valid_route_def valid_upstream_def route_pools_def split: option.splits)

lemma valid_route_schedule:
  assumes "valid_route H F r"
  shows "lb_upstreams (lb_new (route_pools r)) \<noteq> []"
    and "length (lb_upstreams (lb_new (route_pools r))) \<le> 10000 * length (rc_upstream r)"
proof -
  have "route_pools r \<noteq> []" using assms by (simp add: valid_route_def)
  then show "lb_upstreams (lb_new (route_pools r)) \<noteq> []" by (simp add: lb_new_def expand_Nil)
  show "length (lb_upstreams (lb_new (route_pools r))) \<le> 10000 * length (rc_upstream r)"
    using schedule_bound [OF valid_route_weights [OF assms]] by (simp add: lb_new_def route_pools_def)
qed

lemma find_rev_last:
  "find P (rev (as @ x # cs)) = Some x" if "P x" "\<forall>y\<in>set cs. \<not> P y"
proof -
  have "find P (rev cs @ x # rev as) = Some x"
    using that by (intro find_Some_split [THEN iffD2] exI [of _ "rev cs"] exI [of _ "rev as"]) simp
  then show ?thesis by simp
qed

section \<open>Properties\<close>


text \<open>Durations are read as they are written: a decimal number of milliseconds, seconds or
  minutes whose seconds fit in \<open>u64\<close> comes back as that number of milliseconds; a number
  without a unit is rejected.\<close>

lemma duration_round_trip:
  assumes "n < 2 ^ 64 div 60"
  shows "parse_duration (show_nat n @ ''ms'') = Inr n
    \<and> parse_duration (show_nat n @ ''s'') = Inr (1000 * n)
    \<and> parse_duration (show_nat n @ ''m'') = Inr (60000 * n)
    \<and> parse_duration (show_nat n) = Inl (MissingUnit (show_nat n))"
proof -
  have n: "n < 2 ^ 64" using assms by (rule less_le_trans) simp
  have m: "unat ((of_nat n :: 64 word) * 60) = 60 * n" using assms by (rule unat_mult_60)
  have "parse_duration (show_nat n @ ''ms'') = Inr n"
    by (subst parse_duration_print [OF n refl]) (simp_all add: is_digit_def char_code_def)
  moreover have "parse_duration (show_nat n @ ''s'') = Inr (1000 * n)"
    by (subst parse_duration_print [OF n refl]) (simp_all add: is_digit_def char_code_def)
  moreover have "parse_duration (show_nat n @ ''m'') = Inr (60000 * n)"
    by (subst parse_duration_print [OF n refl]) (simp_all add: is_digit_def char_code_def m)
  ultimately show ?thesis using parse_duration_bare by blast
qed

lemma duration_round_trip_example:
  "parse_duration (show_nat 90 @ ''m'') = Inr (60000 * 90)"
  using duration_round_trip [of 90] by simp

text \<open>The conversion of minutes is not checked: a large number of minutes is accepted and
  wraps around to 44 seconds.\<close>

lemma minutes_wrap_around:
  "parse_duration ''307445734561825861m'' = Inr 44000"
  by code_simp

text \<open>Upstream addresses round-trip: every non-empty host without a slash and every port is
  read back from \<open>http://host:port\<close>, with or without scheme and path, and whatever the
  parser accepts is such a pair.\<close>

lemma upstream_address_round_trip:
  assumes "h \<noteq> []" "CHR ''/'' \<notin> set h" "p < 2 ^ 16"
  shows "upstream_host_port (''http://'' @ h @ '':'' @ show_nat p) = Inr (h, p)
    \<and> upstream_host_port (h @ '':'' @ show_nat p) = Inr (h, p)"
  using host_port_print [OF assms] by simp

lemma upstream_address_round_trip_example:
  "upstream_host_port (''http://'' @ ''a.b'' @ '':'' @ show_nat 8080) = Inr (''a.b'', 8080)"
  by (rule upstream_address_round_trip [THEN conjunct1]) simp_all

text \<open>C18 An accepted configuration is ready to serve: at start-up every route finds a balancer
  under its name, with at least one upstream, at most 10000 schedule entries for each upstream
  of the route it was built from, and a host and port for every address in it.\<close>

theorem accepted_config_is_ready:
  assumes "accepts H F c" "r \<in> set (cfg_route c)"
  shows "\<exists>r'\<in>set (cfg_route c). rc_name r' = rc_name r \<and>
    (case build_lb_map c (rc_name r) of
       None \<Rightarrow> False
     | Some lb \<Rightarrow> lb_upstreams lb \<noteq> []
         \<and> length (lb_upstreams lb) \<le> 10000 * length (rc_upstream r')
         \<and> lb_addrs lb = uc_addr ` set (rc_upstream r')
         \<and> list_all (\<lambda>u. case upstream_host_port (up_addr u) of Inl _ \<Rightarrow> False | Inr _ \<Rightarrow> True)
             (lb_upstreams lb))"
proof -
  have valid: "valid_config H F c" using assms(1) by (simp add: accepts_iff_valid)
  obtain r' where r': "r' \<in> set (cfg_route c)" "rc_name r' = rc_name r"
    "build_lb_map c (rc_name r) = Some (lb_new (route_pools r'))"
    using build_lb_map_route [OF assms(2)] by blast
  note vr = valid_route_of [OF valid r'(1)]
  have "list_all (\<lambda>u. case upstream_host_port (up_addr u) of Inl _ \<Rightarrow> False | Inr _ \<Rightarrow> True)
      (lb_upstreams (lb_new (route_pools r')))"
  proof (unfold list_all_iff, rule ballI)
    fix u
    assume "u \<in> set (lb_upstreams (lb_new (route_pools r')))"
    then have "up_addr u \<in> uc_addr ` set (rc_upstream r')"
      using lb_new_addrs [of r'] by (auto simp: lb_addrs_def)
    then obtain x where x: "x \<in> set (rc_upstream r')" "uc_addr x = up_addr u" by auto
    show "case upstream_host_port (up_addr u) of Inl _ \<Rightarrow> False | Inr _ \<Rightarrow> True"
      using valid_route_upstream [OF valid r'(1) x(1)] x(2) by (auto simp: valid_upstream_def)
  qed
  with r' valid_route_schedule [OF vr] show ?thesis
    by (intro bexI [of _ r']) (simp_all add: lb_new_addrs)
qed

theorem accepted_config_is_ready_witness:
  "\<exists>r'\<in>set (cfg_route (plain_config [plain_route ''r'' [''a:1'']])). rc_name r' = ''r''
    \<and> build_lb_map (plain_config [plain_route ''r'' [''a:1'']]) ''r'' \<noteq> None"
proof -
  have "accepts std_http plain_features (plain_config [plain_route ''r'' [''a:1'']])" by code_simp
  from accepted_config_is_ready [OF this, of "plain_route ''r'' [''a:1'']"] show ?thesis
    by (auto simp: plain_config_def plain_route_def split: option.splits)
qed

text \<open>Route names are not checked to be distinct, and balancers are keyed by them: of two
  routes with the same name, requests for the first go to the upstreams of the last.\<close>

lemma same_name_routes_share_last_balancer:
  assumes "cfg_route c = as @ r1 # bs @ r2 # cs" "rc_name r1 = rc_name r2"
    and "\<forall>r\<in>set cs. rc_name r \<noteq> rc_name r2"
  shows "build_lb_map c (rc_name r1) = Some (lb_new (route_pools r2))"
  using find_rev_last [of "\<lambda>r. rc_name r = rc_name r2" r2 cs "as @ r1 # bs"] assms
  by (simp add: build_lb_map_lookup)

lemma same_name_routes_share_last_balancer_example:
  "let c = plain_config [plain_route ''r'' [''a:1''], (plain_route ''r'' [''b:1''])\<lparr>rc_path := Some ''/b''\<rparr>] in
     accepts std_http plain_features c
     \<and> build_lb_map c ''r'' = Some (lb_new [\<lparr>up_addr = ''b:1'', up_weight = 100\<rparr>])"
proof -
  let ?r1 = "plain_route ''r'' [''a:1'']" and ?r2 = "(plain_route ''r'' [''b:1''])\<lparr>rc_path := Some ''/b''\<rparr>"
  let ?c = "plain_config [?r1, ?r2]"
  have "build_lb_map ?c (rc_name ?r1) = Some (lb_new (route_pools ?r2))"
    by (rule same_name_routes_share_last_balancer [of _ "[]" _ "[]" _ "[]"])
      (simp_all add: plain_config_def plain_route_def)
  moreover have "accepts std_http plain_features ?c" by code_simp
  ultimately show ?thesis by (simp add: plain_route_def route_pools_def Let_def)
qed

end
