(* ===== verification/Transition.thy ===== *)
theory Transition
  imports Main
begin

text \<open>
  The contracts the state machines of the development share: an inductive invariant of a
  step relation, a simulation of a detailed step relation by an abstract one, and progress of
  an infinite run, by a rank that falls again and again or by turns of whoever can make it
  fall.  The process, its shutdown, its request tasks, its configuration lock and the health
  registry instantiate them.
\<close>

text \<open>A scripted run: each action is a step wherever \<open>P\<close> holds, and keeps it.\<close>

lemma foldl_reaches:
  assumes "\<And>s a. P s \<Longrightarrow> a \<in> set as \<Longrightarrow> step s (act s a) \<and> P (act s a)" "P s"
  shows "step\<^sup>*\<^sup>* s (foldl act s as)"
  using assms
proof (induction as arbitrary: s)
  case (Cons a as)
  have "step s (act s a)" "P (act s a)" using Cons.prems(1) [of s a] Cons.prems(2) by simp_all
  with Cons.IH [of "act s a"] Cons.prems(1) show ?case by (auto intro: converse_rtranclp_into_rtranclp)
qed simp

locale invariant_system =
  fixes init :: "'s \<Rightarrow> bool"
    and step :: "'s \<Rightarrow> 's \<Rightarrow> bool"
    and inv :: "'s \<Rightarrow> bool"
  assumes inv_init: "init s \<Longrightarrow> inv s"
    and inv_step: "inv s \<Longrightarrow> step s s' \<Longrightarrow> inv s'"
begin

lemma inv_steps: "step\<^sup>*\<^sup>* s s' \<Longrightarrow> inv s \<Longrightarrow> inv s'"
  by (induction rule: rtranclp_induct) (auto intro: inv_step)

lemma inv_reachable: "init s \<Longrightarrow> step\<^sup>*\<^sup>* s s' \<Longrightarrow> inv s'"
  using inv_steps inv_init by blast

end

text \<open>A step of the detailed system is any number of steps of the abstract one.\<close>

locale simulation = invariant_system init step inv
  for init :: "'s \<Rightarrow> bool" and step :: "'s \<Rightarrow> 's \<Rightarrow> bool" and inv :: "'s \<Rightarrow> bool" +
  fixes ainit :: "'a \<Rightarrow> bool"
    and astep :: "'a \<Rightarrow> 'a \<Rightarrow> bool"
    and abs :: "'s \<Rightarrow> 'a"
  assumes abs_init: "init s \<Longrightarrow> ainit (abs s)"
    and abs_step: "inv s \<Longrightarrow> step s s' \<Longrightarrow> astep\<^sup>*\<^sup>* (abs s) (abs s')"
begin

lemma abs_steps:
  assumes "step\<^sup>*\<^sup>* s s'" "inv s"
  shows "astep\<^sup>*\<^sup>* (abs s) (abs s')"
  using assms(1)
proof (induction rule: rtranclp_induct)
  case (step t u)
  from step.hyps(1) assms(2) have "inv t" by (rule inv_steps)
  with step show ?case by (meson abs_step rtranclp_trans)
qed simp

lemma abs_reachable:
  assumes "init s" "step\<^sup>*\<^sup>* s s'"
  shows "ainit (abs s) \<and> astep\<^sup>*\<^sup>* (abs s) (abs s')"
  using assms abs_steps inv_init abs_init by blast

text \<open>What holds of every reachable abstract state holds of the abstraction of every
  reachable detailed one.\<close>

lemma transfer_invariant:
  assumes "invariant_system ainit astep ainv" "init s" "step\<^sup>*\<^sup>* s s'"
  shows "ainv (abs s')"
  using abs_reachable [OF assms(2,3)] invariant_system.inv_reachable [OF assms(1)] by blast

end

text \<open>Progress of an infinite run: a rank that no step raises before it is zero, and that helpful
  steps lower.  If helpful steps keep coming, it becomes zero.\<close>

locale ranking =
  fixes \<sigma> :: "nat \<Rightarrow> 's"
    and good :: "'s \<Rightarrow> bool"
    and rank :: "'s \<Rightarrow> nat"
    and helps :: "'s \<Rightarrow> 's \<Rightarrow> bool"
  assumes rank_step: "good (\<sigma> n) \<Longrightarrow> rank (\<sigma> n) \<noteq> 0 \<Longrightarrow>
      good (\<sigma> (Suc n)) \<and> rank (\<sigma> (Suc n)) \<le> rank (\<sigma> n)"
    and rank_helped: "good (\<sigma> n) \<Longrightarrow> rank (\<sigma> n) \<noteq> 0 \<Longrightarrow> helps (\<sigma> n) (\<sigma> (Suc n)) \<Longrightarrow>
      rank (\<sigma> (Suc n)) < rank (\<sigma> n)"
    and helped: "\<exists>m\<ge>n. rank (\<sigma> m) = 0 \<or> helps (\<sigma> m) (\<sigma> (Suc m))"
begin

lemma rank_mono:
  assumes "good (\<sigma> n)" "n \<le> m"
  shows "(\<exists>k\<ge>n. good (\<sigma> k) \<and> rank (\<sigma> k) = 0) \<or> (good (\<sigma> m) \<and> rank (\<sigma> m) \<le> rank (\<sigma> n))"
  using assms(2)
proof (induction m rule: dec_induct)
  case (step m)
  then show ?case using rank_step [of m] by (meson le_trans)
qed (simp add: assms(1))

lemma reaches_zero: "good (\<sigma> n) \<Longrightarrow> \<exists>m\<ge>n. good (\<sigma> m) \<and> rank (\<sigma> m) = 0"
proof (induction "rank (\<sigma> n)" arbitrary: n rule: less_induct)
  case less
  obtain m where m: "n \<le> m" "rank (\<sigma> m) = 0 \<or> helps (\<sigma> m) (\<sigma> (Suc m))" using helped by blast
  show ?case
  proof (cases "(\<exists>k\<ge>n. good (\<sigma> k) \<and> rank (\<sigma> k) = 0) \<or> rank (\<sigma> m) = 0")
    case True
    with rank_mono [OF less.prems m(1)] m(1) show ?thesis by blast
  next
    case False
    with rank_mono [OF less.prems m(1)] m(2) have at_m: "good (\<sigma> m)" "rank (\<sigma> m) \<noteq> 0"
      "rank (\<sigma> m) \<le> rank (\<sigma> n)" "helps (\<sigma> m) (\<sigma> (Suc m))" by blast+
    with rank_step [of m] rank_helped [of m] less.hyps [of "Suc m"] m(1) show ?thesis
      by (meson le_SucI le_trans less_le_trans)
  qed
qed

end

text \<open>Progress under fair scheduling: in every state with a positive rank some actor is helpful; it
  stays helpful until the rank falls, and its next turn makes the rank fall.  So it is enough
  that helpful actors get a turn.\<close>

locale fair_ranking =
  fixes \<sigma> :: "nat \<Rightarrow> 's"
    and good :: "'s \<Rightarrow> bool"
    and rank :: "'s \<Rightarrow> nat"
    and helpful :: "'a \<Rightarrow> 's \<Rightarrow> bool"
    and turn :: "'a \<Rightarrow> 's \<Rightarrow> 's \<Rightarrow> bool"
  assumes keeps: "good (\<sigma> n) \<Longrightarrow> rank (\<sigma> n) \<noteq> 0 \<Longrightarrow>
      good (\<sigma> (Suc n)) \<and> rank (\<sigma> (Suc n)) \<le> rank (\<sigma> n)"
    and some_helps: "good (\<sigma> n) \<Longrightarrow> rank (\<sigma> n) \<noteq> 0 \<Longrightarrow> \<exists>a. helpful a (\<sigma> n)"
    and still_helps: "good (\<sigma> n) \<Longrightarrow> rank (\<sigma> n) \<noteq> 0 \<Longrightarrow> helpful a (\<sigma> n) \<Longrightarrow>
      rank (\<sigma> (Suc n)) < rank (\<sigma> n) \<or> helpful a (\<sigma> (Suc n))"
    and turn_helps: "good (\<sigma> n) \<Longrightarrow> rank (\<sigma> n) \<noteq> 0 \<Longrightarrow> helpful a (\<sigma> n) \<Longrightarrow> turn a (\<sigma> n) (\<sigma> (Suc n)) \<Longrightarrow>
      rank (\<sigma> (Suc n)) < rank (\<sigma> n)"
    and gets_turn: "helpful a (\<sigma> n) \<Longrightarrow> \<exists>m\<ge>n. turn a (\<sigma> m) (\<sigma> (Suc m))"
begin

lemma waits_for_turn:
  assumes "good (\<sigma> n)" "rank (\<sigma> n) \<noteq> 0" "helpful a (\<sigma> n)" "n \<le> m"
  shows "(\<exists>k\<ge>n. good (\<sigma> k) \<and> rank (\<sigma> k) < rank (\<sigma> n)) \<or>
    (good (\<sigma> m) \<and> rank (\<sigma> m) = rank (\<sigma> n) \<and> helpful a (\<sigma> m))"
  using assms(4)
proof (induction m rule: dec_induct)
  case (step m)
  show ?case
  proof (cases "\<exists>k\<ge>n. good (\<sigma> k) \<and> rank (\<sigma> k) < rank (\<sigma> n)")
    case False
    with step have "good (\<sigma> m)" "rank (\<sigma> m) = rank (\<sigma> n)" "helpful a (\<sigma> m)" by blast+
    with keeps [of m] still_helps [of m a] assms(2) step(1)
    have "good (\<sigma> (Suc m)) \<and> (rank (\<sigma> (Suc m)) < rank (\<sigma> n) \<or>
        rank (\<sigma> (Suc m)) = rank (\<sigma> n) \<and> helpful a (\<sigma> (Suc m)))" by fastforce
    with step(1) show ?thesis by (meson le_SucI)
  qed simp
qed (use assms in simp)

lemma falls: "good (\<sigma> n) \<Longrightarrow> rank (\<sigma> n) \<noteq> 0 \<Longrightarrow> \<exists>k\<ge>n. good (\<sigma> k) \<and> rank (\<sigma> k) < rank (\<sigma> n)"
proof -
  assume here: "good (\<sigma> n)" "rank (\<sigma> n) \<noteq> 0"
  then obtain a where a: "helpful a (\<sigma> n)" using some_helps by blast
  obtain m where m: "n \<le> m" "turn a (\<sigma> m) (\<sigma> (Suc m))" using gets_turn [OF a] by blast
  from waits_for_turn [OF here a m(1)] show ?thesis
  proof
    assume "good (\<sigma> m) \<and> rank (\<sigma> m) = rank (\<sigma> n) \<and> helpful a (\<sigma> m)"
    with here(2) m keeps [of m] turn_helps [of m a] show ?thesis by (intro exI [of _ "Suc m"]) auto
  qed
qed

lemma reaches_zero: "good (\<sigma> n) \<Longrightarrow> \<exists>m\<ge>n. good (\<sigma> m) \<and> rank (\<sigma> m) = 0"
proof (induction "rank (\<sigma> n)" arbitrary: n rule: less_induct)
  case less
  show ?case
  proof (cases "rank (\<sigma> n) = 0")
    case False
    with falls less.prems obtain k where "n \<le> k" "good (\<sigma> k)" "rank (\<sigma> k) < rank (\<sigma> n)" by blast
    with less.hyps [of k] show ?thesis by (meson le_trans)
  qed (use less.prems in blast)
qed

end

end
