(* ===== verification/Reload.thy ===== *)
theory Reload
  imports Validation Transition
begin

text \<open>
  \<open>reload.rs\<close>: what a SIGHUP does to the running process.  The state is the engine's shared
  state together with the probers that are running, the handles kept for the next reload, and
  how far a reload in progress has come: each lock is taken on its own, so other tasks run
  between the four swaps.  \<open>proc_step\<close> is one atomic action of any task.
\<close>

section \<open>Preparing a reload\<close>

datatype reload_error = LoadFailed load_error | Invalid config_error | PluginsFailed plugin_error

record 'md prepared =
  pr_config :: config
  pr_lbs :: "string \<rightharpoonup> load_balancer"
  pr_plugins :: "string \<rightharpoonup> 'md"
  pr_probers :: "prober list"

text \<open>What a reload reads from outside: the parser of the configuration file, the file system
  at the time of the signal (for the configuration and for plugins), and the build.\<close>

record ('m, 'md, 'st) build =
  bd_http :: "'m http_api"
  bd_features :: features
  bd_wasm :: "('md, 'st) wasm_api"
  bd_toml :: "string \<Rightarrow> string + config"
  bd_path :: string

record file_system =
  fs_text :: "string \<Rightarrow> string option"
  fs_bytes :: "string \<Rightarrow> string option"

definition prepare_reload ::
  "('m, 'md, 'st) build \<Rightarrow> file_system \<Rightarrow> reload_error + 'md prepared" where
  "prepare_reload B fs =
     (case load_config (fs_text fs) (bd_toml B) (bd_path B) of
        Inl e \<Rightarrow> Inl (LoadFailed e)
      | Inr c \<Rightarrow>
          (case snd (validate (bd_http B) (bd_features B) c) of
             Some e \<Rightarrow> Inl (Invalid e)
           | None \<Rightarrow>
               (let done = (\<lambda>plugins. Inr \<lparr>pr_config = c, pr_lbs = build_lb_map c,
                    pr_plugins = plugins, pr_probers = spawn_all_probers c\<rparr>)
                in if feat_plugins (bd_features B)
                   then (case build_plugin_cache (bd_wasm B) (fs_bytes fs) c of
                       Inl e \<Rightarrow> Inl (PluginsFailed e)
                     | Inr plugins \<Rightarrow> done plugins)
                   else done Map.empty)))"

section \<open>The process\<close>

datatype 'md stage =
    Waiting
  | SwapLbs "'md prepared"
  | SwapPlugins "'md prepared"
  | SwapConfig "'md prepared"
  | SwapProbers "'md prepared"

record 'md process =
  ps_world :: "'md world"
  ps_handles :: "prober list"
  ps_running :: "prober list"
  ps_stage :: "'md stage"

text \<open>At start-up: \<open>ProxyEngine::new\<close>, \<open>spawn_health_probers\<close>, then the signal loop.\<close>

definition spawn_health_probers :: "'md world \<Rightarrow> prober list" where
  "spawn_health_probers w = spawn_all_probers (w_config w)"

definition process_start ::
  "('m, 'md, 'st) build \<Rightarrow> (string \<Rightarrow> string option) \<Rightarrow> config \<Rightarrow> metrics \<Rightarrow> 'md process" where
  "process_start B read c m =
     (let w = engine_new (bd_wasm B) (bd_features B) read c m; handles = spawn_health_probers w in
      \<lparr>ps_world = w, ps_handles = handles, ps_running = handles, ps_stage = Waiting\<rparr>)"

lemma process_start_simps [simp]:
  "ps_world (process_start B read c m) = engine_new (bd_wasm B) (bd_features B) read c m"
  "ps_handles (process_start B read c m) = spawn_all_probers c"
  "ps_running (process_start B read c m) = spawn_all_probers c"
  "ps_stage (process_start B read c m) = Waiting"
  by (simp_all add: process_start_def spawn_health_probers_def engine_new_def Let_def)

definition sighup :: "('m, 'md, 'st) build \<Rightarrow> file_system \<Rightarrow> 'md process \<Rightarrow> 'md process" where
  "sighup B fs p =
     (case prepare_reload B fs of
        Inl _ \<Rightarrow> p
      | Inr new \<Rightarrow> p\<lparr>ps_running := ps_running p @ pr_probers new, ps_stage := SwapLbs new\<rparr>)"

definition swap_next :: "features \<Rightarrow> 'md process \<Rightarrow> 'md process" where
  "swap_next F p = (let w = ps_world p in
     case ps_stage p of
       Waiting \<Rightarrow> p
     | SwapLbs new \<Rightarrow> p\<lparr>ps_world := w\<lparr>w_lbs := pr_lbs new\<rparr>, ps_stage := SwapPlugins new\<rparr>
     | SwapPlugins new \<Rightarrow>
         p\<lparr>ps_world := (if feat_plugins F then w\<lparr>w_plugins := pr_plugins new\<rparr> else w),
           ps_stage := SwapConfig new\<rparr>
     | SwapConfig new \<Rightarrow> p\<lparr>ps_world := w\<lparr>w_config := pr_config new\<rparr>, ps_stage := SwapProbers new\<rparr>
     | SwapProbers new \<Rightarrow>
         p\<lparr>ps_handles := pr_probers new,
           ps_running := foldl (\<lambda>running h. remove1 h running) (ps_running p) (ps_handles p),
           ps_stage := Waiting\<rparr>)"

definition reload_once :: "('m, 'md, 'st) build \<Rightarrow> file_system \<Rightarrow> 'md process \<Rightarrow> 'md process" where
  "reload_once B fs p = (let F = bd_features B in
     swap_next F (swap_next F (swap_next F (swap_next F (sighup B fs p)))))"

text \<open>
  The process acts on itself (a signal, a swap, a probe), and requests act on the shared state
  by counting and by picking an upstream.
\<close>

inductive ctrl_step :: "('m, 'md, 'st) build \<Rightarrow> 'md process \<Rightarrow> 'md process \<Rightarrow> bool" for B where
  hup: "ps_stage p = Waiting \<Longrightarrow> ctrl_step B p (sighup B fs p)"
| swap: "ps_stage p \<noteq> Waiting \<Longrightarrow> ctrl_step B p (swap_next (bd_features B) p)"
| probe: "pb \<in> set (ps_running p) \<Longrightarrow>
    ctrl_step B p (p\<lparr>ps_world := (ps_world p)\<lparr>w_health := prober_round net pb (w_health (ps_world p))\<rparr>\<rparr>)"

inductive proc_step :: "('m, 'md, 'st) build \<Rightarrow> 'md process \<Rightarrow> 'md process \<Rightarrow> bool" for B where
  control: "ctrl_step B p p' \<Longrightarrow> proc_step B p p'"
| arrive: "proc_step B p (p\<lparr>ps_world := inc_requests (ps_world p)\<rparr>)"
| fail: "proc_step B p (p\<lparr>ps_world := inc_errors (ps_world p)\<rparr>)"
| answer: "proc_step B p (p\<lparr>ps_world := observe_duration d (ps_world p)\<rparr>)"
| pick: "proc_step B p (p\<lparr>ps_world := snd (select_upstream (ps_world p) name tried)\<rparr>)"

abbreviation reachable :: "('m, 'md, 'st) build \<Rightarrow> 'md process \<Rightarrow> 'md process \<Rightarrow> bool" where
  "reachable B \<equiv> (proc_step B)\<^sup>*\<^sup>*"

section \<open>The invariant\<close>

definition schedules :: "(string \<rightharpoonup> load_balancer) \<Rightarrow> string \<rightharpoonup> upstream_pool list" where
  "schedules lbs = (\<lambda>n. map_option lb_upstreams (lbs n))"

text \<open>The balancers, and the plugin cache, are those of a configuration.\<close>

definition lbs_fit :: "'md world \<Rightarrow> config \<Rightarrow> bool" where
  "lbs_fit w c \<longleftrightarrow> schedules (w_lbs w) = schedules (build_lb_map c)"

definition plugins_fit :: "features \<Rightarrow> (string \<rightharpoonup> 'md) \<Rightarrow> config \<Rightarrow> bool" where
  "plugins_fit F plugins c \<longleftrightarrow> \<not> feat_plugins F \<or> dom plugins = plugin_paths (cfg_route c)"

definition prepared_ok :: "('m, 'md, 'st) build \<Rightarrow> 'md prepared \<Rightarrow> bool" where
  "prepared_ok B new \<longleftrightarrow> accepts (bd_http B) (bd_features B) (pr_config new)
     \<and> pr_lbs new = build_lb_map (pr_config new)
     \<and> pr_probers new = spawn_all_probers (pr_config new)
     \<and> plugins_fit (bd_features B) (pr_plugins new) (pr_config new)"

definition process_inv :: "('m, 'md, 'st) build \<Rightarrow> 'md process \<Rightarrow> bool" where
  "process_inv B p \<longleftrightarrow> (let w = ps_world p; c = w_config w; F = bd_features B in
     accepts (bd_http B) F c \<and>
     (case ps_stage p of
        Waiting \<Rightarrow> lbs_fit w c \<and> plugins_fit F (w_plugins w) c
          \<and> ps_handles p = spawn_all_probers c \<and> mset (ps_running p) = mset (ps_handles p)
      | SwapLbs new \<Rightarrow> prepared_ok B new \<and> lbs_fit w c \<and> plugins_fit F (w_plugins w) c
          \<and> mset (ps_running p) = mset (ps_handles p) + mset (pr_probers new)
      | SwapPlugins new \<Rightarrow> prepared_ok B new \<and> lbs_fit w (pr_config new) \<and> plugins_fit F (w_plugins w) c
          \<and> mset (ps_running p) = mset (ps_handles p) + mset (pr_probers new)
      | SwapConfig new \<Rightarrow> prepared_ok B new \<and> lbs_fit w (pr_config new)
          \<and> plugins_fit F (w_plugins w) (pr_config new)
          \<and> mset (ps_running p) = mset (ps_handles p) + mset (pr_probers new)
      | SwapProbers new \<Rightarrow> prepared_ok B new \<and> c = pr_config new \<and> lbs_fit w c
          \<and> plugins_fit F (w_plugins w) c
          \<and> mset (ps_running p) = mset (ps_handles p) + mset (pr_probers new)))"

lemma plugins_fit_cache: "build_plugin_cache W read c = Inr cache \<Longrightarrow> plugins_fit F cache c"
  by (simp add: plugins_fit_def plugin_paths_of_cache)

lemma plugins_fit_off: "\<not> feat_plugins F \<Longrightarrow> plugins_fit F plugins c"
  by (simp add: plugins_fit_def)

lemma prepare_reload_ok: "prepare_reload B fs = Inr new \<Longrightarrow> prepared_ok B new"
  by (auto simp: prepare_reload_def prepared_ok_def accepts_def Let_def plugins_fit_off
      dest: plugins_fit_cache split: sum.splits option.splits if_splits)

lemma schedules_pick: "schedules (w_lbs (snd (select_upstream w name tried))) = schedules (w_lbs w)"
proof (cases "w_lbs w name")
  case (Some lb)
  obtain u lb' where n: "next_healthy lb (is_healthy (w_health w)) tried = (u, lb')" by fastforce
  then have "lb_upstreams lb' = lb_upstreams lb"
    using next_healthy_lb [of lb "is_healthy (w_health w)" tried] by simp
  with Some n show ?thesis
    by (auto simp: schedules_def select_upstream_def lb_pick_def)
qed (simp add: select_upstream_def)

lemma mset_remove_all: "mset (foldl (\<lambda>rs h. remove1 h rs) rs hs) = mset rs - mset hs"
  by (induction hs arbitrary: rs) (simp_all add: diff_add_mset_swap)

text \<open>Actions of requests and probers change nothing the invariant speaks about.\<close>

lemma process_inv_frame:
  assumes "process_inv B p" "schedules (w_lbs w) = schedules (w_lbs (ps_world p))"
    and "w_config w = w_config (ps_world p)" "w_plugins w = w_plugins (ps_world p)"
  shows "process_inv B (p\<lparr>ps_world := w\<rparr>)"
  using assms by (cases "ps_stage p") (auto simp: process_inv_def lbs_fit_def Let_def)

lemma process_inv_sighup:
  assumes "process_inv B p" "ps_stage p = Waiting"
  shows "process_inv B (sighup B fs p)"
  using assms prepare_reload_ok [of B fs]
  by (auto simp: sighup_def process_inv_def Let_def split: sum.splits)

lemma process_inv_swap:
  assumes "process_inv B p"
  shows "process_inv B (swap_next (bd_features B) p)"
proof (cases "ps_stage p")
  case (SwapProbers new)
  with assms show ?thesis
    by (auto simp: process_inv_def swap_next_def Let_def mset_remove_all lbs_fit_def prepared_ok_def)
qed (use assms in \<open>auto simp: process_inv_def swap_next_def Let_def lbs_fit_def prepared_ok_def plugins_fit_def\<close>)

lemma process_inv_ctrl: "ctrl_step B p p' \<Longrightarrow> process_inv B p \<Longrightarrow> process_inv B p'"
  by (induction rule: ctrl_step.induct)
    (auto intro!: process_inv_frame process_inv_sighup process_inv_swap)

lemma process_inv_step: "proc_step B p p' \<Longrightarrow> process_inv B p \<Longrightarrow> process_inv B p'"
proof (induction rule: proc_step.induct)
  case (pick p name tried)
  obtain picked w where "select_upstream (ps_world p) name tried = (picked, w)" by fastforce
  with pick schedules_pick [of "ps_world p" name tried]
    select_upstream_frame(3,4) [of "ps_world p" name tried picked w]
  show ?case by (intro process_inv_frame) simp_all
qed (auto intro!: process_inv_frame intro: process_inv_ctrl
    simp: inc_requests_def inc_errors_def observe_duration_def)

lemma process_inv_start:
  assumes "accepts (bd_http B) (bd_features B) c"
    and "feat_plugins (bd_features B) \<Longrightarrow> build_plugin_cache (bd_wasm B) read c = Inr cache"
  shows "process_inv B (process_start B read c m)"
  using assms
  by (auto simp: process_inv_def engine_new_def lbs_fit_def plugins_fit_off Let_def
      dest: plugins_fit_cache split: sum.splits)

text \<open>The states the process starts in: an accepted configuration whose plugins all loaded.\<close>

definition process_init :: "('m, 'md, 'st) build \<Rightarrow> 'md process \<Rightarrow> bool" where
  "process_init B p \<longleftrightarrow> (\<exists>read c m. accepts (bd_http B) (bd_features B) c
     \<and> (feat_plugins (bd_features B) \<longrightarrow> (\<exists>cache. build_plugin_cache (bd_wasm B) read c = Inr cache))
     \<and> p = process_start B read c m)"

interpretation proc: invariant_system "process_init B" "proc_step B" "process_inv B"
  for B :: "('m, 'md, 'st) build"
  by unfold_locales (auto simp: process_init_def intro: process_inv_start process_inv_step)

text \<open>
  The part of the invariant that does not need the plugins: it also holds of a process that
  started with an empty plugin cache, because a plugin of its configuration did not load.
\<close>

definition process_started :: "('m, 'md, 'st) build \<Rightarrow> 'md process \<Rightarrow> bool" where
  "process_started B p \<longleftrightarrow> (\<exists>read c m. accepts (bd_http B) (bd_features B) c \<and> p = process_start B read c m)"

definition balancers_inv :: "('m, 'md, 'st) build \<Rightarrow> 'md process \<Rightarrow> bool" where
  "balancers_inv B p \<longleftrightarrow> (let w = ps_world p; c = w_config w in
     accepts (bd_http B) (bd_features B) c \<and>
     (case ps_stage p of
        Waiting \<Rightarrow> lbs_fit w c
      | SwapLbs new \<Rightarrow> prepared_ok B new \<and> lbs_fit w c
      | SwapPlugins new \<Rightarrow> prepared_ok B new \<and> lbs_fit w (pr_config new)
      | SwapConfig new \<Rightarrow> prepared_ok B new \<and> lbs_fit w (pr_config new)
      | SwapProbers new \<Rightarrow> prepared_ok B new \<and> c = pr_config new \<and> lbs_fit w c))"

lemma balancers_inv_frame:
  assumes "balancers_inv B p" "schedules (w_lbs w) = schedules (w_lbs (ps_world p))"
    and "w_config w = w_config (ps_world p)"
  shows "balancers_inv B (p\<lparr>ps_world := w\<rparr>)"
  using assms by (cases "ps_stage p") (auto simp: balancers_inv_def lbs_fit_def Let_def)

lemma balancers_inv_ctrl: "ctrl_step B p p' \<Longrightarrow> balancers_inv B p \<Longrightarrow> balancers_inv B p'"
proof (induction rule: ctrl_step.induct)
  case (hup p fs)
  then show ?case using prepare_reload_ok [of B fs]
    by (auto simp: sighup_def balancers_inv_def Let_def split: sum.splits)
next
  case (swap p)
  then show ?case
    by (cases "ps_stage p") (auto simp: balancers_inv_def swap_next_def Let_def lbs_fit_def prepared_ok_def)
qed (auto intro!: balancers_inv_frame)

lemma balancers_inv_step: "proc_step B p p' \<Longrightarrow> balancers_inv B p \<Longrightarrow> balancers_inv B p'"
proof (induction rule: proc_step.induct)
  case (pick p name tried)
  obtain picked w where "select_upstream (ps_world p) name tried = (picked, w)" by fastforce
  with pick schedules_pick [of "ps_world p" name tried]
    select_upstream_frame(3) [of "ps_world p" name tried picked w]
  show ?case by (intro balancers_inv_frame) simp_all
qed (auto intro!: balancers_inv_frame intro: balancers_inv_ctrl
    simp: inc_requests_def inc_errors_def observe_duration_def)

lemma balancers_inv_start: "process_started B p \<Longrightarrow> balancers_inv B p"
  by (auto simp: process_started_def balancers_inv_def engine_new_def lbs_fit_def Let_def)

interpretation balancers: invariant_system "process_started B" "proc_step B" "balancers_inv B"
  for B :: "('m, 'md, 'st) build"
  by unfold_locales (auto intro: balancers_inv_start balancers_inv_step)

lemma process_init_started: "process_init B p \<Longrightarrow> process_started B p"
  by (auto simp: process_init_def process_started_def)

lemma settled_inv:
  assumes "accepts (bd_http B) (bd_features B) c"
    and "feat_plugins (bd_features B) \<Longrightarrow> \<exists>cache. build_plugin_cache (bd_wasm B) read c = Inr cache"
    and "reachable B (process_start B read c m) p"
  shows "process_inv B p"
  using assms(1,2) by (intro proc.inv_reachable [OF _ assms(3)]) (auto simp: process_init_def)

lemma fit_has_upstream:
  assumes "accepts H F c" "lbs_fit w c" "r \<in> set (cfg_route c)"
  shows "has_upstream w (rc_name r)"
proof -
  obtain r' where r': "r' \<in> set (cfg_route c)" "build_lb_map c (rc_name r) = Some (lb_new (route_pools r'))"
    using build_lb_map_route [OF assms(3)] by blast
  have "lb_upstreams (lb_new (route_pools r')) \<noteq> []"
    by (rule valid_route_schedule(1) [OF valid_route_of [OF assms(1) [unfolded accepts_iff_valid] r'(1)]])
  with fun_cong [OF assms(2) [unfolded lbs_fit_def], of "rc_name r"] r'(2) show ?thesis
    by (auto simp: has_upstream_def schedules_def)
qed

lemma settled_upstreams:
  assumes "accepts (bd_http B) (bd_features B) c"
    and "feat_plugins (bd_features B) \<Longrightarrow> \<exists>cache. build_plugin_cache (bd_wasm B) read c = Inr cache"
    and "reachable B (process_start B read c m) p" "ps_stage p = Waiting"
    and "r \<in> set (cfg_route (w_config (ps_world p)))"
  shows "has_upstream (ps_world p) (rc_name r)"
  using settled_inv [OF assms(1-3)] assms(4,5) fit_has_upstream
  by (auto simp: process_inv_def Let_def)

section \<open>A concrete process\<close>

definition demo_build :: "config \<Rightarrow> (assoc_headers, unit, unit) build" where
  "demo_build c = \<lparr>bd_http = std_http, bd_features = plain_features, bd_wasm = deny_404,
     bd_toml = (\<lambda>_. Inr c), bd_path = ''torana.toml''\<rparr>"

definition demo_files :: file_system where
  "demo_files = \<lparr>fs_text = (\<lambda>_. Some ''''), fs_bytes = (\<lambda>_. Some '''')\<rparr>"

definition demo_start :: "config \<Rightarrow> unit process" where
  "demo_start c = process_start (demo_build c) (\<lambda>_. Some '''') c no_metrics"

definition status_of :: "unit process \<Rightarrow> nat option" where
  "status_of p = map_option rs_status (oc_reply (handle
     (plain_env (\<lambda>_ _. (1, Inr \<lparr>rs_status = 200, rs_headers = [], rs_body = ''''\<rparr>)))
     (get_parts []) no_body (peer None) (ps_world p)))"

section \<open>Properties\<close>

text \<open>C14 A reload is all or nothing, once it has run: when the file loads, validates and all
  its plugins load, the process then has the new configuration, its balancers, its plugins and
  exactly its probers, with health and metrics untouched; in every other case nothing has
  changed.\<close>

theorem reload_is_all_or_nothing:
  assumes "process_inv B p" "ps_stage p = Waiting"
  shows "case prepare_reload B fs of
      Inl e \<Rightarrow> reload_once B fs p = p
    | Inr new \<Rightarrow>
        accepts (bd_http B) (bd_features B) (pr_config new)
        \<and> (let p' = reload_once B fs p; w = ps_world p; w' = ps_world p' in
            w_config w' = pr_config new \<and> w_lbs w' = build_lb_map (pr_config new)
            \<and> (if feat_plugins (bd_features B) then dom (w_plugins w') = plugin_paths (cfg_route (pr_config new))
               else w_plugins w' = w_plugins w)
            \<and> w_health w' = w_health w \<and> w_metrics w' = w_metrics w
            \<and> mset (ps_running p') = mset (spawn_all_probers (pr_config new)) \<and> ps_stage p' = Waiting)"
proof (cases "prepare_reload B fs")
  case (Inl e)
  then have "sighup B fs p = p" by (simp add: sighup_def)
  then show ?thesis using Inl assms(2) by (simp add: reload_once_def swap_next_def)
next
  case (Inr new)
  have ok: "prepared_ok B new" using Inr by (rule prepare_reload_ok)
  have "mset (ps_running p) = mset (ps_handles p)"
    using assms by (simp add: process_inv_def Let_def)
  with ok Inr show ?thesis
    by (simp add: reload_once_def sighup_def swap_next_def Let_def prepared_ok_def plugins_fit_def
        mset_remove_all)
qed

theorem reload_is_all_or_nothing_witness:
  "let c = plain_config [plain_route ''a'' [''a:1'']]; c' = plain_config [plain_route ''b'' [''b:1'']] in
   w_config (ps_world (reload_once (demo_build c') demo_files (demo_start c))) = c'"
proof -
  let ?c = "plain_config [plain_route ''a'' [''a:1'']]" and ?c' = "plain_config [plain_route ''b'' [''b:1'']]"
  have acc: "accepts std_http plain_features ?c" "accepts std_http plain_features ?c'" by code_simp+
  have start: "demo_start ?c = process_start (demo_build ?c') (\<lambda>_. Some '''') ?c no_metrics"
    by (simp add: demo_start_def process_start_def demo_build_def)
  have "build_plugin_cache (bd_wasm (demo_build ?c')) (\<lambda>_. Some '''') ?c = Inr Map.empty"
    by (simp add: build_plugin_cache_def plain_config_def plain_route_def)
  then have inv: "process_inv (demo_build ?c') (demo_start ?c)"
    unfolding start using acc by (intro process_inv_start) (simp_all add: demo_build_def)
  have prep: "prepare_reload (demo_build ?c') demo_files = Inr \<lparr>pr_config = ?c', pr_lbs = build_lb_map ?c',
      pr_plugins = Map.empty, pr_probers = spawn_all_probers ?c'\<rparr>"
    using acc(2) by (simp add: prepare_reload_def demo_build_def demo_files_def load_config_def accepts_def
        build_plugin_cache_def plain_config_def plain_route_def)
  have "ps_stage (demo_start ?c) = Waiting" by (simp add: demo_start_def)
  from reload_is_all_or_nothing [OF inv this, of demo_files] show ?thesis
    by (simp add: prep Let_def)
qed



text \<open>A reload is not atomic for requests: between the swaps of the balancers and of the
  configuration, a request for a route that the old and the new configuration serve under
  different names is answered 502, though it is answered 200 before the reload and after it.\<close>

lemma reload_window_loses_renamed_route:
  "let c = plain_config [plain_route ''old'' [''a:1'']]; c' = plain_config [plain_route ''new'' [''a:1'']];
       p = demo_start c; hup = sighup (demo_build c') demo_files p in
   status_of p = Some 200
   \<and> status_of (swap_next plain_features hup) = Some 502
   \<and> status_of (reload_once (demo_build c') demo_files p) = Some 200"
  by code_simp

text \<open>A reload opens a window without filter: when the new configuration replaces the
  plugin of a route, a request between the swaps of the plugins and of the configuration is
  routed by the old configuration, whose plugin is no longer in the cache, and passes
  unfiltered, though it is denied before the reload and after it.\<close>

lemma reload_window_disables_plugin:
  "let c = plain_config [(plain_route ''r'' [''a:1''])\<lparr>rc_plugin := Some ''old.wasm''\<rparr>];
       c' = plain_config [(plain_route ''r'' [''a:1''])\<lparr>rc_plugin := Some ''new.wasm''\<rparr>];
       p = demo_start c; hup = sighup (demo_build c') demo_files p in
   status_of p = Some 404
   \<and> status_of (swap_next plain_features (swap_next plain_features hup)) = Some 200
   \<and> status_of (reload_once (demo_build c') demo_files p) = Some 404"
  by code_simp

text \<open>Health outlives its probers: an upstream marked down stays down after a reload to a
  configuration without health checks, with no prober left that could ever mark it up.\<close>

lemma stale_health_survives_reload:
  "let hc = \<lparr>hk_path = None, hk_interval = None, hk_timeout = None\<rparr>;
       c = plain_config [(plain_route ''r'' [''a:1''])\<lparr>rc_health_check := Some hc\<rparr>];
       c' = plain_config [plain_route ''r'' [''a:1'']];
       p = demo_start c; pb = hd (ps_running p);
       down = p\<lparr>ps_world := (ps_world p)\<lparr>w_health :=
         prober_round (\<lambda>_ _ _. (0, None)) pb (w_health (ps_world p))\<rparr>\<rparr>;
       p' = reload_once (demo_build c') demo_files down in
   length (ps_running p) = 1 \<and> ps_running p' = [] \<and> \<not> is_healthy (w_health (ps_world p')) ''a:1''"
  by code_simp

end
