(* ===== verification/Tls.thy ===== *)
theory Tls
  imports Http_Api Plugin
begin

text \<open>
  \<open>tls.rs\<close> and \<open>acme.rs\<close>: building the TLS side of a listener and identifying its clients.
  rustls, rustls\_acme and the SHA-256 of ring are parameters; what is modelled is what the
  two files decide: which certificates are loaded, when client certificates are mandatory,
  which protocols are offered, and every way the construction fails.
\<close>

section \<open>Static certificates\<close>

datatype tls_error =
    OpenFailed string
  | ParseFailed string
  | NoCertificates string
  | KeyUnreadable string
  | NoPrivateKey string
  | NoCaCertificates string
  | RootRejected
  | VerifierFailed
  | CertRejected

record ('cert, 'key) tls_api =
  tl_open :: "string \<Rightarrow> string option"                 \<comment> \<open>\<open>File::open\<close> and reading it\<close>
  tl_certs :: "string \<Rightarrow> 'cert list option"            \<comment> \<open>\<open>rustls_pemfile::certs\<close>\<close>
  tl_private_key :: "string \<Rightarrow> 'key option option"     \<comment> \<open>\<open>rustls_pemfile::private_key\<close>\<close>
  tl_root_ok :: "'cert \<Rightarrow> bool"                        \<comment> \<open>\<open>RootCertStore::add\<close>\<close>
  tl_verifier_ok :: "'cert list \<Rightarrow> bool"               \<comment> \<open>\<open>WebPkiClientVerifier::build\<close>\<close>
  tl_pair_ok :: "'cert list \<Rightarrow> 'key \<Rightarrow> bool"           \<comment> \<open>\<open>with_single_cert\<close>\<close>

record ('cert, 'key) tls_acceptor =
  ta_certs :: "'cert list"
  ta_key :: 'key
  ta_client_roots :: "'cert list option"   \<comment> \<open>\<open>Some\<close>: client certificates are mandatory\<close>
  ta_alpn :: "string list"

definition ALPN :: "string list" where
  "ALPN = [''h2'', ''http/1.1'']"

definition read_certs :: "('cert, 'key) tls_api \<Rightarrow> string \<Rightarrow> tls_error + 'cert list" where
  "read_certs T path =
     and_then (ok_or (tl_open T path) (OpenFailed path)) (\<lambda>content.
     ok_or (tl_certs T content) (ParseFailed path))"

definition read_key :: "('cert, 'key) tls_api \<Rightarrow> string \<Rightarrow> tls_error + 'key" where
  "read_key T path =
     and_then (ok_or (tl_open T path) (OpenFailed path)) (\<lambda>content.
     and_then (ok_or (tl_private_key T content) (KeyUnreadable path)) (\<lambda>key.
     ok_or key (NoPrivateKey path)))"

definition client_roots :: "('cert, 'key) tls_api \<Rightarrow> string \<Rightarrow> tls_error + 'cert list" where
  "client_roots T ca_path =
     and_then (read_certs T ca_path) (\<lambda>ca_certs.
     and_then (require (ca_certs \<noteq> []) (NoCaCertificates ca_path)) (\<lambda>_.
     and_then (require (list_all (tl_root_ok T) ca_certs) RootRejected) (\<lambda>_.
     and_then (require (tl_verifier_ok T ca_certs) VerifierFailed) (\<lambda>_.
     Inr ca_certs))))"

definition load_tls_config ::
  "('cert, 'key) tls_api \<Rightarrow> string \<Rightarrow> string \<Rightarrow> string option
    \<Rightarrow> tls_error + ('cert, 'key) tls_acceptor" where
  "load_tls_config T cert_path key_path client_ca_path =
     and_then (read_certs T cert_path) (\<lambda>certs.
     and_then (require (certs \<noteq> []) (NoCertificates cert_path)) (\<lambda>_.
     and_then (read_key T key_path) (\<lambda>key.
     and_then (case client_ca_path of
          None \<Rightarrow> Inr None
        | Some ca_path \<Rightarrow> and_then (client_roots T ca_path) (\<lambda>roots. Inr (Some roots))) (\<lambda>roots.
     and_then (require (tl_pair_ok T certs key) CertRejected) (\<lambda>_.
     Inr \<lparr>ta_certs = certs, ta_key = key, ta_client_roots = roots, ta_alpn = ALPN\<rparr>)))))"

section \<open>Client fingerprints\<close>

definition hex_digit :: "nat \<Rightarrow> char" where
  "hex_digit n = (if n < 10 then char_of (48 + n) else char_of (87 + n))"

text \<open>\<open>format!("{:02x}")\<close> of a byte.\<close>

definition hex_byte :: "char \<Rightarrow> string" where
  "hex_byte b = [hex_digit (char_code b div 16), hex_digit (char_code b mod 16)]"

definition cert_fingerprint :: "(string \<Rightarrow> string) \<Rightarrow> string \<Rightarrow> string" where
  "cert_fingerprint sha256 der = concat (map hex_byte (sha256 der))"

lemma char_code_hex_digit:
  "n < 16 \<Longrightarrow> char_code (hex_digit n) = (if n < 10 then 48 + n else 87 + n)"
  by (simp add: hex_digit_def char_code_def take_bit_eq_mod)

lemma hex_digit_inject: 
  assumes bounds: "m < 16" "n < 16"
  shows "hex_digit m = hex_digit n \<longleftrightarrow> m = n"
proof
  assume eq: "hex_digit m = hex_digit n"
  have "(if m < 10 then 48 + m else 87 + m) = (if n < 10 then 48 + n else 87 + n)"
    using char_code_hex_digit [OF bounds(1)] char_code_hex_digit [OF bounds(2)] eq by argo
  then show "m = n" using bounds by (simp split: if_splits)
qed simp

lemma hex_byte_bounds: "char_code b div 16 < 16" "char_code b mod 16 < 16"
  using char_code_less [of b] by auto

lemma hex_byte_inject: "hex_byte a = hex_byte b \<longleftrightarrow> a = b"
proof
  assume "hex_byte a = hex_byte b"
  then have "char_code a div 16 = char_code b div 16" "char_code a mod 16 = char_code b mod 16"
    by (simp_all add: hex_byte_def hex_digit_inject hex_byte_bounds)
  then have "char_code a = char_code b" by (metis div_mult_mod_eq)
  then show "a = b" by (simp add: char_code_inject)
qed simp

lemma length_hex: "length (concat (map hex_byte bs)) = 2 * length bs"
  by (induction bs) (simp_all add: hex_byte_def)

lemma hex_inject: "concat (map hex_byte as) = concat (map hex_byte bs) \<longleftrightarrow> as = bs"
proof (induction as arbitrary: bs)
  case Nil
  then show ?case by (cases bs) (simp_all add: hex_byte_def)
next
  case (Cons a as)
  show ?case
  proof (cases bs)
    case (Cons b bs')
    have "length (hex_byte a) = length (hex_byte b)" by (simp add: hex_byte_def)
    then show ?thesis using Cons Cons.IH by (simp add: hex_byte_inject)
  qed (simp add: hex_byte_def)
qed

definition hex_char :: "char \<Rightarrow> bool" where
  "hex_char c = (c \<in> set ''0123456789abcdef'')"

lemma hex_digit_char: "n < 16 \<Longrightarrow> hex_char (hex_digit n)"
proof -
  have "list_all (\<lambda>n. hex_char (hex_digit n)) [0..<16]" by code_simp
  then show "n < 16 \<Longrightarrow> hex_char (hex_digit n)" by (simp add: list_all_iff)
qed

lemma hex_char_field: "hex_char c \<Longrightarrow> field_char c"
  by (auto simp: hex_char_def field_char_def char_code_def)

lemma fingerprint_hex: "list_all hex_char (cert_fingerprint sha256 der)"
  by (auto simp: cert_fingerprint_def hex_byte_def list_all_iff intro!: hex_digit_char hex_byte_bounds)

lemma fingerprint_field: "list_all field_char (cert_fingerprint sha256 der)"
  using fingerprint_hex [of sha256 der] by (auto simp: list_all_iff intro: hex_char_field)

section \<open>ACME\<close>

datatype acme_directory = DirectoryUrl string | LetsEncrypt bool   \<comment> \<open>production or staging\<close>

datatype acme_error = NoDomain | CaOpenFailed string | CaParseFailed string | CaEmpty string | CaRejected

record 'cert acme_handle =
  ah_domains :: "string list"
  ah_cache :: string
  ah_contacts :: "string list"
  ah_directory :: acme_directory
  ah_roots :: "'cert list option"
  ah_alpn :: "string list"

definition build_client_tls_config ::
  "('cert, 'key) tls_api \<Rightarrow> string \<Rightarrow> acme_error + 'cert list" where
  "build_client_tls_config T path =
     and_then (ok_or (tl_open T path) (CaOpenFailed path)) (\<lambda>content.
     and_then (ok_or (tl_certs T content) (CaParseFailed path)) (\<lambda>certs.
     and_then (require (certs \<noteq> []) (CaEmpty path)) (\<lambda>_.
     and_then (require (list_all (tl_root_ok T) certs) CaRejected) (\<lambda>_.
     Inr certs))))"

definition acme_build ::
  "('cert, 'key) tls_api \<Rightarrow> string list \<Rightarrow> string list \<Rightarrow> string \<Rightarrow> string option \<Rightarrow> bool
    \<Rightarrow> string option \<Rightarrow> acme_error + 'cert acme_handle" where
  "acme_build T domains contact_emails cache directory_url staging ca_cert_path =
     and_then (require (domains \<noteq> []) NoDomain) (\<lambda>_.
     and_then (case ca_cert_path of
          None \<Rightarrow> Inr None
        | Some path \<Rightarrow> and_then (build_client_tls_config T path) (\<lambda>roots. Inr (Some roots))) (\<lambda>roots.
     Inr \<lparr>ah_domains = domains, ah_cache = cache,
       ah_contacts = map (\<lambda>email. ''mailto:'' @ email) contact_emails,
       ah_directory = (case directory_url of Some url \<Rightarrow> DirectoryUrl url | None \<Rightarrow> LetsEncrypt (\<not> staging)),
       ah_roots = roots, ah_alpn = ALPN\<rparr>))"

text \<open>\<open>drive\<close>: every event of the certificate manager is logged, errors as warnings, until its
  stream ends; no event stops the loop.\<close>

datatype ('ok, 'err) acme_log = LogInfo 'ok | LogWarn 'err

fun acme_drive :: "('err + 'ok) list \<Rightarrow> ('ok, 'err) acme_log list" where
  "acme_drive [] = []"
| "acme_drive (Inr done # events) = LogInfo done # acme_drive events"
| "acme_drive (Inl e # events) = LogWarn e # acme_drive events"

lemma acme_drive_errors:
  "acme_drive (es @ Inl e # es') = acme_drive es @ LogWarn e # acme_drive es'"
  by (induction es rule: acme_drive.induct) simp_all

text \<open>\<open>accept\<close>: \<open>peek\<close> is the challenge-aware acceptor (\<open>None\<close>: an I/O error, \<open>Some None\<close>:
  validation traffic), \<open>finish\<close> the rest of the handshake with the negotiated protocol.\<close>

datatype acme_accepted = AcmeFailed | AcmeValidation | AcmeConn bool   \<comment> \<open>\<open>use_h2\<close>\<close>

definition acme_accept :: "'hs option option \<Rightarrow> ('hs \<Rightarrow> string option option) \<Rightarrow> acme_accepted" where
  "acme_accept peek finish =
     (case peek of
        None \<Rightarrow> AcmeFailed
      | Some None \<Rightarrow> AcmeValidation
      | Some (Some start) \<Rightarrow>
          (case finish start of None \<Rightarrow> AcmeFailed | Some alpn \<Rightarrow> AcmeConn (alpn = Some ''h2'')))"

section \<open>Properties\<close>

text \<open>C35 Client certificates are mandatory exactly when the listener names a client CA: a
  built acceptor then trusts the non-empty list of certificates of that file and nothing else,
  its own chain is not empty, and h2 is offered before HTTP/1.1.\<close>

theorem client_ca_makes_certificates_mandatory:
  assumes "load_tls_config T cert key ca = Inr acc"
  shows "(case ca of
        None \<Rightarrow> ta_client_roots acc = None
      | Some path \<Rightarrow> \<exists>roots. ta_client_roots acc = Some roots \<and> roots \<noteq> [] \<and> read_certs T path = Inr roots)
    \<and> ta_certs acc \<noteq> [] \<and> read_certs T cert = Inr (ta_certs acc) \<and> ta_alpn acc = [''h2'', ''http/1.1'']"
  using assms unfolding load_tls_config_def client_roots_def
  by (cases ca) (auto simp: ALPN_def)

definition demo_tls :: "(string, string) tls_api" where
  "demo_tls = \<lparr>tl_open = (\<lambda>p. Some p), tl_certs = (\<lambda>c. Some [c]), tl_private_key = (\<lambda>k. Some (Some k)),
     tl_root_ok = (\<lambda>_. True), tl_verifier_ok = (\<lambda>_. True), tl_pair_ok = (\<lambda>_ _. True)\<rparr>"

theorem client_ca_makes_certificates_mandatory_witness:
  "\<exists>acc roots. load_tls_config demo_tls ''c.pem'' ''k.pem'' (Some ''ca.pem'') = Inr acc
    \<and> ta_client_roots acc = Some roots \<and> roots \<noteq> []"
proof -
  obtain acc where acc: "load_tls_config demo_tls ''c.pem'' ''k.pem'' (Some ''ca.pem'') = Inr acc"
    by (simp add: load_tls_config_def read_certs_def read_key_def client_roots_def demo_tls_def
        and_then_def ok_or_def require_def)
  from client_ca_makes_certificates_mandatory [OF acc] acc show ?thesis by auto
qed

text \<open>C36 A fingerprint identifies the digest of the client's certificate and fits a header:
  64 lower-case hexadecimal digits, equal for two certificates exactly when their SHA-256
  digests are equal.\<close>

theorem fingerprint_identifies_digest:
  assumes "\<And>der. length (sha256 der) = 32"
  shows "length (cert_fingerprint sha256 der) = 64
    \<and> list_all (\<lambda>c. c \<in> set ''0123456789abcdef'') (cert_fingerprint sha256 der)
    \<and> (cert_fingerprint sha256 der = cert_fingerprint sha256 der' \<longleftrightarrow> sha256 der = sha256 der')"
  using assms fingerprint_hex [of sha256 der]
  by (simp add: cert_fingerprint_def length_hex hex_inject hex_char_def [abs_def])

theorem fingerprint_identifies_digest_witness:
  "length (cert_fingerprint (\<lambda>der. take 32 (der @ replicate 32 CHR ''x'')) ''cert'') = 64"
  using fingerprint_identifies_digest [of "\<lambda>der. take 32 (der @ replicate 32 CHR ''x'')" "''cert''" "''cert''"]
  by simp

end
