(* ===== verification/Monitoring.thy ===== *)
theory Monitoring
  imports Health
begin

text \<open>
  \<open>metrics.rs\<close> and \<open>serve_metrics\<close> of \<open>server.rs\<close>: the registry of metrics, and the reply of
  the monitoring endpoint to one connection.  Prometheus' registry refuses a second metric of
  the same name; its text encoder and the socket are parameters.
\<close>

section \<open>The metrics registry\<close>

datatype metric_kind = Counter | Histogram "nat list"   \<comment> \<open>bucket bounds in milliseconds\<close>

record metric_desc =
  md_name :: string
  md_help :: string
  md_kind :: metric_kind

definition register_metric :: "metric_desc list \<Rightarrow> metric_desc \<Rightarrow> metric_desc list option" where
  "register_metric reg m = (if list_ex (\<lambda>x. md_name x = md_name m) reg then None else Some (reg @ [m]))"

definition init_metrics :: "metric_desc list option" where
  "init_metrics =
     Option.bind (register_metric [] \<lparr>md_name = ''http_requests_total'',
        md_help = ''Total HTTP requests'', md_kind = Counter\<rparr>) (\<lambda>reg.
     Option.bind (register_metric reg \<lparr>md_name = ''http_request_duration_seconds'',
        md_help = ''Time from receiving a request to receiving upstream response headers'',
        md_kind = Histogram [1, 5, 10, 25, 50, 100, 250, 500, 1000, 2500, 5000, 10000]\<rparr>) (\<lambda>reg.
     register_metric reg \<lparr>md_name = ''upstream_connection_errors'',
        md_help = ''Upstream connection errors'', md_kind = Counter\<rparr>))"

section \<open>The endpoint\<close>

text \<open>\<open>str::lines().next()\<close>: up to the first line feed, without a carriage return before it.\<close>

definition first_line :: "string \<Rightarrow> string" where
  "first_line s =
     (let l = takeWhile (\<lambda>c. c \<noteq> CHR 0x0A) s in
      if l \<noteq> s \<and> l \<noteq> [] \<and> last l = CHR 0x0D then butlast l else l)"

definition request_path :: "string \<Rightarrow> string" where
  "request_path head =
     (case nth_opt 1 (split_whitespace (first_line head)) of None \<Rightarrow> ''/'' | Some p \<Rightarrow> p)"

definition http_reply :: "string \<Rightarrow> string \<Rightarrow> string \<Rightarrow> string" where
  "http_reply status content_type body =
     ''HTTP/1.1 '' @ status @ crlf @ ''Content-Type: '' @ content_type @ crlf @
     ''Content-Length: '' @ show_nat (length body) @ crlf @ ''Connection: close'' @ crlf @ crlf @ body"

text \<open>
  The reply to what one read of at most 1024 bytes returned (\<open>None\<close>: a timeout or an error);
  no reply means that the connection is closed.
\<close>

definition serve_metrics :: "string option \<Rightarrow> string option \<Rightarrow> string option" where
  "serve_metrics encoded received =
     (case received of
        None \<Rightarrow> None
      | Some bytes \<Rightarrow>
          (let head = take 1024 bytes in
           if head = [] then None
           else if starts_with (request_path head) ''/healthz''
           then Some (http_reply ''200 OK'' ''text/plain'' ''ok'')
           else (case encoded of
               None \<Rightarrow> None
             | Some text \<Rightarrow> Some (http_reply ''200 OK'' ''text/plain; version=0.0.4'' text))))"

section \<open>Reading a reply back\<close>

text \<open>The lines of a message head and the body after the empty line.\<close>

fun split_crlf :: "string \<Rightarrow> string \<Rightarrow> (string \<times> string) option" where
  "split_crlf cur (a # b # s) =
     (if a = CHR 0x0D \<and> b = CHR 0x0A then Some (rev cur, s) else split_crlf (a # cur) (b # s))"
| "split_crlf cur s = None"

lemma split_crlf_line: "CHR 0x0D \<notin> set l \<Longrightarrow> split_crlf cur (l @ crlf @ s) = Some (rev cur @ l, s)"
proof (induction l arbitrary: cur)
  case (Cons a l)
  show ?case
  proof (cases "l @ crlf @ s")
    case (Cons b t)
    then show ?thesis using Cons.IH [of "a # cur"] Cons.prems by auto
  qed (simp add: crlf_def)
qed (simp add: crlf_def)

fun read_head :: "nat \<Rightarrow> string \<Rightarrow> (string list \<times> string) option" where
  "read_head 0 s = None"
| "read_head (Suc n) s =
     (case split_crlf [] s of
        None \<Rightarrow> None
      | Some (line, rest) \<Rightarrow>
          if line = [] then Some ([], rest)
          else map_option (\<lambda>(ls, body). (line # ls, body)) (read_head n rest))"

lemma read_head_line:
  "CHR 0x0D \<notin> set l \<Longrightarrow> l \<noteq> [] \<Longrightarrow>
     read_head (Suc n) (l @ crlf @ s) = map_option (\<lambda>(ls, body). (l # ls, body)) (read_head n s)"
  by (simp add: split_crlf_line)

lemma read_head_end: "read_head (Suc n) (crlf @ s) = Some ([], s)"
  using split_crlf_line [of "[]" "[]" s] by simp

lemma show_nat_no_cr: "CHR 0x0D \<notin> set (show_nat n)"
  by (rule digit_ne [OF show_nat_digits]) (simp add: is_digit_def char_code_def)

lemma http_reply_lines:
  "http_reply status ctype body = (''HTTP/1.1 '' @ status) @ crlf @ (''Content-Type: '' @ ctype) @ crlf @
     (''Content-Length: '' @ show_nat (length body)) @ crlf @ ''Connection: close'' @ crlf @ crlf @ body"
  by (simp add: http_reply_def)

section \<open>Properties\<close>

text \<open>Start-up cannot fail on the metrics: the three metrics have different names, and all
  of them are registered.\<close>

lemma metrics_registration_succeeds:
  "map_option (map md_name) init_metrics =
     Some [''http_requests_total'', ''http_request_duration_seconds'', ''upstream_connection_errors'']"
  by code_simp

text \<open>C40 A reply of the monitoring endpoint is a well-formed HTTP message whatever the body
  holds: a client that reads the head line by line finds the status line, a content length
  that is the length of the body, and then exactly the body.\<close>

theorem monitoring_reply_round_trip:
  assumes "CHR 0x0D \<notin> set status" "CHR 0x0D \<notin> set ctype"
  shows "\<exists>n. read_head 5 (http_reply status ctype body) =
      Some ([''HTTP/1.1 '' @ status, ''Content-Type: '' @ ctype, ''Content-Length: '' @ n, ''Connection: close''], body)
    \<and> parse_unsigned (length body + 1) n = Some (length body)"
proof -
  have five: "(5::nat) = Suc (Suc (Suc (Suc (Suc 0))))" by simp
  have "read_head 5 (http_reply status ctype body) =
      Some ([''HTTP/1.1 '' @ status, ''Content-Type: '' @ ctype,
        ''Content-Length: '' @ show_nat (length body), ''Connection: close''], body)"
    unfolding http_reply_lines five
    by (subst read_head_line, use assms in \<open>simp add: show_nat_no_cr\<close>, simp)+ (simp only: read_head_end option.map prod.case)
  then show ?thesis by (auto simp: parse_show_nat)
qed

theorem monitoring_reply_round_trip_witness:
  "\<exists>n. read_head 5 (http_reply ''200 OK'' ''text/plain'' ''ok'') =
      Some ([''HTTP/1.1 200 OK'', ''Content-Type: text/plain'', ''Content-Length: '' @ n, ''Connection: close''], ''ok'')"
  using monitoring_reply_round_trip [of "''200 OK''" "''text/plain''" "''ok''"] by auto

text \<open>The health endpoint does not depend on the metrics: any path that starts with
  \<open>/healthz\<close> is answered \<open>ok\<close> even when the metrics cannot be encoded, and every other
  request is answered with the metrics.\<close>

lemma healthz_independent_of_metrics:
  assumes "received \<noteq> []"
  shows "serve_metrics encoded (Some received) =
    (if prefix ''/healthz'' (request_path (take 1024 received))
     then Some (http_reply ''200 OK'' ''text/plain'' ''ok'')
     else map_option (http_reply ''200 OK'' ''text/plain; version=0.0.4'') encoded)"
  using assms by (cases encoded) (simp_all add: serve_metrics_def starts_with_prefix)

lemma healthz_independent_of_metrics_example:
  "serve_metrics None (Some (''GET /healthz HTTP/1.1'' @ crlf @ crlf)) =
     Some (http_reply ''200 OK'' ''text/plain'' ''ok'')"
proof -
  have "prefix ''/healthz'' (request_path (take 1024 (''GET /healthz HTTP/1.1'' @ crlf @ crlf)))"
    unfolding starts_with_prefix [symmetric] by code_simp
  then show ?thesis
    using healthz_independent_of_metrics [of "''GET /healthz HTTP/1.1'' @ crlf @ crlf" None] by simp
qed

end
