(* ===== verification/Server.thy ===== *)
theory Server
  imports Reload Tls Monitoring Std_Net
begin

text \<open>
  The standalone process: \<open>main.rs\<close>, \<open>logging.rs\<close> and the second half of \<open>server.rs\<close>.
  \<open>main_start\<close> is everything up to "torana ready"; \<open>run_listener\<close> turns what a listener sees
  into connections; \<open>serve_connection\<close> passes a connection's requests to the engine.  Sockets
  and TLS handshakes are parameters.
\<close>

section \<open>Logging\<close>

datatype log_format = Json | Text

definition init_logging :: "string \<Rightarrow> string \<Rightarrow> log_format \<times> string" where
  "init_logging format level = (if format = ''json'' then Json else Text, level)"

definition init_logging_from_config :: "config \<Rightarrow> log_format \<times> string" where
  "init_logging_from_config c =
     (let log_level = (case gc_log_level (cfg_global c) of None \<Rightarrow> ''info'' | Some l \<Rightarrow> l);
          log_format = (case gc_log_format (cfg_global c) of None \<Rightarrow> ''json'' | Some f \<Rightarrow> f)
      in init_logging log_format log_level)"

section \<open>Starting listeners\<close>

datatype start_error =
    MetricsFailed
  | MetricsBind string
  | BadListenerAddr string
  | BindFailed string
  | AcmeFailure acme_error
  | TlsFailure tls_error
  | PanicUnreachable      \<comment> \<open>\<open>unreachable!("validated: acme requires --features acme")\<close>\<close>
  | PanicExpect           \<comment> \<open>\<open>expect("validated")\<close>\<close>

datatype ('cert, 'key) service =
    PlainHttp
  | StaticTls "('cert, 'key) tls_acceptor"
  | AcmeTls "'cert acme_handle"

definition acme_service ::
  "features \<Rightarrow> ('cert, 'key) tls_api \<Rightarrow> auto_tls_config \<Rightarrow> start_error + ('cert, 'key) service" where
  "acme_service F T a =
     (if \<not> feat_acme F then Inl PanicUnreachable
      else (case acme_build T (at_domains a)
          (case at_contact_emails a of None \<Rightarrow> [] | Some es \<Rightarrow> es) (cache_dir a)
          (at_directory_url a) (case at_staging a of None \<Rightarrow> False | Some b \<Rightarrow> b) (at_ca_cert a) of
          Inl e \<Rightarrow> Inl (AcmeFailure e)
        | Inr h \<Rightarrow> Inr (AcmeTls h)))"

definition start_listener ::
  "features \<Rightarrow> ('cert, 'key) tls_api \<Rightarrow> (string \<Rightarrow> bool) \<Rightarrow> listener_config
    \<Rightarrow> start_error + string \<times> ('cert, 'key) service" where
  "start_listener F T can_bind l =
     (if \<not> parse_socket_addr (lc_addr l) then Inl (BadListenerAddr (lc_addr l))
      else if \<not> can_bind (lc_addr l) then Inl (BindFailed (lc_addr l))
      else and_then
        (case lc_acme l of
           Some a \<Rightarrow> acme_service F T a
         | None \<Rightarrow>
             if lc_protocol l = ''https'' then
               (case (lc_tls_cert l, lc_tls_key l) of
                  (Some cert, Some key) \<Rightarrow>
                    (case load_tls_config T cert key (lc_tls_client_ca l) of
                       Inl e \<Rightarrow> Inl (TlsFailure e)
                     | Inr acc \<Rightarrow> Inr (StaticTls acc))
                | _ \<Rightarrow> Inl PanicExpect)
             else Inr PlainHttp)
        (\<lambda>service. Inr (lc_addr l, service)))"

fun start_listeners ::
  "(listener_config \<Rightarrow> start_error + 'l) \<Rightarrow> listener_config list \<Rightarrow> start_error + 'l list" where
  "start_listeners start [] = Inr []"
| "start_listeners start (l # ls) =
     and_then (start l) (\<lambda>x. and_then (start_listeners start ls) (\<lambda>xs. Inr (x # xs)))"

section \<open>Starting the process\<close>

record ('md, 'cert, 'key) server =
  sr_process :: "'md process"
  sr_metrics_addr :: string
  sr_listeners :: "(string \<times> ('cert, 'key) service) list"

definition metrics_addr_of :: "config \<Rightarrow> string" where
  "metrics_addr_of c = (case gc_metrics_addr (cfg_global c) of None \<Rightarrow> ''127.0.0.1:9090'' | Some a \<Rightarrow> a)"

definition zero_metrics :: metrics where
  "zero_metrics = \<lparr>mt_requests = 0, mt_durations = [], mt_errors = 0\<rparr>"

definition server_run ::
  "('m, 'md, 'st) build \<Rightarrow> ('cert, 'key) tls_api \<Rightarrow> (string \<Rightarrow> bool) \<Rightarrow> file_system \<Rightarrow> config
    \<Rightarrow> start_error + ('md, 'cert, 'key) server" where
  "server_run B T can_bind fs c =
     and_then (ok_or init_metrics MetricsFailed) (\<lambda>_.
     (let p = process_start B (fs_bytes fs) c zero_metrics; addr = metrics_addr_of c in
      and_then (require (can_bind addr) (MetricsBind addr)) (\<lambda>_.
      and_then (start_listeners (start_listener (bd_features B) T can_bind) (cfg_listener c)) (\<lambda>ls.
      Inr \<lparr>sr_process = p, sr_metrics_addr = addr, sr_listeners = ls\<rparr>))))"

datatype main_error = ConfigUnloadable load_error | ConfigInvalid config_error | StartFailed start_error

definition main_start ::
  "('m, 'md, 'st) build \<Rightarrow> ('cert, 'key) tls_api \<Rightarrow> (string \<Rightarrow> bool) \<Rightarrow> file_system
    \<Rightarrow> main_error + (log_format \<times> string) \<times> ('md, 'cert, 'key) server" where
  "main_start B T can_bind fs =
     (case load_config (fs_text fs) (bd_toml B) (bd_path B) of
        Inl e \<Rightarrow> Inl (ConfigUnloadable e)
      | Inr c \<Rightarrow>
          (let logging = init_logging_from_config c in
           case snd (validate (bd_http B) (bd_features B) c) of
             Some e \<Rightarrow> Inl (ConfigInvalid e)
           | None \<Rightarrow>
               (case server_run B T can_bind fs c of
                  Inl e \<Rightarrow> Inl (StartFailed e)
                | Inr s \<Rightarrow> Inr (logging, s))))"

section \<open>Accepting connections\<close>

text \<open>What a listener sees: the results of \<open>accept\<close> (a failed one is retried after 10 ms) and
  the shutdown signal.  \<open>None\<close> of the result: the loop is still running.\<close>

datatype listener_event = Accepted socket_addr | AcceptError | ShutdownSeen

fun run_listener :: "listener_event list \<Rightarrow> socket_addr list \<times> bool" where
  "run_listener [] = ([], True)"
| "run_listener (Accepted addr # es) = (let (ps, alive) = run_listener es in (addr # ps, alive))"
| "run_listener (AcceptError # es) = run_listener es"
| "run_listener (ShutdownSeen # es) = ([], False)"

text \<open>A finished TLS handshake: the certificate chain the client presented, if the listener
  asked for one, and the negotiated protocol.\<close>

record session =
  ss_peer_certs :: "string list option"
  ss_alpn :: "string option"

definition tls_connection :: "(string \<Rightarrow> string) \<Rightarrow> socket_addr \<Rightarrow> session \<Rightarrow> connection \<times> bool" where
  "tls_connection sha256 peer_addr s =
     (\<lparr>cn_addr = peer_addr, cn_proto = ''https'',
        cn_fingerprint = map_option (cert_fingerprint sha256)
          (Option.bind (ss_peer_certs s) (\<lambda>certs. nth_opt 0 certs))\<rparr>,
      ss_alpn s = Some ''h2'')"

definition plain_connection :: "socket_addr \<Rightarrow> connection \<times> bool" where
  "plain_connection peer_addr =
     (\<lparr>cn_addr = peer_addr, cn_proto = ''http'', cn_fingerprint = None\<rparr>, False)"

definition acme_connection :: "socket_addr \<Rightarrow> acme_accepted \<Rightarrow> (connection \<times> bool) option" where
  "acme_connection peer_addr a = (case a of
      AcmeConn use_h2 \<Rightarrow> Some (\<lparr>cn_addr = peer_addr, cn_proto = ''https'', cn_fingerprint = None\<rparr>, use_h2)
    | AcmeValidation \<Rightarrow> None
    | AcmeFailed \<Rightarrow> None)"

text \<open>The connection a listener's service hands to \<open>serve_connection\<close>: \<open>hs\<close> is the outcome of
  a static-certificate handshake, \<open>acme\<close> that of an ACME-managed one.\<close>

definition open_connection ::
  "(string \<Rightarrow> string) \<Rightarrow> ('cert, 'key) service \<Rightarrow> socket_addr \<Rightarrow> session option \<Rightarrow> acme_accepted
    \<Rightarrow> (connection \<times> bool) option" where
  "open_connection sha256 service peer_addr hs acme = (case service of
      PlainHttp \<Rightarrow> Some (plain_connection peer_addr)
    | StaticTls _ \<Rightarrow> map_option (tls_connection sha256 peer_addr) hs
    | AcmeTls _ \<Rightarrow> acme_connection peer_addr acme)"

text \<open>The requests of a connection, each with the environment it runs in.\<close>

fun serve_connection ::
  "connection \<Rightarrow> (('m, 'md, 'st) env \<times> 'm parts \<times> incoming) list \<Rightarrow> 'md world
    \<Rightarrow> 'm response option list \<times> 'md world" where
  "serve_connection conn [] w = ([], w)"
| "serve_connection conn ((env, parts, body) # reqs) w =
     (let out = handle env parts body conn w;
          (replies, w') = serve_connection conn reqs (oc_world out)
      in (oc_reply out # replies, w'))"

section \<open>Facts\<close>

lemma init_metrics_Some: "\<exists>reg. init_metrics = Some reg"
  by (simp add: init_metrics_def register_metric_def)

lemma and_then_Inl: "and_then r f = Inl e \<longleftrightarrow> r = Inl e \<or> (\<exists>a. r = Inr a \<and> f a = Inl e)"
  by (cases r) (simp_all add: and_then_def)

lemma ok_or_Inl: "ok_or x e = Inl e' \<longleftrightarrow> x = None \<and> e' = e"
  by (auto simp: ok_or_def split: option.splits)

lemma require_Inl: "require b e = Inl e' \<longleftrightarrow> \<not> b \<and> e' = e"
  by (auto simp: require_def)

lemma start_listeners_Inl:
  "start_listeners start ls = Inl e \<Longrightarrow> \<exists>l\<in>set ls. start l = Inl e"
  by (induction ls) (auto simp: and_then_Inl)

lemma start_listeners_Inr:
  "start_listeners start ls = Inr xs \<Longrightarrow> list_all2 (\<lambda>l x. start l = Inr x) ls xs"
  by (induction ls arbitrary: xs) auto

lemma valid_listener_starts:
  assumes "valid_listener H F l" "start_listener F T can_bind l = Inl e"
  shows "e \<notin> {PanicUnreachable, PanicExpect, MetricsFailed} \<and> (\<forall>a. e \<noteq> BadListenerAddr a \<and> e \<noteq> MetricsBind a)"
  using assms
  by (auto simp: start_listener_def valid_listener_def acme_service_def and_then_Inl
      split: if_splits option.splits sum.splits)

text \<open>The service of a listener is the one its configuration asks for.\<close>

definition service_matches :: "listener_config \<Rightarrow> string \<times> ('cert, 'key) service \<Rightarrow> bool" where
  "service_matches l x \<longleftrightarrow> fst x = lc_addr l \<and>
     (case snd x of
        PlainHttp \<Rightarrow> lc_protocol l = ''http'' \<and> lc_acme l = None
      | StaticTls acc \<Rightarrow> lc_protocol l = ''https'' \<and> lc_acme l = None
          \<and> (ta_client_roots acc = None \<longleftrightarrow> lc_tls_client_ca l = None) \<and> ta_certs acc \<noteq> []
      | AcmeTls h \<Rightarrow> lc_protocol l = ''https'' \<and> lc_tls_client_ca l = None
          \<and> map_option at_domains (lc_acme l) = Some (ah_domains h) \<and> ah_domains h \<noteq> [])"

lemma load_tls_config_facts:
  "load_tls_config T cert key ca = Inr acc \<Longrightarrow>
     (ta_client_roots acc = None \<longleftrightarrow> ca = None) \<and> ta_certs acc \<noteq> []"
  by (cases ca) (auto simp: load_tls_config_def)

lemma acme_build_facts:
  "acme_build T ds es dir url st ca = Inr h \<Longrightarrow> ah_domains h = ds \<and> ds \<noteq> []"
  by (cases ca) (auto simp: acme_build_def)

lemma start_listener_matches:
  assumes "valid_listener H F l" "start_listener F T can_bind l = Inr x"
  shows "service_matches l x"
  using assms
  by (auto simp: start_listener_def valid_listener_def service_matches_def acme_service_def
      dest!: load_tls_config_facts acme_build_facts split: if_splits option.splits sum.splits)

lemma server_run_Inl:
  assumes "server_run B T can_bind fs c = Inl e"
  shows "(\<exists>a. e = MetricsBind a) \<or> (\<exists>l\<in>set (cfg_listener c). start_listener (bd_features B) T can_bind l = Inl e)"
  using assms init_metrics_Some
  by (auto simp: server_run_def and_then_Inl ok_or_Inl require_Inl Let_def dest: start_listeners_Inl)

lemma main_start_InrD:
  assumes "main_start B T can_bind fs = Inr (logging, s)"
  obtains c where "load_config (fs_text fs) (bd_toml B) (bd_path B) = Inr c"
    "accepts (bd_http B) (bd_features B) c" "logging = init_logging_from_config c"
    "server_run B T can_bind fs c = Inr s"
  using assms by (auto simp: main_start_def accepts_def Let_def split: sum.splits option.splits)

lemma server_run_InrD:
  assumes "server_run B T can_bind fs c = Inr s"
  shows "sr_process s = process_start B (fs_bytes fs) c zero_metrics"
    "list_all2 (\<lambda>l x. start_listener (bd_features B) T can_bind l = Inr x) (cfg_listener c) (sr_listeners s)"
    "can_bind (sr_metrics_addr s)"
  using assms by (auto simp: server_run_def Let_def dest: start_listeners_Inr)

lemma server_run_matches:
  assumes "accepts (bd_http B) (bd_features B) c" "server_run B T can_bind fs c = Inr s"
  shows "list_all2 service_matches (cfg_listener c) (sr_listeners s)"
  using server_run_InrD(2) [OF assms(2)]
proof (rule list.rel_mono_strong)
  fix l x
  assume "l \<in> set (cfg_listener c)" "start_listener (bd_features B) T can_bind l = Inr x"
  with assms(1) show "service_matches l x"
    by (auto intro: start_listener_matches simp: accepts_iff_valid valid_config_def)
qed

lemma open_connection_fingerprint:
  assumes "open_connection sha256 service a hs acme = Some (conn, h2)" "cn_fingerprint conn = Some fp"
  shows "list_all field_char fp"
  using assms fingerprint_field [of sha256]
  by (auto simp: open_connection_def tls_connection_def plain_connection_def acme_connection_def
      split: service.splits acme_accepted.splits)

lemma connection_fingerprint_ok:
  assumes "header_map H" "open_connection sha256 service a hs acme = Some (conn, h2)"
  shows "fingerprint_ok H conn"
  using open_connection_fingerprint [OF assms(2)] header_map.header_value_accepts [OF assms(1)]
  by (auto simp: fingerprint_ok_def split: option.splits)

section \<open>Properties\<close>

text \<open>C15 Validation covers what start-up takes for granted: whatever the configuration file
  holds and whichever sockets and certificates are usable, the process never reaches the
  \<open>unreachable!\<close> and \<open>expect("validated")\<close> of \<open>Server::run\<close>, never fails to parse a listener
  address there, and never fails to register its metrics.\<close>

theorem startup_never_panics:
  "case main_start B T can_bind fs of
      Inl (StartFailed e) \<Rightarrow> (case e of
          MetricsBind _ \<Rightarrow> True | BindFailed _ \<Rightarrow> True | AcmeFailure _ \<Rightarrow> True | TlsFailure _ \<Rightarrow> True
        | MetricsFailed \<Rightarrow> False | BadListenerAddr _ \<Rightarrow> False | PanicUnreachable \<Rightarrow> False | PanicExpect \<Rightarrow> False)
    | Inl (ConfigUnloadable _) \<Rightarrow> True
    | Inl (ConfigInvalid _) \<Rightarrow> True
    | Inr _ \<Rightarrow> True"
proof -
  have "(\<exists>a. e = MetricsBind a) \<or> e \<notin> {PanicUnreachable, PanicExpect, MetricsFailed} \<and> (\<forall>a. e \<noteq> BadListenerAddr a)"
    if main: "main_start B T can_bind fs = Inl (StartFailed e)" for e
  proof -
    obtain c where acc: "accepts (bd_http B) (bd_features B) c" and run: "server_run B T can_bind fs c = Inl e"
      using main by (auto simp: main_start_def accepts_def Let_def split: sum.splits option.splits)
    have "valid_listener (bd_http B) (bd_features B) l" if "l \<in> set (cfg_listener c)" for l
      using acc that by (simp add: accepts_iff_valid valid_config_def)
    with server_run_Inl [OF run] valid_listener_starts show ?thesis by blast
  qed
  then show ?thesis
    by (auto split: sum.splits main_error.splits start_error.splits)
qed

text \<open>C16 A started process serves its configuration: the file's configuration was accepted, the
  engine runs it, and every listener of it is served, in order, at its address and in its
  mode; client certificates are mandatory exactly where a client CA is configured, and never
  on plain or ACME listeners.\<close>

theorem started_process_serves_config:
  assumes "main_start B T can_bind fs = Inr (logging, s)"
  shows "\<exists>c. load_config (fs_text fs) (bd_toml B) (bd_path B) = Inr c
    \<and> accepts (bd_http B) (bd_features B) c
    \<and> w_config (ps_world (sr_process s)) = c
    \<and> list_all2 service_matches (cfg_listener c) (sr_listeners s)"
proof -
  obtain c where c: "load_config (fs_text fs) (bd_toml B) (bd_path B) = Inr c"
    "accepts (bd_http B) (bd_features B) c" "server_run B T can_bind fs c = Inr s"
    using assms by (rule main_start_InrD)
  with server_run_matches [OF c(2,3)] server_run_InrD(1) [OF c(3)] show ?thesis
    by (intro exI [of _ c]) (simp add: engine_new_def)
qed

text \<open>A host where every socket binds, and a configuration file with one plain listener.\<close>

definition demo_config :: config where
  "demo_config = plain_config [plain_route ''r'' [''a:1'']]"

theorem started_process_serves_config_witness:
  "\<exists>logging s. main_start (demo_build demo_config) demo_tls (\<lambda>_. True) demo_files = Inr (logging, s)
    \<and> length (sr_listeners s) = 1"
proof -
  have acc: "snd (validate std_http plain_features demo_config) = None" by code_simp
  have listeners: "cfg_listener demo_config = [\<lparr>lc_addr = ''127.0.0.1:8080'', lc_protocol = ''http'',
      lc_tls_cert = None, lc_tls_key = None, lc_tls_client_ca = None, lc_acme = None\<rparr>]"
    by (simp add: demo_config_def plain_config_def)
  have addr: "parse_socket_addr ''127.0.0.1:8080''" by code_simp
  obtain reg where reg: "init_metrics = Some reg" using init_metrics_Some by blast
  have sl: "start_listeners (start_listener plain_features demo_tls (\<lambda>_. True)) (cfg_listener demo_config)
      = Inr [(''127.0.0.1:8080'', PlainHttp)]"
    by (simp add: listeners start_listener_def addr and_then_def)
  have F: "bd_features (demo_build demo_config) = plain_features" "bd_http (demo_build demo_config) = std_http"
    by (simp_all add: demo_build_def)
  have l: "load_config (fs_text demo_files) (bd_toml (demo_build demo_config)) (bd_path (demo_build demo_config))
      = Inr demo_config"
    by (simp add: load_config_def demo_files_def demo_build_def)
  obtain s where run: "server_run (demo_build demo_config) demo_tls (\<lambda>_. True) demo_files demo_config = Inr s"
    by (simp add: server_run_def reg ok_or_def and_then_def require_def F sl Let_def)
  have start: "main_start (demo_build demo_config) demo_tls (\<lambda>_. True) demo_files
      = Inr (init_logging_from_config demo_config, s)"
    by (simp add: main_start_def l F acc run)
  from started_process_serves_config [OF start] l
  have "length (sr_listeners s) = length (cfg_listener demo_config)"
    by (auto dest: list_all2_lengthD)
  with start listeners show ?thesis by auto
qed

text \<open>A listener serves every connection it accepts before it sees the shutdown signal, in
  order, and stops accepting then; failed accepts are skipped.\<close>

lemma listener_serves_until_shutdown:
  "run_listener es =
     (concat (map (\<lambda>e. case e of Accepted a \<Rightarrow> [a] | _ \<Rightarrow> []) (takeWhile (\<lambda>e. e \<noteq> ShutdownSeen) es)),
      \<not> List.member es ShutdownSeen)"
  by (induction es rule: run_listener.induct) (auto simp: Let_def)

text \<open>The identity and protocol a request is handled with are those of its connection: a
  fingerprint exists only on a TLS connection of a static-certificate listener whose client
  presented a chain, and is that of the chain's first certificate; the protocol is \<open>http\<close>
  exactly on plain listeners, which never speak HTTP/2.\<close>

lemma connection_identity:
  assumes "open_connection sha256 service a hs acme = Some (conn, h2)"
  shows "cn_addr conn = a
    \<and> cn_fingerprint conn = (case service of
        StaticTls _ \<Rightarrow> (case Option.bind hs ss_peer_certs of
            Some (c # cs) \<Rightarrow> Some (cert_fingerprint sha256 c) | _ \<Rightarrow> None)
      | _ \<Rightarrow> None)
    \<and> (case service of PlainHttp \<Rightarrow> cn_proto conn = ''http'' \<and> \<not> h2 | _ \<Rightarrow> cn_proto conn = ''https'')"
proof (cases service)
  case (StaticTls acc)
  with assms obtain ss where hs: "hs = Some ss" "(conn, h2) = tls_connection sha256 a ss"
    by (auto simp: open_connection_def)
  obtain certs alpn where ss: "ss = \<lparr>ss_peer_certs = certs, ss_alpn = alpn\<rparr>" by (cases ss)
  have "nth_opt 0 cs = (case cs of [] \<Rightarrow> None | c # _ \<Rightarrow> Some c)" for cs :: "string list"
    by (cases cs) simp_all
  with hs ss StaticTls show ?thesis
    by (auto simp: tls_connection_def split: option.splits list.splits)
qed (use assms in \<open>auto simp: open_connection_def plain_connection_def acme_connection_def
    split: acme_accepted.splits\<close>)

lemma connection_identity_example:
  "\<exists>conn. open_connection (\<lambda>d. d) (StaticTls \<lparr>ta_certs = [''s''], ta_key = ''k'', ta_client_roots = Some [''ca''], ta_alpn = ALPN\<rparr>)
      \<lparr>ip_text = ''10.0.0.1'', port_num = 5\<rparr>
      (Some \<lparr>ss_peer_certs = Some [''AB'', ''ca''], ss_alpn = Some ''h2''\<rparr>) AcmeFailed = Some (conn, True)
    \<and> cn_fingerprint conn = Some ''4142''"
proof -
  let ?svc = "StaticTls \<lparr>ta_certs = [''s''], ta_key = ''k'', ta_client_roots = Some [''ca''], ta_alpn = ALPN\<rparr>"
  let ?hs = "Some \<lparr>ss_peer_certs = Some [''AB'', ''ca''], ss_alpn = Some ''h2''\<rparr>"
  have "snd (the (open_connection (\<lambda>d. d) ?svc \<lparr>ip_text = ''10.0.0.1'', port_num = 5\<rparr> ?hs AcmeFailed))"
    by (simp add: open_connection_def tls_connection_def)
  moreover have "open_connection (\<lambda>d. d) ?svc \<lparr>ip_text = ''10.0.0.1'', port_num = 5\<rparr> ?hs AcmeFailed \<noteq> None"
    by (simp add: open_connection_def)
  ultimately obtain conn where c: "open_connection (\<lambda>d. d) ?svc \<lparr>ip_text = ''10.0.0.1'', port_num = 5\<rparr> ?hs AcmeFailed
      = Some (conn, True)" by (cases "open_connection (\<lambda>d. d) ?svc \<lparr>ip_text = ''10.0.0.1'', port_num = 5\<rparr> ?hs AcmeFailed") auto
  from connection_identity [OF c] have "cn_fingerprint conn = Some (cert_fingerprint (\<lambda>d. d) ''AB'')" by simp
  moreover have "cert_fingerprint (\<lambda>d. d) ''AB'' = ''4142''" by code_simp
  ultimately show ?thesis using c by simp
qed

text \<open>Every request of every connection is answered: whatever the listener's mode, the
  client's certificate and the state of the upstreams, the tasks of a connection never panic
  and produce exactly one reply for each request.\<close>

lemma every_request_is_answered:
  assumes "open_connection sha256 service a hs acme = Some (conn, h2)"
    and "list_all (\<lambda>(env, _, _). header_map (env_http env)) reqs"
  shows "length (fst (serve_connection conn reqs w)) = length reqs
    \<and> list_all (\<lambda>reply. reply \<noteq> None) (fst (serve_connection conn reqs w))"
  using assms(2)
proof (induction reqs arbitrary: w)
  case (Cons req reqs)
  obtain env parts body where req: "req = (env, parts, body)" by (cases req)
  have "header_map (env_http env)" using Cons.prems req by simp
  then have "oc_reply (handle env parts body conn w) \<noteq> None"
    using assms(1) by (intro handle_no_panic connection_fingerprint_ok)
  with Cons.IH [of "oc_world (handle env parts body conn w)"] Cons.prems req show ?case
    by (auto simp: Let_def split: prod.splits)
qed simp

lemma every_request_is_answered_example:
  "length (fst (serve_connection (fst (plain_connection \<lparr>ip_text = ''10.0.0.1'', port_num = 5\<rparr>))
      [(plain_env second_answers, get_parts [], no_body)]
      (plain_world [plain_route ''r'' [''a:1'']]))) = 1"
proof -
  have c: "open_connection (\<lambda>d. d) (PlainHttp :: (string, string) service) \<lparr>ip_text = ''10.0.0.1'', port_num = 5\<rparr> None AcmeFailed
      = Some (fst (plain_connection \<lparr>ip_text = ''10.0.0.1'', port_num = 5\<rparr>), False)"
    by (simp add: open_connection_def plain_connection_def)
  show ?thesis
    using every_request_is_answered [OF c, of "[(plain_env second_answers, get_parts [], no_body)]"
        "plain_world [plain_route ''r'' [''a:1'']]"]
    by (simp add: plain_env_def header_map_std)
qed

end
