(* ===== verification/Drain.thy ===== *)
theory Drain
  imports Torana_Prelude Transition
begin

text \<open>
  Graceful shutdown in \<open>server.rs\<close>: the end of \<open>Server::run\<close> together with the tasks it waits
  for.  Every task holds clones of one \<open>Arc<()>\<close>, and the drain loop polls its strong count.
  The state counts the tasks; \<open>strong_count\<close> counts the clones they hold: a listener its
  \<open>ConnHandler\<close>, a connection in its TLS handshake the handler it was given, and a served
  connection that handler and the guard of \<open>serve_connection\<close>.
\<close>

section \<open>The state\<close>

datatype phase =
    Running
  | Draining nat nat      \<comment> \<open>milliseconds since the signal, polls made\<close>
  | Stopped nat           \<comment> \<open>the \<open>leftover\<close> logged\<close>

record server_state =
  sv_phase :: phase
  sv_listeners :: nat
  sv_handshakes :: nat
  sv_connections :: nat

definition DRAIN_TIMEOUT :: nat where
  "DRAIN_TIMEOUT = 15000"

definition POLL_INTERVAL :: nat where
  "POLL_INTERVAL = 50"

definition baseline :: nat where
  "baseline = 1"

text \<open>While serving, \<open>run\<close> holds one handler; while draining, the \<open>tracker\<close>.\<close>

definition strong_count :: "server_state \<Rightarrow> nat" where
  "strong_count s = 1 + sv_listeners s + sv_handshakes s + 2 * sv_connections s"

definition shutting_down :: "server_state \<Rightarrow> bool" where
  "shutting_down s = (sv_phase s \<noteq> Running)"

section \<open>Steps\<close>

text \<open>
  The tasks: a listener accepts until it has seen the shutdown signal, which it does at a time
  of its own choosing (\<open>select!\<close> may prefer a waiting connection).  A plain connection is
  served at once, as if its handshake succeeded immediately.
\<close>

inductive task_step :: "server_state \<Rightarrow> server_state \<Rightarrow> bool" where
  accept: "0 < sv_listeners s \<Longrightarrow> task_step s (s\<lparr>sv_handshakes := sv_handshakes s + 1\<rparr>)"
| handshake_failed: "0 < sv_handshakes s \<Longrightarrow>
    task_step s (s\<lparr>sv_handshakes := sv_handshakes s - 1\<rparr>)"
| serve: "0 < sv_handshakes s \<Longrightarrow>
    task_step s (s\<lparr>sv_handshakes := sv_handshakes s - 1, sv_connections := sv_connections s + 1\<rparr>)"
| close: "0 < sv_connections s \<Longrightarrow> task_step s (s\<lparr>sv_connections := sv_connections s - 1\<rparr>)"
| stop_listening: "shutting_down s \<Longrightarrow> 0 < sv_listeners s \<Longrightarrow>
    task_step s (s\<lparr>sv_listeners := sv_listeners s - 1\<rparr>)"

text \<open>
  The end of \<open>run\<close>: the signal, one round of the drain loop (its sleep may take longer than
  asked), and the end of the loop.
\<close>

inductive drain_step :: "server_state \<Rightarrow> server_state \<Rightarrow> bool" where
  signal: "sv_phase s = Running \<Longrightarrow> drain_step s (s\<lparr>sv_phase := Draining 0 0\<rparr>)"
| poll: "sv_phase s = Draining t n \<Longrightarrow> baseline < strong_count s \<Longrightarrow> t < DRAIN_TIMEOUT \<Longrightarrow>
    POLL_INTERVAL \<le> d \<Longrightarrow> drain_step s (s\<lparr>sv_phase := Draining (t + d) (n + 1)\<rparr>)"
| stop: "sv_phase s = Draining t n \<Longrightarrow> \<not> (baseline < strong_count s \<and> t < DRAIN_TIMEOUT) \<Longrightarrow>
    drain_step s (s\<lparr>sv_phase := Stopped (strong_count s - baseline)\<rparr>)"

inductive_cases task_stepE: "task_step s s'"
inductive_cases drain_stepE: "drain_step s s'"

definition server_step :: "server_state \<Rightarrow> server_state \<Rightarrow> bool" where
  "server_step s s' = (task_step s s' \<or> drain_step s s')"

lemma task_step_phase: "task_step s s' \<Longrightarrow> sv_phase s' = sv_phase s"
  by (auto elim: task_stepE)

lemma server_stepI: "drain_step s s' \<Longrightarrow> server_step s s'"
  by (simp add: server_step_def)

definition started :: "nat \<Rightarrow> server_state" where
  "started n = \<lparr>sv_phase = Running, sv_listeners = n, sv_handshakes = 0, sv_connections = 0\<rparr>"

section \<open>Invariants\<close>

definition drain_inv :: "server_state \<Rightarrow> bool" where
  "drain_inv s = (case sv_phase s of
      Running \<Rightarrow> True
    | Draining t n \<Rightarrow> POLL_INTERVAL * n \<le> t \<and> n \<le> DRAIN_TIMEOUT div POLL_INTERVAL
    | Stopped _ \<Rightarrow> True)"

lemma drain_inv_step: "server_step s s' \<Longrightarrow> drain_inv s \<Longrightarrow> drain_inv s'"
  unfolding server_step_def
proof (elim disjE)
  assume "task_step s s'" "drain_inv s"
  then show "drain_inv s'" by (simp add: drain_inv_def task_step_phase)
next
  assume "drain_step s s'" "drain_inv s"
  then show "drain_inv s'"
    by (auto elim!: drain_stepE simp: drain_inv_def DRAIN_TIMEOUT_def POLL_INTERVAL_def)
qed

interpretation shutdown: invariant_system "\<lambda>s. \<exists>n. s = started n" server_step drain_inv
  by unfold_locales (fastforce simp: drain_inv_def started_def, blast intro: drain_inv_step)

lemma stop_step:
  assumes "server_step s s'" "sv_phase s' = Stopped k" "sv_phase s \<noteq> Stopped k"
  shows "\<exists>t n. sv_phase s = Draining t n \<and> s' = s\<lparr>sv_phase := Stopped k\<rparr>
    \<and> k = strong_count s - baseline \<and> \<not> (baseline < strong_count s \<and> t < DRAIN_TIMEOUT)"
  using assms by (auto simp: server_step_def dest: task_step_phase elim: drain_stepE)

section \<open>Properties\<close>

text \<open>Graceful shutdown waits for every task: the server stops before its 15 seconds are over
  only when no listener, handshake or connection is left.\<close>

lemma early_stop_means_drained:
  assumes "server_step s s'" "sv_phase s = Draining t n" "sv_phase s' = Stopped k" "t < 15000"
  shows "sv_listeners s = 0 \<and> sv_handshakes s = 0 \<and> sv_connections s = 0 \<and> k = 0"
  using stop_step [OF assms(1,3)] assms(2,4)
  by (auto simp: strong_count_def baseline_def DRAIN_TIMEOUT_def)

lemma early_stop_means_drained_example:
  "\<exists>s'. server_step ((started 0)\<lparr>sv_phase := Draining 50 1\<rparr>) s' \<and> sv_phase s' = Stopped 0"
proof -
  let ?s = "(started 0)\<lparr>sv_phase := Draining 50 1\<rparr>"
  have ph: "sv_phase ?s = Draining 50 1" by simp
  have "\<not> (baseline < strong_count ?s \<and> 50 < DRAIN_TIMEOUT)"
    by (simp add: started_def strong_count_def baseline_def)
  note step = server_stepI [OF drain_step.stop [OF ph this]]
  have k: "sv_phase (?s\<lparr>sv_phase := Stopped (strong_count ?s - baseline)\<rparr>) = Stopped (strong_count ?s - baseline)"
    by simp
  from early_stop_means_drained [OF step ph k] have "strong_count ?s - baseline = 0" by simp
  with step show ?thesis by fastforce
qed

text \<open>Shutdown is bounded: from start-up on, however connections come and go and however
  long the sleeps take, the drain loop has made at most 300 polls, 50 ms or more apart, and a
  draining server can always poll again or stop.\<close>

lemma drain_is_bounded:
  assumes "server_step\<^sup>*\<^sup>* (started l) s" "sv_phase s = Draining t n"
  shows "n \<le> 300 \<and> 50 * n \<le> t
    \<and> (\<exists>s'. server_step s s' \<and> (sv_phase s' = Stopped (strong_count s - 1)
        \<or> (\<exists>t'. sv_phase s' = Draining t' (n + 1))))"
proof -
  have "drain_inv s" using shutdown.inv_reachable [OF _ assms(1)] by blast
  then have "n \<le> 300 \<and> 50 * n \<le> t"
    using assms(2) by (simp add: drain_inv_def DRAIN_TIMEOUT_def POLL_INTERVAL_def)
  moreover have "\<exists>s'. server_step s s' \<and> (sv_phase s' = Stopped (strong_count s - 1)
        \<or> (\<exists>t'. sv_phase s' = Draining t' (n + 1)))"
  proof (cases "baseline < strong_count s \<and> t < DRAIN_TIMEOUT")
    case True
    then show ?thesis using server_stepI [OF drain_step.poll [OF assms(2) _ _ order_refl]] by fastforce
  next
    case False
    from server_stepI [OF drain_step.stop [OF assms(2) this]] show ?thesis by (fastforce simp: baseline_def)
  qed
  ultimately show ?thesis by blast
qed

lemma drain_is_bounded_example:
  "\<exists>s. server_step\<^sup>*\<^sup>* (started 1) s \<and> sv_phase s = Draining 0 0 \<and> (0::nat) \<le> 300"
proof -
  let ?s = "(started 1)\<lparr>sv_phase := Draining 0 0\<rparr>"
  have "server_step (started 1) ?s" by (rule server_stepI, rule drain_step.signal) (simp add: started_def)
  then have r: "server_step\<^sup>*\<^sup>* (started 1) ?s" by (rule r_into_rtranclp)
  have ph: "sv_phase ?s = Draining 0 0" by simp
  from drain_is_bounded [OF r ph] r ph show ?thesis by blast
qed

text \<open>The \<open>leftover\<close> the drain loop logs as the number of open connections is not that
  number: a served connection holds two clones and is counted twice, and listeners that have
  not stopped and pending handshakes are counted with them.\<close>

lemma leftover_counts_clones:
  assumes "server_step s s'" "sv_phase s = Draining t n" "sv_phase s' = Stopped k"
  shows "k = 2 * sv_connections s' + sv_handshakes s' + sv_listeners s'"
  using stop_step [OF assms(1,3)] assms(2) by (auto simp: strong_count_def baseline_def)

lemma leftover_counts_clones_example:
  "\<exists>s'. server_step ((started 0)\<lparr>sv_phase := Draining 15000 300, sv_connections := 1\<rparr>) s'
    \<and> sv_phase s' = Stopped 2 \<and> sv_connections s' = 1"
proof -
  let ?s = "(started 0)\<lparr>sv_phase := Draining 15000 300, sv_connections := 1\<rparr>"
  have ph: "sv_phase ?s = Draining 15000 300" by simp
  have "\<not> (baseline < strong_count ?s \<and> 15000 < DRAIN_TIMEOUT)" by (simp add: DRAIN_TIMEOUT_def)
  note step = server_stepI [OF drain_step.stop [OF ph this]]
  have k: "sv_phase (?s\<lparr>sv_phase := Stopped (strong_count ?s - baseline)\<rparr>) = Stopped (strong_count ?s - baseline)"
    by simp
  from leftover_counts_clones [OF step ph k] have "strong_count ?s - baseline = 2"
    by (simp add: started_def)
  with step show ?thesis by (intro exI conjI) (auto simp: started_def)
qed

end
