(* ===== verification/Concurrency.thy ===== *)
theory Concurrency
  imports Handling Reload
begin

text \<open>
  The process with its request tasks.  \<open>ProxyEngine::handle\<close> is an \<open>async\<close> function: between
  its awaits any other task runs, so a request is a state machine of its own, whose steps see
  whatever shared state the process then has: \<open>Arrived\<close> routes and filters, \<open>Choosing\<close>
  selects an upstream and sends, \<open>Awaiting\<close> takes in the answer (or the timeout), \<open>Ended\<close>
  holds what the task did.  The system interleaves the steps of any number of such tasks with
  signals, swaps and probes.  Incrementing the request counter needs no lock and is counted to
  the routing step.
\<close>

section \<open>Request tasks\<close>

text \<open>A request: its head, its body, the connection it came on, what the upstreams will answer
  to its attempts, and the clock's sub-second part.\<close>

record 'm job =
  jb_parts :: "'m parts"
  jb_body :: incoming
  jb_conn :: connection
  jb_client :: "nat \<Rightarrow> 'm client"
  jb_nanos :: nat

definition job_env ::
  "('m, 'md, 'st) build \<Rightarrow> (nat \<Rightarrow> 'md world) \<Rightarrow> 'm job \<Rightarrow> ('m, 'md, 'st) env" where
  "job_env B ws j = \<lparr>env_http = bd_http B, env_features = bd_features B, env_wasm = bd_wasm B,
     env_client = jb_client j, env_interfere = (\<lambda>k _. ws k), env_nanos = jb_nanos j\<rparr>"

text \<open>What a task did: its reply (\<open>None\<close>: it panicked), its mirror request, its attempts and
  the time they took.\<close>

record 'm report =
  rp_reply :: "'m response option"
  rp_mirror :: "(string \<times> 'm request \<times> duration) option"
  rp_attempts :: "'m attempt list"
  rp_elapsed :: duration

definition report_of :: "('m, 'md) outcome \<Rightarrow> 'm report" where
  "report_of oc = \<lparr>rp_reply = oc_reply oc, rp_mirror = oc_mirror oc, rp_attempts = oc_attempts oc,
     rp_elapsed = oc_elapsed oc\<rparr>"

datatype ('m, 'md) task =
    Arrived "'m job"
  | Choosing "'m job" "'md plan" nat "('m, 'md) loop_state"
  | Awaiting "'m job" "'md plan" nat "('m, 'md) loop_state" string "'m request" duration
      "proxy_error + 'm response"
  | Ended "'m job" "'m report"

definition job_can_retry :: "'m job \<Rightarrow> 'md plan \<Rightarrow> bool" where
  "job_can_retry j plan = can_retry plan (jb_parts j) (jb_body j)"

definition loop_report :: "'m job \<Rightarrow> 'md plan \<Rightarrow> 'm response option \<Rightarrow> ('m, 'md) loop_state \<Rightarrow> 'm report" where
  "loop_report j plan reply s = \<lparr>rp_reply = reply,
     rp_mirror = mirror_task (jb_nanos j) plan (jb_parts j) (body_replayable (jb_parts j) (jb_body j)),
     rp_attempts = ls_log s, rp_elapsed = ls_elapsed s\<rparr>"

definition task_end :: "'m job \<Rightarrow> 'md plan \<Rightarrow> 'm response option \<Rightarrow> ('m, 'md) loop_state \<Rightarrow> ('m, 'md) task" where
  "task_end j plan reply s = Ended j (loop_report j plan reply s)"

definition arrive_step ::
  "('m, 'md, 'st) build \<Rightarrow> 'm job \<Rightarrow> 'md world \<Rightarrow> ('m, 'md) task \<times> 'md world" where
  "arrive_step B j w0 =
     (let H = bd_http B; w = inc_requests w0; parts = jb_parts j;
          reply = (\<lambda>resp. (Ended j (report_of (answer_now resp w)), w)) in
      case plan_route H (bd_features B) w parts of
        None \<Rightarrow> reply (error_response H 404 ''Not Found: no route matched'')
      | Some plan \<Rightarrow>
          (case plugin_gate H (bd_wasm B) plan parts of
             Some denied \<Rightarrow> reply denied
           | None \<Rightarrow> (Choosing j plan (effective_attempts plan parts (jb_body j)) (loop_start (jb_body j) w), w)))"

definition choose_step ::
  "('m, 'md, 'st) build \<Rightarrow> 'm job \<Rightarrow> 'md plan \<Rightarrow> nat \<Rightarrow> ('m, 'md) loop_state \<Rightarrow> 'md world
    \<Rightarrow> ('m, 'md) task \<times> 'md world" where
  "choose_step B j plan n s w0 =
     (let H = bd_http B; conn = jb_conn j; (picked, w) = select_upstream w0 (pl_name plan) (ls_tried s) in
      case picked of
        None \<Rightarrow> (task_end j plan (Some (error_response H 502 ''Bad Gateway: no upstreams available'')) s, w)
      | Some addr \<Rightarrow>
          (case take_body (job_can_retry j plan) (ls_body s) of
             None \<Rightarrow> (task_end j plan None s, w)
           | Some (body, rest) \<Rightarrow>
               (case attempt_request H plan (jb_parts j) conn body of
                  None \<Rightarrow> (task_end j plan None s, w)
                | Some req \<Rightarrow>
                    (case proxy_request H (jb_client j (ls_attempt s)) req addr (cn_addr conn) (cn_proto conn) of
                       (d, result) \<Rightarrow> (Awaiting j plan n (s\<lparr>ls_body := rest\<rparr>) addr req d result, w)))))"

definition await_step ::
  "('m, 'md, 'st) build \<Rightarrow> 'm job \<Rightarrow> 'md plan \<Rightarrow> nat \<Rightarrow> ('m, 'md) loop_state \<Rightarrow> string \<Rightarrow> 'm request
    \<Rightarrow> duration \<Rightarrow> proxy_error + 'm response \<Rightarrow> 'md world \<Rightarrow> ('m, 'md) task \<times> 'md world" where
  "await_step B j plan n s addr req d result w =
     (case settle_attempt (bd_http B) plan (job_can_retry j plan) addr req d result (s\<lparr>ls_world := w\<rparr>) of
        (Finish reply, s') \<Rightarrow> (task_end j plan reply s', ls_world s')
      | (Retry, s') \<Rightarrow> (Choosing j plan n s', ls_world s'))"

fun task_run ::
  "('m, 'md, 'st) build \<Rightarrow> ('m, 'md) task \<Rightarrow> 'md world \<Rightarrow> ('m, 'md) task \<times> 'md world" where
  "task_run B (Arrived j) w = arrive_step B j w"
| "task_run B (Choosing j plan 0 s) w =
     (task_end j plan (Some (error_response (bd_http B) 502 ''Bad Gateway'')) s, w)"
| "task_run B (Choosing j plan (Suc n) s) w = choose_step B j plan n s w"
| "task_run B (Awaiting j plan n s addr req d result) w = await_step B j plan n s addr req d result w"
| "task_run B (Ended j r) w = (Ended j r, w)"

section \<open>The system\<close>

record ('m, 'md) system =
  sy_process :: "'md process"
  sy_tasks :: "('m, 'md) task list"

inductive sys_step :: "('m, 'md, 'st) build \<Rightarrow> ('m, 'md) system \<Rightarrow> ('m, 'md) system \<Rightarrow> bool" for B where
  control: "ctrl_step B (sy_process y) p \<Longrightarrow> sys_step B y (y\<lparr>sy_process := p\<rparr>)"
| spawn: "sys_step B y (y\<lparr>sy_tasks := sy_tasks y @ [Arrived j]\<rparr>)"
| run: "i < length (sy_tasks y) \<Longrightarrow> task_run B (sy_tasks y ! i) (ps_world (sy_process y)) = (t, w) \<Longrightarrow>
    sys_step B y (y\<lparr>sy_process := (sy_process y)\<lparr>ps_world := w\<rparr>, sy_tasks := (sy_tasks y)[i := t]\<rparr>)"

definition sys_start :: "'md process \<Rightarrow> ('m, 'md) system" where
  "sys_start p = \<lparr>sy_process = p, sy_tasks = []\<rparr>"

section \<open>The tasks' actions are the process's\<close>

lemma process_world_self [simp]: "p\<lparr>ps_world := ps_world p\<rparr> = p"
  by simp

lemma arrive_step_world: "snd (arrive_step B j w) = inc_requests w"
  by (simp add: arrive_step_def Let_def split: option.splits)

lemma choose_step_world: "snd (choose_step B j plan n s w) = snd (select_upstream w (pl_name plan) (ls_tried s))"
  by (simp add: choose_step_def Let_def split: option.splits prod.splits)

lemma await_step_world:
  "snd (await_step B j plan n s addr req d result w) = inc_errors w
    \<or> (\<exists>t. snd (await_step B j plan n s addr req d result w) = observe_duration t w)"
  by (auto simp: await_step_def settle_attempt_def Let_def split: sum.splits if_splits)

lemma task_run_proc:
  "(proc_step B)\<^sup>*\<^sup>* p (p\<lparr>ps_world := snd (task_run B t (ps_world p))\<rparr>)"
proof (cases "(B, t, ps_world p)" rule: task_run.cases)
  case (1 B' j w)
  then show ?thesis using proc_step.arrive [of B p] by (auto simp: arrive_step_world)
next
  case (3 B' j plan n s w)
  then show ?thesis using proc_step.pick [of B p "pl_name plan" "ls_tried s"] by (auto simp: choose_step_world)
next
  case (4 B' j plan n s addr req d result w)
  then show ?thesis
    using await_step_world [of B j plan n s addr req d result w] proc_step.fail [of B p]
      proc_step.answer [of B p] by auto
qed auto

section \<open>A task is a run of the handler\<close>

text \<open>
  \<open>handled B ws j w\<close> is what \<open>handle\<close> reports when the shared state is \<open>w\<close> at its start and
  \<open>ws k\<close> at its \<open>k\<close>-th attempt; \<open>rest\<close> and \<open>settle_rest\<close> are what remains of it from inside
  the loop.
\<close>

definition handled :: "('m, 'md, 'st) build \<Rightarrow> (nat \<Rightarrow> 'md world) \<Rightarrow> 'm job \<Rightarrow> 'md world \<Rightarrow> 'm report" where
  "handled B ws j w = report_of (handle (job_env B ws j) (jb_parts j) (jb_body j) (jb_conn j) w)"

definition rest ::
  "('m, 'md, 'st) build \<Rightarrow> (nat \<Rightarrow> 'md world) \<Rightarrow> 'm job \<Rightarrow> 'md plan \<Rightarrow> nat \<Rightarrow> ('m, 'md) loop_state \<Rightarrow> 'm report" where
  "rest B ws j plan n s =
     (case attempts (job_env B ws j) plan (jb_parts j) (jb_conn j) (job_can_retry j plan) n s of
        (reply, s') \<Rightarrow> loop_report j plan reply s')"

definition settle_rest ::
  "('m, 'md, 'st) build \<Rightarrow> (nat \<Rightarrow> 'md world) \<Rightarrow> 'm job \<Rightarrow> 'md plan \<Rightarrow> nat \<Rightarrow> ('m, 'md) loop_state
    \<Rightarrow> string \<Rightarrow> 'm request \<Rightarrow> duration \<Rightarrow> proxy_error + 'm response \<Rightarrow> 'm report" where
  "settle_rest B ws j plan n s addr req d result =
     (case settle_attempt (bd_http B) plan (job_can_retry j plan) addr req d result s of
        (Finish reply, s') \<Rightarrow> loop_report j plan reply s'
      | (Retry, s') \<Rightarrow> rest B ws j plan n s')"

lemma job_env_simps [simp]:
  "env_http (job_env B ws j) = bd_http B" "env_features (job_env B ws j) = bd_features B"
  "env_wasm (job_env B ws j) = bd_wasm B" "env_client (job_env B ws j) = jb_client j"
  "env_interfere (job_env B ws j) k w = ws k" "env_nanos (job_env B ws j) = jb_nanos j"
  by (simp_all add: job_env_def)

text \<open>The loop state's own copy of the world is not read.\<close>

lemma attempt_once_local:
  "attempt_once (job_env B ws j) plan parts conn cr (s\<lparr>ls_world := w\<rparr>) =
     attempt_once (job_env B ws j) plan parts conn cr s"
  by (simp add: attempt_once_def Let_def)

lemma rest_local: "rest B ws j plan n (s\<lparr>ls_world := w\<rparr>) = rest B ws j plan n s"
  by (cases n) (simp_all add: rest_def loop_report_def attempt_once_local)

lemma settle_rest_local:
  "settle_rest B ws j plan n (s\<lparr>ls_world := w\<rparr>) addr req d result = settle_rest B ws j plan n s addr req d result"
proof -
  let ?settle = "settle_attempt (bd_http B) plan (job_can_retry j plan) addr req d result"
  obtain st s1 st' s2 where eq: "?settle s = (st, s1)" "?settle (s\<lparr>ls_world := w\<rparr>) = (st', s2)" by fastforce
  then have "st' = st \<and> (\<exists>w'. s2 = s1\<lparr>ls_world := w'\<rparr>)"
    by (cases s) (auto simp: settle_attempt_def Let_def split: sum.splits if_splits)
  then obtain w' where "st' = st" "s2 = s1\<lparr>ls_world := w'\<rparr>" by blast
  with eq show ?thesis
    by (cases st) (simp_all add: settle_rest_def loop_report_def rest_local)
qed

lemma rest_0:
  "rest B ws j plan 0 s = loop_report j plan (Some (error_response (bd_http B) 502 ''Bad Gateway'')) s"
  by (simp add: rest_def)

text \<open>A selection made in the world of the attempt is the loop's.\<close>

definition remaining :: "('m, 'md, 'st) build \<Rightarrow> (nat \<Rightarrow> 'md world) \<Rightarrow> ('m, 'md) task \<Rightarrow> 'm report option" where
  "remaining B ws t = (case t of
      Arrived j \<Rightarrow> None
    | Choosing j plan n s \<Rightarrow> Some (rest B ws j plan n s)
    | Awaiting j plan n s addr req d result \<Rightarrow> Some (settle_rest B ws j plan n s addr req d result)
    | Ended j r \<Rightarrow> Some r)"

lemma remaining_arrive:
  "remaining B ws (fst (arrive_step B j w)) = Some (handled B ws j w)"
  by (auto simp: arrive_step_def remaining_def handled_def handle_def forward_def rest_def Let_def
      report_of_def answer_now_def loop_report_def job_can_retry_def split: option.splits prod.splits)

lemma rest_Suc:
  "rest B ws j plan (Suc n) s =
     (case select_upstream (ws (ls_attempt s)) (pl_name plan) (ls_tried s) of
        (None, w) \<Rightarrow> loop_report j plan (Some (error_response (bd_http B) 502 ''Bad Gateway: no upstreams available'')) s
      | (Some addr, w) \<Rightarrow>
          (case take_body (job_can_retry j plan) (ls_body s) of
             None \<Rightarrow> loop_report j plan None s
           | Some (body, left) \<Rightarrow>
               (case attempt_request (bd_http B) plan (jb_parts j) (jb_conn j) body of
                  None \<Rightarrow> loop_report j plan None s
                | Some req \<Rightarrow>
                    (case proxy_request (bd_http B) (jb_client j (ls_attempt s)) req addr (cn_addr (jb_conn j))
                        (cn_proto (jb_conn j)) of
                       (d, result) \<Rightarrow> settle_rest B ws j plan n (s\<lparr>ls_world := w, ls_body := left\<rparr>) addr req d result))))"
  by (auto simp: rest_def attempt_once_def settle_rest_def loop_report_def Let_def
      split: option.splits prod.splits step.splits)

lemma remaining_choose:
  assumes "ws (ls_attempt s) = w"
  shows "remaining B ws (fst (choose_step B j plan n s w)) = Some (rest B ws j plan (Suc n) s)"
proof -
  have "settle_rest B ws j plan n (s\<lparr>ls_world := w', ls_body := b\<rparr>) addr req d result
      = settle_rest B ws j plan n (s\<lparr>ls_body := b\<rparr>) addr req d result" for w' b addr req d result
    using settle_rest_local [of B ws j plan n w' "s\<lparr>ls_body := b\<rparr>"] by (cases s) simp
  then show ?thesis
    using assms
    by (simp add: choose_step_def rest_Suc remaining_def task_end_def Let_def
        split: option.splits prod.splits)
qed

lemma remaining_await:
  "remaining B ws (fst (await_step B j plan n s addr req d result w)) =
     Some (settle_rest B ws j plan n s addr req d result)"
  unfolding settle_rest_local [of B ws j plan n w s, symmetric]
  by (auto simp: await_step_def settle_rest_def remaining_def task_end_def split: prod.splits step.splits)

fun routed :: "('m, 'md) task \<Rightarrow> bool" where
  "routed (Arrived j) = False"
| "routed t = True"

fun task_job :: "('m, 'md) task \<Rightarrow> 'm job" where
  "task_job (Arrived j) = j"
| "task_job (Choosing j plan n s) = j"
| "task_job (Awaiting j plan n s addr req d result) = j"
| "task_job (Ended j r) = j"

text \<open>The worlds of the attempts a task has already made.\<close>

definition agree :: "('m, 'md) task \<Rightarrow> (nat \<Rightarrow> 'md world) \<Rightarrow> (nat \<Rightarrow> 'md world) \<Rightarrow> bool" where
  "agree t ws ws' = (case t of
      Arrived j \<Rightarrow> True
    | Choosing j plan n s \<Rightarrow> \<forall>k<ls_attempt s. ws' k = ws k
    | Awaiting j plan n s addr req d result \<Rightarrow> \<forall>k\<le>ls_attempt s. ws' k = ws k
    | Ended j r \<Rightarrow> ws' = ws)"

text \<open>What is left of a task is what is left of a run of \<open>handle\<close> that is routed in a world of
  \<open>R\<close> and selects its upstreams in worlds of \<open>S\<close>.\<close>

definition task_ok ::
  "('m, 'md, 'st) build \<Rightarrow> ('md world \<Rightarrow> bool) \<Rightarrow> ('md world \<Rightarrow> bool) \<Rightarrow> ('m, 'md) task \<Rightarrow> bool" where
  "task_ok B R S t \<longleftrightarrow> (\<exists>j. t = Arrived j) \<or>
     (\<exists>w0 ws. R w0 \<and> (\<forall>k. S (ws k)) \<and>
        (\<forall>ws'. agree t ws ws' \<longrightarrow> remaining B ws' t = Some (handled B ws' (task_job t) w0)))"

lemma task_job_run: "task_job (fst (task_run B t w)) = task_job t"
  by (cases "(B, t, w)" rule: task_run.cases)
    (auto simp: arrive_step_def choose_step_def await_step_def task_end_def Let_def
      split: option.splits prod.splits step.splits)

lemma task_ok_choose:
  assumes "agree (fst (choose_step B j plan n s w)) (ws(ls_attempt s := w)) ws'"
  shows "ws' (ls_attempt s) = w \<and> (\<forall>k<ls_attempt s. ws' k = ws k)"
  using assms
  by (auto simp: agree_def choose_step_def task_end_def Let_def split: option.splits prod.splits)

lemma task_ok_await:
  assumes "agree (fst (await_step B j plan n s addr req d result w)) ws ws'"
  shows "\<forall>k\<le>ls_attempt s. ws' k = ws k"
  using assms
  by (auto simp: agree_def await_step_def settle_attempt_def task_end_def Let_def
      split: sum.splits if_splits)

lemma task_ok_run:
  assumes "\<not> routed t \<Longrightarrow> R w" "S w" "task_ok B R S t"
  shows "task_ok B R S (fst (task_run B t w))"
proof (cases "(B, t, w)" rule: task_run.cases)
  case (1 B' j w')
  then have "remaining B ws (fst (task_run B t w)) = Some (handled B ws (task_job t) w)" for ws
    using remaining_arrive [of B ws j w] by simp
  moreover have "R w" using assms(1) 1 by simp
  ultimately show ?thesis using assms(2) unfolding task_ok_def task_job_run
    by (intro disjI2 exI [of _ w] exI [of _ "\<lambda>_. w"]) simp
next
  case (2 B' j plan s w')
  then obtain w0 ws where ok: "R w0" "\<forall>k. S (ws k)"
    "remaining B ws t = Some (handled B ws j w0)"
    using assms(3) by (auto simp: task_ok_def agree_def)
  with 2 show ?thesis unfolding task_ok_def task_job_run
    by (intro disjI2 exI [of _ w0] exI [of _ ws]) (simp add: agree_def remaining_def task_end_def rest_0)
next
  case (3 B' j plan n s w')
  then obtain w0 ws where ok: "R w0" "\<forall>k. S (ws k)"
    "\<And>ws'. \<forall>k<ls_attempt s. ws' k = ws k \<Longrightarrow> rest B ws' j plan (Suc n) s = handled B ws' j w0"
    using assms(3) by (auto simp: task_ok_def agree_def remaining_def)
  have "remaining B ws' (fst (task_run B t w)) = Some (handled B ws' j w0)"
    if "agree (fst (task_run B t w)) (ws(ls_attempt s := w)) ws'" for ws'
    using task_ok_choose [of B j plan n s w ws ws'] that 3 ok(3) [of ws'] remaining_choose [of ws' s w B j plan n]
    by simp
  with 3 ok(1,2) assms(2) show ?thesis unfolding task_ok_def task_job_run
    by (intro disjI2 exI [of _ w0] exI [of _ "ws(ls_attempt s := w)"]) simp
next
  case (4 B' j plan n s addr req d result w')
  then obtain w0 ws where ok: "R w0" "\<forall>k. S (ws k)"
    "\<And>ws'. \<forall>k\<le>ls_attempt s. ws' k = ws k \<Longrightarrow>
      settle_rest B ws' j plan n s addr req d result = handled B ws' j w0"
    using assms(3) by (auto simp: task_ok_def agree_def remaining_def)
  have "remaining B ws' (fst (task_run B t w)) = Some (handled B ws' j w0)"
    if "agree (fst (task_run B t w)) ws ws'" for ws'
    using task_ok_await [of B j plan n s addr req d result w ws ws'] that 4 ok(3) [of ws']
      remaining_await [of B ws' j plan n s addr req d result w] by simp
  with 4 ok(1,2) show ?thesis unfolding task_ok_def task_job_run
    by (intro disjI2 exI [of _ w0] exI [of _ ws]) simp
next
  case (5 B' j r w')
  with assms show ?thesis by simp
qed

section \<open>Invariants of the system\<close>

definition visited :: "('m, 'md, 'st) build \<Rightarrow> 'md process \<Rightarrow> 'md world \<Rightarrow> bool" where
  "visited B p0 w = (\<exists>p. reachable B p0 p \<and> ps_world p = w)"

text \<open>The counters account for every task: a request each that has been routed, an error each
  for its attempts that were not answered, an observation each for those that were.\<close>

fun task_log :: "('m, 'md) task \<Rightarrow> 'm attempt list" where
  "task_log (Arrived j) = []"
| "task_log (Choosing j plan n s) = ls_log s"
| "task_log (Awaiting j plan n s addr req d result) = ls_log s"
| "task_log (Ended j r) = rp_attempts r"

definition tally :: "('m, 'md) task \<Rightarrow> nat \<times> nat \<times> nat" where
  "tally t = (of_bool (routed t), length (filter (\<lambda>a. \<not> answered a) (task_log t)),
     length (filter answered (task_log t)))"

definition balanced :: "metrics \<Rightarrow> ('m, 'md) task list \<Rightarrow> metrics \<Rightarrow> bool" where
  "balanced m0 ts m \<longleftrightarrow>
     mt_requests m = mt_requests m0 + sum_list (map (fst \<circ> tally) ts)
     \<and> mt_errors m = mt_errors m0 + sum_list (map (fst \<circ> snd \<circ> tally) ts)
     \<and> length (mt_durations m) = length (mt_durations m0) + sum_list (map (snd \<circ> snd \<circ> tally) ts)"

lemma sum_list_map_update:
  fixes f :: "'a \<Rightarrow> nat"
  assumes "i < length xs" "f y = f (xs ! i) + d"
  shows "sum_list (map f (xs[i := y])) = sum_list (map f xs) + d"
  using assms by (simp add: map_update sum_list_update)

text \<open>What a step of a task adds to its tally, it adds to the counters.\<close>

definition moved :: "('m, 'md) task \<Rightarrow> ('m, 'md) task \<Rightarrow> metrics \<Rightarrow> metrics \<Rightarrow> bool" where
  "moved t t' m m' \<longleftrightarrow> (\<exists>a b c. tally t' = (fst (tally t) + a, fst (snd (tally t)) + b, snd (snd (tally t)) + c)
     \<and> mt_requests m' = mt_requests m + a \<and> mt_errors m' = mt_errors m + b
     \<and> length (mt_durations m') = length (mt_durations m) + c)"

lemma movedI:
  assumes "tally t' = (fst (tally t) + a, fst (snd (tally t)) + b, snd (snd (tally t)) + c)"
    and "mt_requests m' = mt_requests m + a" "mt_errors m' = mt_errors m + b"
    and "length (mt_durations m') = length (mt_durations m) + c"
  shows "moved t t' m m'"
  using assms unfolding moved_def by blast

lemma balanced_moved:
  assumes "balanced m0 ts m" "i < length ts" "moved (ts ! i) t' m m'"
  shows "balanced m0 (ts[i := t']) m'"
  using assms by (auto simp: balanced_def moved_def sum_list_map_update)

lemma balanced_spawn: "balanced m0 ts m \<Longrightarrow> balanced m0 (ts @ [Arrived j]) m"
  by (simp add: balanced_def tally_def)

lemma moved_choose:
  "moved (Choosing j plan k s) (fst (choose_step B j plan n s w)) (w_metrics w) (w_metrics (snd (choose_step B j plan n s w)))"
proof -
  obtain picked w' where sel: "select_upstream w (pl_name plan) (ls_tried s) = (picked, w')" by fastforce
  then have "w_metrics w' = w_metrics w" by (rule select_upstream_frame(2))
  moreover have "tally (fst (choose_step B j plan n s w)) = tally (Choosing j plan k s)"
    by (auto simp: choose_step_def tally_def task_end_def loop_report_def Let_def split: option.splits prod.splits)
  ultimately show ?thesis using sel
    by (intro movedI [of _ _ 0 0 0]) (simp_all add: choose_step_world)
qed

lemma moved_await:
  "moved (Awaiting j plan n s addr req d result) (fst (await_step B j plan n s addr req d result w))
     (w_metrics w) (w_metrics (snd (await_step B j plan n s addr req d result w)))"
proof -
  obtain st s' where settle: "settle_attempt (bd_http B) plan (job_can_retry j plan) addr req d result
      (s\<lparr>ls_world := w\<rparr>) = (st, s')" by fastforce
  then obtain a where log: "ls_log s' = ls_log s @ [a]" and
    "(answered a \<and> ls_world s' = observe_duration (ls_elapsed s') w) \<or> (\<not> answered a \<and> ls_world s' = inc_errors w)"
    by (rule settle_cases) (auto simp: answered_def)
  then show ?thesis
  proof (elim disjE conjE)
    assume "answered a" "ls_world s' = observe_duration (ls_elapsed s') w"
    with settle log show ?thesis
      by (intro movedI [of _ _ 0 0 1]; cases st)
        (simp_all add: await_step_def task_end_def loop_report_def tally_def observe_duration_def)
  next
    assume "\<not> answered a" "ls_world s' = inc_errors w"
    with settle log show ?thesis
      by (intro movedI [of _ _ 0 1 0]; cases st)
        (simp_all add: await_step_def task_end_def loop_report_def tally_def inc_errors_def)
  qed
qed

lemma moved_run: "moved t (fst (task_run B t w)) (w_metrics w) (w_metrics (snd (task_run B t w)))"
proof (cases "(B, t, w)" rule: task_run.cases)
  case (1 B' j w')
  have "tally (fst (arrive_step B j w)) = (1, 0, 0)"
    by (auto simp: arrive_step_def tally_def report_of_def Let_def loop_start_def split: option.splits)
  with 1 show ?thesis
    by (intro movedI [of _ _ 1 0 0]) (simp_all add: arrive_step_world inc_requests_def tally_def)
next
  case (2 B' j plan s w')
  then show ?thesis
    by (intro movedI [of _ _ 0 0 0]) (simp_all add: tally_def task_end_def loop_report_def)
next
  case (3 B' j plan n s w')
  then show ?thesis by (simp add: moved_choose)
next
  case (4 B' j plan n s addr req d result w')
  then show ?thesis by (simp add: moved_await)
next
  case (5 B' j r w')
  then show ?thesis by (intro movedI [of _ _ 0 0 0]) simp_all
qed

definition sys_inv :: "('m, 'md, 'st) build \<Rightarrow> 'md process \<Rightarrow> ('m, 'md) system \<Rightarrow> bool" where
  "sys_inv B p0 y \<longleftrightarrow> reachable B p0 (sy_process y)
     \<and> (\<forall>t\<in>set (sy_tasks y). task_ok B (visited B p0) (visited B p0) t)
     \<and> balanced (w_metrics (ps_world p0)) (sy_tasks y) (w_metrics (ps_world (sy_process y)))"

lemma sighup_world: "ps_world (sighup B fs p) = ps_world p"
  by (simp add: sighup_def split: sum.splits)

lemma swap_next_metrics: "w_metrics (ps_world (swap_next F p)) = w_metrics (ps_world p)"
  by (simp add: swap_next_def Let_def split: stage.splits)

lemma ctrl_step_metrics: "ctrl_step B p p' \<Longrightarrow> w_metrics (ps_world p') = w_metrics (ps_world p)"
  by (induction rule: ctrl_step.induct) (simp_all add: sighup_world swap_next_metrics)

lemma sys_step_process: "sys_step B y y' \<Longrightarrow> reachable B (sy_process y) (sy_process y')"
proof (induction rule: sys_step.induct)
  case (control y p)
  then show ?case by (simp add: proc_step.control r_into_rtranclp)
next
  case (run i y t w)
  then show ?case using task_run_proc [of B "sy_process y" "sy_tasks y ! i"] by simp
qed simp

lemma sys_inv_step: "sys_step B y y' \<Longrightarrow> sys_inv B p0 y \<Longrightarrow> sys_inv B p0 y'"
proof -
  assume step: "sys_step B y y'" and inv: "sys_inv B p0 y"
  have "reachable B p0 (sy_process y')"
    using inv sys_step_process [OF step] by (auto simp: sys_inv_def)
  moreover from step inv have "\<forall>t\<in>set (sy_tasks y'). task_ok B (visited B p0) (visited B p0) t"
  proof cases
    case (spawn j)
    with inv show ?thesis by (auto simp: sys_inv_def task_ok_def)
  next
    case (run i t w)
    have "visited B p0 (ps_world (sy_process y))" using inv by (auto simp: sys_inv_def visited_def)
    moreover have "task_ok B (visited B p0) (visited B p0) (sy_tasks y ! i)" using inv run by (simp add: sys_inv_def)
    ultimately have "task_ok B (visited B p0) (visited B p0) t" using task_ok_run run by (metis fst_conv)
    with inv run show ?thesis by (auto simp: sys_inv_def dest: set_update_subset_insert [THEN subsetD])
  qed (use inv in \<open>simp add: sys_inv_def\<close>)
  moreover from step inv
  have "balanced (w_metrics (ps_world p0)) (sy_tasks y') (w_metrics (ps_world (sy_process y')))"
  proof cases
    case (control p)
    with inv show ?thesis by (simp add: sys_inv_def ctrl_step_metrics)
  next
    case (spawn j)
    with inv show ?thesis by (simp add: sys_inv_def balanced_spawn)
  next
    case (run i t w)
    with moved_run [of "sy_tasks y ! i" B "ps_world (sy_process y)"] inv
    show ?thesis by (auto simp: sys_inv_def intro!: balanced_moved)
  qed
  ultimately show ?thesis by (simp add: sys_inv_def)
qed

lemma sys_inv_start: "sys_inv B p0 (sys_start p0)"
  by (simp add: sys_inv_def sys_start_def balanced_def)

interpretation concurrent: simulation "\<lambda>y. y = sys_start p0" "sys_step B" "sys_inv B p0"
  "\<lambda>p. p = p0" "proc_step B" sy_process
  for B :: "('m, 'md, 'st) build" and p0 :: "'md process"
proof unfold_locales
  fix y y' :: "('m, 'md) system"
  show "y = sys_start p0 \<Longrightarrow> sys_inv B p0 y" by (simp add: sys_inv_start)
  show "sys_inv B p0 y \<Longrightarrow> sys_step B y y' \<Longrightarrow> sys_inv B p0 y'" by (rule sys_inv_step)
  show "y = sys_start p0 \<Longrightarrow> sy_process y = p0" by (simp add: sys_start_def)
  show "sys_step B y y' \<Longrightarrow> reachable B (sy_process y) (sy_process y')" by (rule sys_step_process)
qed

lemma task_ok_ended:
  assumes "task_ok B R S (Ended j r)"
  obtains w0 ws where "R w0" "\<And>k. S (ws k)" "r = handled B ws j w0"
proof -
  from assms obtain w0 ws where "R w0" "\<forall>k. S (ws k)"
    "remaining B ws (Ended j r) = Some (handled B ws j w0)"
    by (auto simp: task_ok_def agree_def)
  then show thesis by (intro that [of w0 ws]) (simp_all add: remaining_def)
qed

lemma ended_is_handled:
  assumes "sys_inv B p0 y" "Ended j r \<in> set (sy_tasks y)"
  obtains w0 ws where "visited B p0 w0" "\<And>k. visited B p0 (ws k)" "r = handled B ws j w0"
proof -
  have "task_ok B (visited B p0) (visited B p0) (Ended j r)" using assms by (simp add: sys_inv_def)
  then show thesis by (rule task_ok_ended) (rule that)
qed

text \<open>In every world a process visits, the balancers are those of an accepted configuration.\<close>

lemma visited_fits:
  assumes "process_started B p0" "visited B p0 w"
  obtains c where "accepts (bd_http B) (bd_features B) c" "lbs_fit w c"
proof -
  from assms obtain p where "balancers_inv B p" "ps_world p = w"
    unfolding visited_def using balancers.inv_reachable [of B p0] by blast
  then show thesis
    by (cases "ps_stage p") (auto simp: balancers_inv_def prepared_ok_def Let_def intro: that)
qed

lemma fit_addr:
  assumes "lbs_fit w c" "w_lbs w name = Some lb" "addr \<in> lb_addrs lb"
  obtains r u where "r \<in> set (cfg_route c)" "rc_name r = name" "u \<in> set (rc_upstream r)" "uc_addr u = addr"
proof -
  from fun_cong [OF assms(1) [unfolded lbs_fit_def], of name] assms(2) obtain r where
    "find (\<lambda>r. rc_name r = name) (rev (cfg_route c)) = Some r"
    "lb_upstreams lb = lb_upstreams (lb_new (route_pools r))"
    by (cases "find (\<lambda>r. rc_name r = name) (rev (cfg_route c))") (auto simp: schedules_def build_lb_map_lookup)
  with assms(3) that show thesis
    by (auto simp: lb_addrs_def lb_new_def expand_addrs route_pools_def dest!: find_SomeD)
qed

end
