(* ===== verification/Concurrent_Runs.thy ===== *)
theory Concurrent_Runs
  imports Concurrency
begin

text \<open>
  What the system of the process and its request tasks guarantees over whole runs: every
  request ends, none starves under a fair scheduler, the counters account for all of them,
  attempts stay within accepted configurations, and reloads complete.  A concrete run of two interleaved requests serves the witnesses.
\<close>

section \<open>Ending\<close>

text \<open>A task stepped through any sequence of worlds, and the steps it has left once it is in
  the loop.\<close>

fun task_trace :: "('m, 'md, 'st) build \<Rightarrow> (nat \<Rightarrow> 'md world) \<Rightarrow> ('m, 'md) task \<Rightarrow> nat \<Rightarrow> ('m, 'md) task" where
  "task_trace B ws t 0 = t"
| "task_trace B ws t (Suc k) = fst (task_run B (task_trace B ws t k) (ws k))"

fun steps_left :: "('m, 'md) task \<Rightarrow> nat" where
  "steps_left (Arrived j) = 0"
| "steps_left (Choosing j plan n s) = 2 * n + 1"
| "steps_left (Awaiting j plan n s addr req d result) = 2 * n + 2"
| "steps_left (Ended j r) = 0"

lemma steps_left_run: "steps_left (fst (task_run B t w)) \<le> steps_left t - 1" if "routed t"
  using that
  by (cases "(B, t, w)" rule: task_run.cases)
    (auto simp: choose_step_def await_step_def task_end_def Let_def split: option.splits prod.splits step.splits)

lemma routed_run: "routed (fst (task_run B t w))"
  by (cases "(B, t, w)" rule: task_run.cases)
    (auto simp: arrive_step_def choose_step_def await_step_def task_end_def Let_def
      split: option.splits prod.splits step.splits)

lemma routed_done: "routed t \<Longrightarrow> steps_left t = 0 \<Longrightarrow> \<exists>j r. t = Ended j r"
  by (cases t) auto

lemma routed_trace: "routed (task_trace B ws t (Suc k))"
  by (simp add: routed_run)

lemma steps_left_trace: "steps_left (task_trace B ws t (Suc k)) \<le> steps_left (task_trace B ws t 1) - k"
proof (induction k)
  case (Suc k)
  have "steps_left (task_trace B ws t (Suc (Suc k))) \<le> steps_left (task_trace B ws t (Suc k)) - 1"
    using steps_left_run [OF routed_trace [of B ws t k], of B "ws (Suc k)"] by simp
  with Suc show ?case by linarith
qed simp

lemma steps_left_arrive:
  assumes "\<And>r. r \<in> set (cfg_route (w_config w)) \<Longrightarrow> max_attempts r \<le> m" "1 \<le> m"
  shows "steps_left (fst (arrive_step B j w)) \<le> 2 * m + 1"
proof -
  have "effective_attempts plan (jb_parts j) (jb_body j) \<le> m"
    if "plan_route (bd_http B) (bd_features B) (inc_requests w) (jb_parts j) = Some plan" for plan
    using that
  proof (rule plan_route_SomeD)
    fix r
    assume "r \<in> set (cfg_route (w_config (inc_requests w)))" "plan = plan_of_route (bd_features B) (w_plugins (inc_requests w)) r"
    with assms show ?thesis by (simp add: inc_requests_def effective_attempts_def plan_of_route_def)
  qed
  then show ?thesis
    by (auto simp: arrive_step_def Let_def split: option.splits)
qed

section \<open>Progress of the system\<close>

text \<open>A step of the system leaves every other task alone and runs one task or none.\<close>

definition runs :: "('m, 'md, 'st) build \<Rightarrow> nat \<Rightarrow> ('m, 'md) system \<Rightarrow> ('m, 'md) system \<Rightarrow> bool" where
  "runs B i y y' \<longleftrightarrow> i < length (sy_tasks y) \<and>
     sy_tasks y' = (sy_tasks y)[i := fst (task_run B (sy_tasks y ! i) (ps_world (sy_process y)))]"

lemma sys_step_task:
  assumes "sys_step B y y'" "i < length (sy_tasks y)"
  shows "i < length (sy_tasks y') \<and> (sy_tasks y' ! i = sy_tasks y ! i
    \<or> sy_tasks y' ! i = fst (task_run B (sy_tasks y ! i) (ps_world (sy_process y))))"
  using assms
proof (induction rule: sys_step.induct)
  case (run k y t w)
  then show ?case by (cases "k = i") auto
qed (auto simp: nth_append)

lemma steps_left_step:
  assumes "sys_step B y y'" "i < length (sy_tasks y)" "routed (sy_tasks y ! i)"
  shows "routed (sy_tasks y' ! i) \<and> steps_left (sy_tasks y' ! i) \<le> steps_left (sy_tasks y ! i)"
  using sys_step_task [OF assms(1,2)] steps_left_run [OF assms(3), of B "ps_world (sy_process y)"]
    routed_run [of B "sy_tasks y ! i" "ps_world (sy_process y)"] assms(3) by auto

lemma runs_step:
  assumes "runs B i y y'"
  shows "routed (sy_tasks y' ! i)
    \<and> (routed (sy_tasks y ! i) \<longrightarrow> steps_left (sy_tasks y' ! i) \<le> steps_left (sy_tasks y ! i) - 1)"
  using assms steps_left_run [of "sy_tasks y ! i" B "ps_world (sy_process y)"]
    routed_run [of B "sy_tasks y ! i" "ps_world (sy_process y)"] by (simp add: runs_def)

text \<open>An infinite run of the system that does not starve task \<open>i\<close>.\<close>

locale fair_run =
  fixes B :: "('m, 'md, 'st) build"
    and \<sigma> :: "nat \<Rightarrow> ('m, 'md) system"
    and i :: nat
    and start :: nat
  assumes steps: "sys_step B (\<sigma> n) (\<sigma> (Suc n))"
    and present: "i < length (sy_tasks (\<sigma> start))"
    and fair: "\<exists>m\<ge>n. runs B i (\<sigma> m) (\<sigma> (Suc m))"
begin

lemma stays: "start \<le> n \<Longrightarrow> i < length (sy_tasks (\<sigma> n))"
proof (induction n rule: dec_induct)
  case (step n)
  then show ?case using sys_step_task [OF steps] by blast
qed (rule present)

lemma routed_soon: "\<exists>n\<ge>start. routed (sy_tasks (\<sigma> n) ! i)"
  using fair [of start] runs_step by (meson le_Suc_eq)

end

text \<open>The steps a routed task has left are a rank of such a run.\<close>

sublocale fair_run \<subseteq> progress: ranking \<sigma> "\<lambda>y. i < length (sy_tasks y) \<and> routed (sy_tasks y ! i)"
  "\<lambda>y. steps_left (sy_tasks y ! i)" "runs B i"
proof
  fix n
  assume here: "i < length (sy_tasks (\<sigma> n)) \<and> routed (sy_tasks (\<sigma> n) ! i)"
  show "(i < length (sy_tasks (\<sigma> (Suc n))) \<and> routed (sy_tasks (\<sigma> (Suc n)) ! i))
      \<and> steps_left (sy_tasks (\<sigma> (Suc n)) ! i) \<le> steps_left (sy_tasks (\<sigma> n) ! i)"
    using here steps_left_step [OF steps] sys_step_task [OF steps] by blast
  show "steps_left (sy_tasks (\<sigma> (Suc n)) ! i) < steps_left (sy_tasks (\<sigma> n) ! i)"
    if "steps_left (sy_tasks (\<sigma> n) ! i) \<noteq> 0" "runs B i (\<sigma> n) (\<sigma> (Suc n))"
    using here that runs_step [of B i "\<sigma> n" "\<sigma> (Suc n)"] by linarith
next
  fix n
  show "\<exists>m\<ge>n. steps_left (sy_tasks (\<sigma> m) ! i) = 0 \<or> runs B i (\<sigma> m) (\<sigma> (Suc m))"
    using fair by blast
qed

context fair_run
begin

lemma ends: "\<exists>n\<ge>start. \<exists>j r. sy_tasks (\<sigma> n) ! i = Ended j r"
proof -
  obtain n where n: "start \<le> n" "routed (sy_tasks (\<sigma> n) ! i)" using routed_soon by blast
  with stays progress.reaches_zero [of n] obtain m where "n \<le> m" "routed (sy_tasks (\<sigma> m) ! i)"
    "steps_left (sy_tasks (\<sigma> m) ! i) = 0" by blast
  with routed_done [of "sy_tasks (\<sigma> m) ! i"] n(1) show ?thesis by (meson le_trans)
qed

end

text \<open>The swaps a reload has left are another.\<close>

fun swaps_left :: "'md stage \<Rightarrow> nat" where
  "swaps_left Waiting = 0"
| "swaps_left (SwapProbers new) = 1"
| "swaps_left (SwapConfig new) = 2"
| "swaps_left (SwapPlugins new) = 3"
| "swaps_left (SwapLbs new) = 4"

lemma swaps_left_0 [simp]: "swaps_left s = 0 \<longleftrightarrow> s = Waiting"
  by (cases s) simp_all

lemma swaps_left_pos: "s \<noteq> Waiting \<Longrightarrow> 0 < swaps_left s"
  by (cases s) simp_all

lemma swaps_left_swap: "swaps_left (ps_stage (swap_next F p)) = swaps_left (ps_stage p) - 1"
  by (cases "ps_stage p") (simp_all add: swap_next_def Let_def)

lemma swaps_left_ctrl:
  "ctrl_step B p p' \<Longrightarrow> ps_stage p \<noteq> Waiting \<Longrightarrow> swaps_left (ps_stage p') \<le> swaps_left (ps_stage p)"
  by (induction rule: ctrl_step.induct) (simp_all add: swaps_left_swap)

lemma swaps_left_step:
  assumes "sys_step B y y'" "ps_stage (sy_process y) \<noteq> Waiting"
  shows "swaps_left (ps_stage (sy_process y')) \<le> swaps_left (ps_stage (sy_process y))"
  using assms by (induction rule: sys_step.induct) (simp_all add: swaps_left_ctrl)

lemma swap_ranking:
  assumes "\<forall>n. sys_step B (\<sigma> n) (\<sigma> (Suc n))"
    and "\<forall>n. \<exists>m\<ge>n. ps_stage (sy_process (\<sigma> m)) = Waiting
      \<or> sy_process (\<sigma> (Suc m)) = swap_next (bd_features B) (sy_process (\<sigma> m))"
  shows "ranking \<sigma> (\<lambda>y. True) (\<lambda>y. swaps_left (ps_stage (sy_process y)))
    (\<lambda>y y'. sy_process y' = swap_next (bd_features B) (sy_process y))"
proof
  fix n
  show "\<exists>m\<ge>n. swaps_left (ps_stage (sy_process (\<sigma> m))) = 0
      \<or> sy_process (\<sigma> (Suc m)) = swap_next (bd_features B) (sy_process (\<sigma> m))"
    using assms(2) by simp
qed (use assms(1) swaps_left_step in \<open>auto simp: swaps_left_swap swaps_left_pos\<close>)

section \<open>A concrete run\<close>

definition run_task :: "('m, 'md, 'st) build \<Rightarrow> nat \<Rightarrow> ('m, 'md) system \<Rightarrow> ('m, 'md) system" where
  "run_task B i y = (case task_run B (sy_tasks y ! i) (ps_world (sy_process y)) of
     (t, w) \<Rightarrow> y\<lparr>sy_process := (sy_process y)\<lparr>ps_world := w\<rparr>, sy_tasks := (sy_tasks y)[i := t]\<rparr>)"

lemma run_task_step: "i < length (sy_tasks y) \<Longrightarrow> sys_step B y (run_task B i y)"
  by (simp add: run_task_def sys_step.run split: prod.splits)

lemma length_run_task: "length (sy_tasks (run_task B i y)) = length (sy_tasks y)"
  by (simp add: run_task_def split: prod.splits)

text \<open>Round robin, from any state of the system with a new request, is fair to it.\<close>

primrec round_robin :: "('m, 'md, 'st) build \<Rightarrow> ('m, 'md) system \<Rightarrow> nat \<Rightarrow> ('m, 'md) system" where
  "round_robin B y 0 = y"
| "round_robin B y (Suc n) =
     (let s = round_robin B y n in run_task B (n mod length (sy_tasks s)) s)"

lemma length_round_robin: "length (sy_tasks (round_robin B y n)) = length (sy_tasks y)"
  by (induction n) (simp_all add: Let_def length_run_task)

lemma run_task_runs: "i < length (sy_tasks y) \<Longrightarrow> runs B i y (run_task B i y)"
  by (simp add: runs_def run_task_def split: prod.splits)

interpretation rr: fair_run B "round_robin B (y\<lparr>sy_tasks := sy_tasks y @ [Arrived j]\<rparr>)" "length (sy_tasks y)" 0
  for B :: "('m, 'md, 'st) build" and y j
proof
  let ?y = "y\<lparr>sy_tasks := sy_tasks y @ [Arrived j]\<rparr>" and ?k = "length (sy_tasks y)"
  fix n
  show "sys_step B (round_robin B ?y n) (round_robin B ?y (Suc n))"
    by (simp add: Let_def run_task_step length_round_robin)
  show "?k < length (sy_tasks (round_robin B ?y 0))" by simp
  have "runs B ?k (round_robin B ?y m) (round_robin B ?y (Suc m))" if "m mod Suc ?k = ?k" for m
    using that by (simp add: Let_def length_round_robin run_task_runs)
  moreover have "n \<le> n * Suc ?k + ?k" by simp
  moreover have "(n * Suc ?k + ?k) mod Suc ?k = ?k" unfolding mod_mult_self3 by simp
  ultimately show "\<exists>m\<ge>n. runs B ?k (round_robin B ?y m) (round_robin B ?y (Suc m))" by blast
qed

text \<open>Two interleaved requests to a route with two upstreams, the first of which refuses the
  first connection of each.\<close>

definition pair_config :: config where
  "pair_config = plain_config [plain_route ''r'' [''a:1'', ''b:1'']]"

definition demo_job :: "assoc_headers job" where
  "demo_job = \<lparr>jb_parts = get_parts [], jb_body = no_body, jb_conn = peer None,
     jb_client = second_answers, jb_nanos = 0\<rparr>"

definition demo_arrived :: "(assoc_headers, unit) system" where
  "demo_arrived = (sys_start (demo_start pair_config))\<lparr>sy_tasks := [Arrived demo_job, Arrived demo_job]\<rparr>"

definition demo_ended :: "(assoc_headers, unit) system" where
  "demo_ended = foldl (\<lambda>y i. run_task (demo_build pair_config) i y) demo_arrived [0, 1, 1, 0, 1, 0, 0, 1, 0, 1]"

lemma demo_ended_reachable: "(sys_step (demo_build pair_config))\<^sup>*\<^sup>* (sys_start (demo_start pair_config)) demo_ended"
proof -
  let ?B = "demo_build pair_config" and ?y = "sys_start (demo_start pair_config) :: (assoc_headers, unit) system"
  have "sys_step ?B ?y (?y\<lparr>sy_tasks := [Arrived demo_job]\<rparr>)"
    using sys_step.spawn [of ?B ?y demo_job] by (simp add: sys_start_def)
  moreover have "sys_step ?B (?y\<lparr>sy_tasks := [Arrived demo_job]\<rparr>) demo_arrived"
    using sys_step.spawn [of ?B "?y\<lparr>sy_tasks := [Arrived demo_job]\<rparr>" demo_job]
    by (simp add: sys_start_def demo_arrived_def)
  moreover have "(sys_step ?B)\<^sup>*\<^sup>* demo_arrived demo_ended"
    unfolding demo_ended_def
    by (rule foldl_reaches [where P = "\<lambda>y. length (sy_tasks y) = 2"])
      (auto simp: length_run_task run_task_step demo_arrived_def)
  ultimately show ?thesis by (meson converse_rtranclp_into_rtranclp)
qed

lemma demo_init: "process_init (demo_build pair_config) (demo_start pair_config)"
proof -
  let ?B = "demo_build pair_config"
  have "bd_features ?B = plain_features" "bd_http ?B = std_http" by (simp_all add: demo_build_def)
  moreover have "accepts std_http plain_features pair_config" by code_simp
  moreover have "build_plugin_cache (bd_wasm ?B) (\<lambda>_. Some []) pair_config = Inr Map.empty"
    by (simp add: build_plugin_cache_def pair_config_def plain_config_def plain_route_def)
  ultimately show ?thesis unfolding process_init_def demo_start_def by auto
qed

lemma demo_reports:
  "list_all (\<lambda>t. case t of Ended j r \<Rightarrow> map_option rs_status (rp_reply r) = Some 200
      \<and> map at_addr (rp_attempts r) \<in> {[''a:1'', ''b:1''], [''b:1'', ''a:1'']} | _ \<Rightarrow> False) (sy_tasks demo_ended)"
  by code_simp

lemma task_job_fold:
  "map task_job (sy_tasks (foldl (\<lambda>y i. run_task B i y) y is)) = map task_job (sy_tasks y)"
proof (induction "is" arbitrary: y)
  case (Cons i "is")
  have "map task_job (sy_tasks (run_task B i y)) = map task_job (sy_tasks y)"
    using task_job_run [of B "sy_tasks y ! i" "ps_world (sy_process y)"]
    by (cases "i < length (sy_tasks y)")
      (auto simp: run_task_def map_update list_update_beyond split: prod.splits
        intro: list_update_same_conv [THEN iffD2])
  with Cons show ?case by simp
qed simp

lemma length_demo_ended: "length (sy_tasks demo_ended) = 2"
  by code_simp

lemma demo_ended_first:
  obtains r where "sy_tasks demo_ended ! 0 = Ended demo_job r"
proof -
  have jobs: "map task_job (sy_tasks demo_ended) = [demo_job, demo_job]"
    unfolding demo_ended_def task_job_fold by (simp add: demo_arrived_def)
  then obtain t ts where ts: "sy_tasks demo_ended = t # ts" "task_job t = demo_job" by auto
  with demo_reports obtain j r where "t = Ended j r" by (auto split: task.splits)
  with ts show thesis by (intro that [of r]) simp
qed

lemma demo_ended_job:
  obtains r where "Ended demo_job r \<in> set (sy_tasks demo_ended)"
proof -
  obtain r where "sy_tasks demo_ended ! 0 = Ended demo_job r" by (rule demo_ended_first)
  with length_demo_ended nth_mem [of 0 "sy_tasks demo_ended"] show thesis by (intro that [of r]) simp
qed

section \<open>Properties\<close>

text \<open>What requests do concurrently is what \<open>handle\<close> does: in any interleaving of requests,
  reloads and probes, the reply, the attempts, the mirror request and the time of every
  finished request are those of one run of \<open>handle\<close>, whose start and whose attempts each see
  a shared state the process really was in.\<close>

lemma system_request_is_handled:
  assumes "(sys_step B)\<^sup>*\<^sup>* (sys_start p0) y" "Ended j r \<in> set (sy_tasks y)"
  shows "\<exists>w0 ws. visited B p0 w0 \<and> (\<forall>k. visited B p0 (ws k))
    \<and> r = report_of (handle (job_env B ws j) (jb_parts j) (jb_body j) (jb_conn j) w0)"
  using ended_is_handled [OF concurrent.inv_reachable [OF refl assms(1)] assms(2)]
  unfolding handled_def by metis

lemma system_request_is_handled_example:
  "\<exists>j r w0 ws. Ended j r \<in> set (sy_tasks demo_ended) \<and> visited (demo_build pair_config) (demo_start pair_config) w0
    \<and> r = report_of (handle (job_env (demo_build pair_config) ws j) (jb_parts j) (jb_body j) (jb_conn j) w0)"
proof -
  obtain r where r: "Ended demo_job r \<in> set (sy_tasks demo_ended)" by (rule demo_ended_job)
  from system_request_is_handled [OF demo_ended_reachable r] r show ?thesis by blast
qed

text \<open>C13 No count is lost: in any interleaving, the counters are those of the start plus one
  request for every request that has been routed, one error for each of their attempts that was
  not answered, and one observed duration for each that was.\<close>

theorem counters_account_for_requests:
  assumes "(sys_step B)\<^sup>*\<^sup>* (sys_start p0) y"
  defines "m0 \<equiv> w_metrics (ps_world p0)" and "m \<equiv> w_metrics (ps_world (sy_process y))"
    and "logs \<equiv> concat (map task_log (sy_tasks y))"
  shows "mt_requests m = mt_requests m0 + length (filter routed (sy_tasks y))
    \<and> mt_errors m = mt_errors m0 + length (filter (\<lambda>a. \<not> answered a) logs)
    \<and> length (mt_durations m) = length (mt_durations m0) + length (filter answered logs)"
proof -
  have "balanced m0 (sy_tasks y) m"
    using concurrent.inv_reachable [OF refl assms(1)] by (simp add: sys_inv_def m0_def m_def)
  moreover have "sum_list (map (fst \<circ> tally) ts) = length (filter routed ts)"
    "sum_list (map (fst \<circ> snd \<circ> tally) ts) = length (filter (\<lambda>a. \<not> answered a) (concat (map task_log ts)))"
    "sum_list (map (snd \<circ> snd \<circ> tally) ts) = length (filter answered (concat (map task_log ts)))"
    for ts :: "('a, 'b) task list"
    by (induction ts) (simp_all add: tally_def)
  ultimately show ?thesis by (simp add: balanced_def logs_def)
qed

theorem counters_account_for_requests_witness:
  "mt_requests (w_metrics (ps_world (sy_process demo_ended))) = 2
    \<and> mt_errors (w_metrics (ps_world (sy_process demo_ended)))
        = length (filter (\<lambda>a. \<not> answered a) (concat (map task_log (sy_tasks demo_ended))))"
proof -
  have "length (filter routed (sy_tasks demo_ended)) = 2" by code_simp
  moreover have "mt_requests (w_metrics (ps_world (demo_start pair_config))) = 0"
    "mt_errors (w_metrics (ps_world (demo_start pair_config))) = 0" by code_simp+
  ultimately show ?thesis
    using counters_account_for_requests [OF demo_ended_reachable] by simp
qed

text \<open>C9 Every request ends: whatever the shared state becomes between its steps, a request has
  ended after at most \<open>2 * m + 2\<close> steps of its own, \<open>m\<close> the largest number of attempts that a
  route allows in the configuration it is routed by.\<close>

theorem every_request_ends:
  assumes "\<forall>r\<in>set (cfg_route (w_config (ws 0))). max_attempts r \<le> m" "1 \<le> m"
  shows "\<exists>r. task_trace B ws (Arrived j) (2 * m + 2) = Ended j r"
proof -
  have "steps_left (task_trace B ws (Arrived j) 1) \<le> 2 * m + 1"
    using steps_left_arrive [of "ws 0" m B j] assms by simp
  with steps_left_trace [of B ws "Arrived j" "2 * m + 1"] routed_trace [of B ws "Arrived j" "2 * m + 1"]
  have "\<exists>j' r. task_trace B ws (Arrived j) (2 * m + 2) = Ended j' r"
    by (intro routed_done) simp_all
  moreover have "task_job (task_trace B ws (Arrived j) k) = j" for k
    by (induction k) (simp_all add: task_job_run)
  ultimately show ?thesis by (metis task_job.simps(4))
qed

theorem every_request_ends_witness:
  "\<exists>r. task_trace (demo_build pair_config) (\<lambda>k. if k < 3 then plain_world [plain_route ''r'' [''a:1'', ''b:1'']]
      else plain_world []) (Arrived demo_job) 6 = Ended demo_job r"
proof -
  let ?ws = "\<lambda>k::nat. if k < 3 then plain_world [plain_route ''r'' [''a:1'', ''b:1'']] else plain_world []"
  have "\<forall>r\<in>set (cfg_route (w_config (?ws 0))). max_attempts r \<le> 2" by code_simp
  with every_request_ends [of ?ws 2 "demo_build pair_config" demo_job] show ?thesis by simp
qed

text \<open>A run of \<open>handle\<close> in states whose balancers all fit accepted configurations attempts only
  parseable addresses of upstreams that these configurations list, and answers a request over a
  connection with a sound fingerprint: its task does not panic.\<close>

lemma handled_configured:
  assumes fits: "\<And>k. \<exists>c. accepts (bd_http B) (bd_features B) c \<and> lbs_fit (ws k) c"
    and r: "r = handled B ws j w0"
  shows "(\<forall>a\<in>set (rp_attempts r). \<exists>c route u. accepts (bd_http B) (bd_features B) c
        \<and> route \<in> set (cfg_route c) \<and> u \<in> set (rc_upstream route) \<and> at_addr a = uc_addr u
        \<and> (\<exists>host port. upstream_host_port (at_addr a) = Inr (host, port)))
    \<and> (fingerprint_ok (bd_http B) (jb_conn j) \<longrightarrow> rp_reply r \<noteq> None)"
proof -
  let ?P = "\<lambda>addr. \<exists>c route u. accepts (bd_http B) (bd_features B) c
        \<and> route \<in> set (cfg_route c) \<and> u \<in> set (rc_upstream route) \<and> addr = uc_addr u
        \<and> (\<exists>host port. upstream_host_port addr = Inr (host, port))"
  let ?oc = "handle (job_env B ws j) (jb_parts j) (jb_body j) (jb_conn j) w0"
  have pick: "?P addr" if "select_upstream (ws k) name tried = (Some addr, w')" for k name tried addr w'
  proof -
    obtain c where c: "accepts (bd_http B) (bd_features B) c" "lbs_fit (ws k) c" using fits by blast
    from select_upstream_addr [OF that]
    obtain lb where "w_lbs (ws k) name = Some lb" "addr \<in> lb_addrs lb" by blast
    with c(2) obtain route u where "route \<in> set (cfg_route c)" "u \<in> set (rc_upstream route)" "uc_addr u = addr"
      by (rule fit_addr)
    moreover from this c(1) have "valid_upstream u"
      by (auto simp: accepts_iff_valid valid_config_def valid_route_def)
    ultimately show ?thesis using c(1) by (auto simp: valid_upstream_def)
  qed
  have "?P (at_addr a)" if "a \<in> set (oc_attempts ?oc)" for a
  proof (cases rule: handle_cases [of "job_env B ws j" w0 "jb_parts j" "jb_body j" "jb_conn j"])
    case (forwarded plan)
    then have sent: "a \<in> set (oc_attempts (forward (job_env B ws j) plan (jb_parts j) (jb_body j) (jb_conn j) (inc_requests w0)))"
      using that by simp
    show ?thesis
      by (rule forward_picked [where P = ?P, OF _ sent]) (rule pick, simp only: job_env_simps)
  qed (use that in auto)
  moreover have "oc_reply ?oc \<noteq> None" if "fingerprint_ok (bd_http B) (jb_conn j)"
    by (rule handle_no_panic) (use that in simp)
  ultimately show ?thesis by (simp add: r handled_def report_of_def)
qed

text \<open>No request leaves the configuration: from an accepted start, in any interleaving, every
  finished request is such a run.\<close>

lemma attempts_stay_configured:
  assumes "process_started B p0" "(sys_step B)\<^sup>*\<^sup>* (sys_start p0) y" "Ended j r \<in> set (sy_tasks y)"
  shows "(\<forall>a\<in>set (rp_attempts r). \<exists>c route u. accepts (bd_http B) (bd_features B) c
        \<and> route \<in> set (cfg_route c) \<and> u \<in> set (rc_upstream route) \<and> at_addr a = uc_addr u
        \<and> (\<exists>host port. upstream_host_port (at_addr a) = Inr (host, port)))
    \<and> (fingerprint_ok (bd_http B) (jb_conn j) \<longrightarrow> rp_reply r \<noteq> None)"
proof -
  from ended_is_handled [OF concurrent.inv_reachable [OF refl assms(2)] assms(3)] obtain w0 ws where
    "\<And>k. visited B p0 (ws k)" and r: "r = handled B ws j w0" by metis
  then have "\<exists>c. accepts (bd_http B) (bd_features B) c \<and> lbs_fit (ws k) c" for k
    using visited_fits [OF assms(1)] by metis
  then show ?thesis by (rule handled_configured) (rule r)
qed

lemma attempts_stay_configured_example:
  "\<exists>r. Ended demo_job r \<in> set (sy_tasks demo_ended) \<and> rp_reply r \<noteq> None"
proof -
  obtain r where r: "Ended demo_job r \<in> set (sy_tasks demo_ended)" by (rule demo_ended_job)
  have "fingerprint_ok (bd_http (demo_build pair_config)) (jb_conn demo_job)"
    by (simp add: fingerprint_ok_def demo_job_def peer_def)
  with attempts_stay_configured [OF process_init_started [OF demo_init] demo_ended_reachable r] r show ?thesis by blast
qed

text \<open>No request starves: in every infinite run of the system, whatever reloads, probes and
  other requests do, a request that is scheduled again and again has a reply in the end (or
  its task has panicked, which sound fingerprints rule out).\<close>

lemma scheduled_request_ends:
  assumes "\<forall>n. sys_step B (\<sigma> n) (\<sigma> (Suc n))" "i < length (sy_tasks (\<sigma> start))"
    and "\<forall>n. \<exists>m\<ge>n. i < length (sy_tasks (\<sigma> m)) \<and> sy_tasks (\<sigma> (Suc m)) =
      (sy_tasks (\<sigma> m))[i := fst (task_run B (sy_tasks (\<sigma> m) ! i) (ps_world (sy_process (\<sigma> m))))]"
  shows "\<exists>n\<ge>start. \<exists>j r. sy_tasks (\<sigma> n) ! i = Ended j r"
  using assms by (intro fair_run.ends fair_run.intro) (auto simp: runs_def)

lemma scheduled_request_ends_example:
  "\<exists>n. \<exists>j r. sy_tasks (round_robin (demo_build pair_config) demo_arrived n) ! 1 = Ended j r"
proof -
  let ?B = "demo_build pair_config"
  let ?y = "(sys_start (demo_start pair_config))\<lparr>sy_tasks := [Arrived demo_job]\<rparr>"
  have y: "?y\<lparr>sy_tasks := sy_tasks ?y @ [Arrived demo_job]\<rparr> = demo_arrived" "length (sy_tasks ?y) = 1"
    by (simp_all add: demo_arrived_def)
  note facts = rr.steps [where B = ?B and y = ?y and j = demo_job]
    rr.present [where B = ?B and y = ?y and j = demo_job] rr.fair [where B = ?B and y = ?y and j = demo_job]
  show ?thesis
    using scheduled_request_ends [of ?B "round_robin ?B demo_arrived" 1 0] facts
    unfolding y runs_def by blast
qed

text \<open>Reloads complete and leave the process consistent: in every infinite run of the system
  in which a reload in progress gets its next lock again and again, the process is between
  reloads infinitely often, and then runs an accepted configuration with an upstream for every
  route and exactly its probers.\<close>

lemma reload_completes:
  assumes "process_init B p0" "(sys_step B)\<^sup>*\<^sup>* (sys_start p0) (\<sigma> 0)"
    and "\<forall>n. sys_step B (\<sigma> n) (\<sigma> (Suc n))"
    and "\<forall>n. \<exists>m\<ge>n. ps_stage (sy_process (\<sigma> m)) = Waiting
      \<or> sy_process (\<sigma> (Suc m)) = swap_next (bd_features B) (sy_process (\<sigma> m))"
  shows "\<exists>m\<ge>n. let p = sy_process (\<sigma> m); c = w_config (ps_world p) in
    ps_stage p = Waiting \<and> accepts (bd_http B) (bd_features B) c
    \<and> (\<forall>r\<in>set (cfg_route c). has_upstream (ps_world p) (rc_name r))
    \<and> mset (ps_running p) = mset (spawn_all_probers c)"
proof -
  from ranking.reaches_zero [OF swap_ranking [OF assms(3,4)], of n] obtain m where
    m: "n \<le> m" "ps_stage (sy_process (\<sigma> m)) = Waiting" by auto
  have "(sys_step B)\<^sup>*\<^sup>* (sys_start p0) (\<sigma> k)" for k
    using assms(2,3) by (induction k) (auto intro: rtranclp.rtrancl_into_rtrancl)
  from concurrent.abs_reachable [OF refl this] have "process_inv B (sy_process (\<sigma> m))"
    by (intro proc.inv_reachable [OF assms(1)]) (simp add: sys_start_def)
  with m fit_has_upstream show ?thesis
    by (intro exI [of _ m]) (auto simp: process_inv_def Let_def)
qed

text \<open>A reload of the demo process to its own configuration, and no-op signals after it.\<close>

definition reloading :: "nat \<Rightarrow> (assoc_headers, unit) system" where
  "reloading n = sys_start ((swap_next plain_features ^^ n) (sighup (demo_build pair_config) demo_files (demo_start pair_config)))"

lemma reload_completes_example:
  "ps_stage (sy_process (reloading 0)) \<noteq> Waiting \<and> (\<exists>m. ps_stage (sy_process (reloading m)) = Waiting)"
proof -
  let ?B = "demo_build pair_config" and ?none = "\<lparr>fs_text = (\<lambda>_. None), fs_bytes = (\<lambda>_. None)\<rparr>"
  have F: "bd_features ?B = plain_features" by (simp add: demo_build_def)
  have stage: "ps_stage (demo_start pair_config) = Waiting" by (simp add: demo_start_def)
  have "ctrl_step ?B (demo_start pair_config) (sighup ?B demo_files (demo_start pair_config))"
    by (rule ctrl_step.hup) (rule stage)
  from sys_step.control [of ?B "sys_start (demo_start pair_config) :: (assoc_headers, unit) system"] this
  have start: "(sys_step ?B)\<^sup>*\<^sup>* (sys_start (demo_start pair_config)) (reloading 0)"
    by (force simp: sys_start_def reloading_def)
  have idle: "sighup ?B ?none p = p" for p :: "unit process"
    by (simp add: sighup_def prepare_reload_def load_config_def)
  have ctrl: "ctrl_step ?B p (swap_next plain_features p)" for p
    using ctrl_step.swap [of p ?B] ctrl_step.hup [of p ?B ?none]
    by (cases "ps_stage p") (simp_all add: F idle, simp_all add: swap_next_def)
  have swap: "sy_process (reloading (Suc n)) = swap_next (bd_features ?B) (sy_process (reloading n))" for n
    by (simp add: reloading_def sys_start_def F)
  have "sys_step ?B (reloading n) (reloading (Suc n))" for n
    using sys_step.control [OF ctrl, of "reloading n"] swap [of n]
    by (simp add: reloading_def sys_start_def F)
  then have steps: "\<forall>n. sys_step ?B (reloading n) (reloading (Suc n))" by blast
  have fair: "\<forall>n. \<exists>m\<ge>n. ps_stage (sy_process (reloading m)) = Waiting
      \<or> sy_process (reloading (Suc m)) = swap_next (bd_features ?B) (sy_process (reloading m))"
    using swap by blast
  have "case ps_stage (sy_process (reloading 0)) of Waiting \<Rightarrow> False | _ \<Rightarrow> True" by code_simp
  with reload_completes [OF demo_init start steps fair, of 0] show ?thesis
    by (auto simp: Let_def)
qed

end
