(* ===== verification/Lifecycle.thy ===== *)
theory Lifecycle
  imports Server Drain Concurrent_Runs
begin

text \<open>
  The whole server, from "torana ready" to its exit: the listeners, their connections, the
  request tasks of every connection and the process they share, while signals reload it and
  the last one drains it.  The state combines the system of \<open>Concurrency\<close> with the phases of
  \<open>Drain\<close>, and simulates both.  A connection owns the tasks of its requests: hyper polls them
  as part of the connection and drops them with it.
\<close>

section \<open>The state\<close>

text \<open>A connection: in its handshake, served (its identity, whether it speaks HTTP/2 and its
  requests, as indexes of tasks), finished by hyper with every reply sent, or ended by an
  error, which drops the tasks that have not ended.\<close>

datatype 'svc conn_state =
    Handshake 'svc socket_addr
  | Serving connection bool "nat list"
  | Finished "nat list"
  | Dropped "nat list"

record ('m, 'md, 'svc) life =
  lv_system :: "('m, 'md) system"
  lv_phase :: phase
  lv_listeners :: "'svc option list"     \<comment> \<open>\<open>None\<close>: the listener's task has ended\<close>
  lv_conns :: "'svc conn_state list"

definition life_start :: "('md, 'cert, 'key) server \<Rightarrow> ('m, 'md, ('cert, 'key) service) life" where
  "life_start s = \<lparr>lv_system = sys_start (sr_process s), lv_phase = Running,
     lv_listeners = map (\<lambda>(addr, service). Some service) (sr_listeners s), lv_conns = []\<rparr>"

fun replied :: "('m, 'md) task \<Rightarrow> bool" where
  "replied (Ended j r) = (rp_reply r \<noteq> None)"
| "replied t = False"

definition reply_flags :: "('m, 'md, 'svc) life \<Rightarrow> nat list \<Rightarrow> bool list" where
  "reply_flags l ids = map (\<lambda>i. replied (sy_tasks (lv_system l) ! i)) ids"

definition all_replied :: "('m, 'md, 'svc) life \<Rightarrow> nat list \<Rightarrow> bool" where
  "all_replied l ids = list_all id (reply_flags l ids)"

text \<open>
  What hyper and rustls do at the edge is a parameter: when a connection may start another
  request, and when its future may resolve without an error, given whether it speaks HTTP/2
  and which of its requests have been answered; which sessions a handshake with an acceptor
  may end in; and SHA-256.  The laws are their documentation: HTTP/1 requests are served one
  after the other; a connection is finished, by itself or after \<open>graceful_shutdown\<close>, only when
  the requests it has started are; a server that does not ask for client certificates sees
  none.
\<close>

record ('cert, 'key) edge_api =
  eg_starts :: "bool \<Rightarrow> bool list \<Rightarrow> bool"
  eg_finishes :: "bool \<Rightarrow> bool list \<Rightarrow> bool"
  eg_session :: "('cert, 'key) tls_acceptor \<Rightarrow> session \<Rightarrow> bool"
  eg_sha256 :: "string \<Rightarrow> string"

locale edge =
  fixes E :: "('cert, 'key) edge_api"
  assumes starts_serial: "eg_starts E False rs \<Longrightarrow> list_all id rs"
    and finishes_served: "eg_finishes E h2 rs \<Longrightarrow> list_all id rs"
    and session_certs: "eg_session E acc ss \<Longrightarrow> ss_peer_certs ss \<noteq> None \<Longrightarrow> ta_client_roots acc \<noteq> None"

definition std_edge_api :: "('cert, 'key) edge_api" where
  "std_edge_api = \<lparr>eg_starts = (\<lambda>h2 rs. h2 \<or> list_all id rs), eg_finishes = (\<lambda>h2 rs. list_all id rs),
     eg_session = (\<lambda>acc ss. ss_peer_certs ss = None \<or> ta_client_roots acc \<noteq> None), eg_sha256 = (\<lambda>d. d)\<rparr>"

definition session_possible :: "('cert, 'key) edge_api \<Rightarrow> ('cert, 'key) service \<Rightarrow> session option \<Rightarrow> bool" where
  "session_possible E service hs = (case service of
      StaticTls acc \<Rightarrow> (case hs of Some ss \<Rightarrow> eg_session E acc ss | None \<Rightarrow> True)
    | _ \<Rightarrow> True)"

text \<open>What the drain loop sees: which tasks hold clones of the tracker.\<close>

fun is_handshake :: "'svc conn_state \<Rightarrow> bool" where
  "is_handshake (Handshake service a) = True"
| "is_handshake c = False"

fun is_serving :: "'svc conn_state \<Rightarrow> bool" where
  "is_serving (Serving conn h2 ids) = True"
| "is_serving c = False"

definition drain_view :: "('m, 'md, 'svc) life \<Rightarrow> server_state" where
  "drain_view l = \<lparr>sv_phase = lv_phase l, sv_listeners = length (filter (\<lambda>x. x \<noteq> None) (lv_listeners l)),
     sv_handshakes = length (filter is_handshake (lv_conns l)),
     sv_connections = length (filter is_serving (lv_conns l))\<rparr>"

section \<open>Operations\<close>

definition accept_conn :: "'svc \<Rightarrow> socket_addr \<Rightarrow> ('m, 'md, 'svc) life \<Rightarrow> ('m, 'md, 'svc) life" where
  "accept_conn service a l = l\<lparr>lv_conns := lv_conns l @ [Handshake service a]\<rparr>"

definition set_conn :: "nat \<Rightarrow> 'svc conn_state \<Rightarrow> ('m, 'md, 'svc) life \<Rightarrow> ('m, 'md, 'svc) life" where
  "set_conn c st l = l\<lparr>lv_conns := (lv_conns l)[c := st]\<rparr>"

definition handshake_result :: "(connection \<times> bool) option \<Rightarrow> 'svc conn_state" where
  "handshake_result r = (case r of Some (conn, h2) \<Rightarrow> Serving conn h2 [] | None \<Rightarrow> Dropped [])"

definition start_request ::
  "nat \<Rightarrow> connection \<Rightarrow> bool \<Rightarrow> nat list \<Rightarrow> 'm job \<Rightarrow> ('m, 'md, 'svc) life \<Rightarrow> ('m, 'md, 'svc) life" where
  "start_request c conn h2 ids j l =
     set_conn c (Serving conn h2 (ids @ [length (sy_tasks (lv_system l))]))
       (l\<lparr>lv_system := (lv_system l)\<lparr>sy_tasks := sy_tasks (lv_system l) @ [Arrived j]\<rparr>\<rparr>)"

definition run_request ::
  "('m, 'md, 'st) build \<Rightarrow> nat \<Rightarrow> ('m, 'md, 'svc) life \<Rightarrow> ('m, 'md, 'svc) life" where
  "run_request B i l = l\<lparr>lv_system := run_task B i (lv_system l)\<rparr>"

definition stop_listener :: "nat \<Rightarrow> ('m, 'md, 'svc) life \<Rightarrow> ('m, 'md, 'svc) life" where
  "stop_listener k l = l\<lparr>lv_listeners := (lv_listeners l)[k := None]\<rparr>"

text \<open>
  One action of any task.  Requests
  may still start while the server drains: a connection sees the shutdown signal at a time of
  its own choosing, and hyper finishes what had started by then.
\<close>

inductive life_action ::
  "('m, 'md, 'st) build \<Rightarrow> ('cert, 'key) edge_api \<Rightarrow> ('m, 'md, ('cert, 'key) service) life
    \<Rightarrow> ('m, 'md, ('cert, 'key) service) life \<Rightarrow> bool" for B E where
  control: "ctrl_step B (sy_process (lv_system l)) p \<Longrightarrow>
    life_action B E l (l\<lparr>lv_system := (lv_system l)\<lparr>sy_process := p\<rparr>\<rparr>)"
| accept: "Some service \<in> set (lv_listeners l) \<Longrightarrow> life_action B E l (accept_conn service a l)"
| handshake: "c < length (lv_conns l) \<Longrightarrow> lv_conns l ! c = Handshake service a \<Longrightarrow>
    session_possible E service hs \<Longrightarrow>
    life_action B E l (set_conn c (handshake_result (open_connection (eg_sha256 E) service a hs acme)) l)"
| request: "c < length (lv_conns l) \<Longrightarrow> lv_conns l ! c = Serving conn h2 ids \<Longrightarrow>
    eg_starts E h2 (reply_flags l ids) \<Longrightarrow> jb_conn j = conn \<Longrightarrow> life_action B E l (start_request c conn h2 ids j l)"
| run: "c < length (lv_conns l) \<Longrightarrow> lv_conns l ! c = Serving conn h2 ids \<Longrightarrow> i \<in> set ids \<Longrightarrow>
    life_action B E l (run_request B i l)"
| close: "c < length (lv_conns l) \<Longrightarrow> lv_conns l ! c = Serving conn h2 ids \<Longrightarrow> eg_finishes E h2 (reply_flags l ids) \<Longrightarrow>
    life_action B E l (set_conn c (Finished ids) l)"
| conn_error: "c < length (lv_conns l) \<Longrightarrow> lv_conns l ! c = Serving conn h2 ids \<Longrightarrow>
    life_action B E l (set_conn c (Dropped ids) l)"
| stop_listening: "shutting_down (drain_view l) \<Longrightarrow> k < length (lv_listeners l) \<Longrightarrow>
    lv_listeners l ! k = Some service \<Longrightarrow> life_action B E l (stop_listener k l)"
| drain: "drain_step (drain_view l) s \<Longrightarrow> life_action B E l (l\<lparr>lv_phase := sv_phase s\<rparr>)"

inductive_cases life_actionE: "life_action B E l l'"

text \<open>The process exits when the drain loop has ended.\<close>

definition life_step ::
  "('m, 'md, 'st) build \<Rightarrow> ('cert, 'key) edge_api \<Rightarrow> ('m, 'md, ('cert, 'key) service) life
    \<Rightarrow> ('m, 'md, ('cert, 'key) service) life \<Rightarrow> bool" where
  "life_step B E l l' \<longleftrightarrow> (\<forall>k. lv_phase l \<noteq> Stopped k) \<and> life_action B E l l'"

section \<open>The drain loop sees the server\<close>

lemma drain_view_simps [simp]:
  "drain_view (l\<lparr>lv_system := y\<rparr>) = drain_view l"
  "sv_phase (drain_view l) = lv_phase l"
  by (simp_all add: drain_view_def)

lemma drain_view_accept:
  "drain_view (accept_conn service a l) = (drain_view l)\<lparr>sv_handshakes := sv_handshakes (drain_view l) + 1\<rparr>"
  by (simp add: drain_view_def accept_conn_def)

lemma drain_view_conn:
  assumes "c < length (lv_conns l)"
  shows "drain_view (set_conn c st l) = (drain_view l)
    \<lparr>sv_handshakes := sv_handshakes (drain_view l) + of_bool (is_handshake st) - of_bool (is_handshake (lv_conns l ! c)),
     sv_connections := sv_connections (drain_view l) + of_bool (is_serving st) - of_bool (is_serving (lv_conns l ! c))\<rparr>"
proof -
  have "length (filter P ((lv_conns l)[c := st])) = length (filter P (lv_conns l)) + of_bool (P st) - of_bool (P (lv_conns l ! c))" for P
    using length_filter_update [OF assms, of P st] by linarith
  then show ?thesis by (simp only: drain_view_def set_conn_def) simp
qed

lemma drain_view_counts:
  assumes "c < length (lv_conns l)"
  shows "is_handshake (lv_conns l ! c) \<Longrightarrow> 0 < sv_handshakes (drain_view l)"
    and "is_serving (lv_conns l ! c) \<Longrightarrow> 0 < sv_connections (drain_view l)"
  using length_filter_pos [OF assms] by (simp_all add: drain_view_def)

lemma drain_view_listener:
  assumes "k < length (lv_listeners l)" "lv_listeners l ! k = Some service"
  shows "drain_view (stop_listener k l) = (drain_view l)\<lparr>sv_listeners := sv_listeners (drain_view l) - 1\<rparr>"
    and "0 < sv_listeners (drain_view l)"
  using length_filter_update [OF assms(1), of "\<lambda>x. x \<noteq> None" None] assms
    length_filter_pos [OF assms(1), of "\<lambda>x. x \<noteq> None"]
  by (simp_all add: drain_view_def stop_listener_def)

lemma record_same:
  "s\<lparr>sv_handshakes := sv_handshakes s, sv_connections := sv_connections s\<rparr> = s"
  "s\<lparr>sv_handshakes := h, sv_connections := sv_connections s\<rparr> = s\<lparr>sv_handshakes := h\<rparr>"
  "s\<lparr>sv_handshakes := sv_handshakes s, sv_connections := n\<rparr> = s\<lparr>sv_connections := n\<rparr>"
  by simp_all

lemma drain_step_view: "drain_step (drain_view l) s \<Longrightarrow> drain_view (l\<lparr>lv_phase := sv_phase s\<rparr>) = s"
  by (auto elim!: drain_stepE simp: drain_view_def)

lemma life_action_drain:
  assumes "life_action B E l l'"
  shows "drain_view l' = drain_view l \<or> server_step (drain_view l) (drain_view l')"
  using assms
proof cases
  case (accept service a)
  then have "0 < sv_listeners (drain_view l)"
    by (auto simp: drain_view_def filter_empty_conv)
  with accept task_step.accept [of "drain_view l"] show ?thesis by (simp add: drain_view_accept server_step_def)
next
  case (handshake c service a hs acme)
  note pos = drain_view_counts(1) [OF handshake(2)]
  show ?thesis
  proof (cases "open_connection (eg_sha256 E) service a hs acme")
    case None
    with handshake pos task_step.handshake_failed [of "drain_view l"] show ?thesis
      by (simp add: drain_view_conn handshake_result_def server_step_def record_same)
  next
    case (Some r)
    with handshake pos task_step.serve [of "drain_view l"] show ?thesis
      by (cases r) (simp add: drain_view_conn handshake_result_def server_step_def)
  qed
next
  case (request c conn h2 ids j)
  then show ?thesis by (simp add: start_request_def drain_view_conn record_same)
next
  case (run c conn h2 ids i)
  then show ?thesis by (simp add: run_request_def)
next
  case (close c conn h2 ids)
  then show ?thesis using drain_view_counts(2) [of c l] task_step.close [of "drain_view l"]
    by (simp add: drain_view_conn server_step_def record_same)
next
  case (conn_error c conn h2 ids)
  then show ?thesis using drain_view_counts(2) [of c l] task_step.close [of "drain_view l"]
    by (simp add: drain_view_conn server_step_def record_same)
next
  case (stop_listening k service)
  then show ?thesis using drain_view_listener [of k l service] task_step.stop_listening [of "drain_view l"]
    by (simp add: server_step_def)
next
  case (drain s)
  then show ?thesis by (simp add: drain_step_view server_stepI)
qed simp

section \<open>Invariants\<close>

text \<open>What the connections know of the tasks: an identity comes from a handshake of the
  listener, the tasks of a connection carry its identity, an HTTP/1 connection has at most one
  task that has not replied, and a finished connection none.\<close>

definition opened :: "('cert, 'key) edge_api \<Rightarrow> ('cert, 'key) service set \<Rightarrow> connection \<Rightarrow> bool" where
  "opened E services conn \<longleftrightarrow> (\<exists>service\<in>services. \<exists>a hs acme h2. session_possible E service hs
     \<and> open_connection (eg_sha256 E) service a hs acme = Some (conn, h2))"

fun conn_ids :: "'svc conn_state \<Rightarrow> nat list" where
  "conn_ids (Handshake service a) = []"
| "conn_ids (Serving conn h2 ids) = ids"
| "conn_ids (Finished ids) = ids"
| "conn_ids (Dropped ids) = ids"

fun conn_ok ::
  "('cert, 'key) edge_api \<Rightarrow> ('cert, 'key) service set \<Rightarrow> ('m, 'md) task list \<Rightarrow> ('cert, 'key) service conn_state \<Rightarrow> bool" where
  "conn_ok E services ts (Handshake service a) \<longleftrightarrow> service \<in> services"
| "conn_ok E services ts (Serving conn h2 ids) \<longleftrightarrow> opened E services conn
     \<and> (\<forall>i\<in>set ids. i < length ts \<and> jb_conn (task_job (ts ! i)) = conn)
     \<and> (\<not> h2 \<longrightarrow> (\<forall>i\<in>set (butlast ids). replied (ts ! i)))"
| "conn_ok E services ts (Finished ids) \<longleftrightarrow> (\<forall>i\<in>set ids. i < length ts \<and> replied (ts ! i))"
| "conn_ok E services ts (Dropped ids) \<longleftrightarrow> (\<forall>i\<in>set ids. i < length ts)"

definition owned :: "nat \<Rightarrow> 'svc conn_state list \<Rightarrow> bool" where
  "owned n conns \<longleftrightarrow> (\<forall>i<n. \<exists>st\<in>set conns. i \<in> set (conn_ids st))"

definition life_inv ::
  "('cert, 'key) edge_api \<Rightarrow> ('cert, 'key) service set \<Rightarrow> ('m, 'md, ('cert, 'key) service) life \<Rightarrow> bool" where
  "life_inv E services l \<longleftrightarrow> (let ts = sy_tasks (lv_system l) in
     (\<forall>service. Some service \<in> set (lv_listeners l) \<longrightarrow> service \<in> services)
     \<and> (\<forall>st\<in>set (lv_conns l). conn_ok E services ts st)
     \<and> owned (length ts) (lv_conns l)
     \<and> (\<forall>t\<in>set ts. opened E services (jb_conn (task_job t))))"

text \<open>Tasks only get further: those that have replied stay as they are, and none changes its job.\<close>

definition advances :: "('m, 'md) task list \<Rightarrow> ('m, 'md) task list \<Rightarrow> bool" where
  "advances ts ts' \<longleftrightarrow> length ts \<le> length ts'
     \<and> (\<forall>i<length ts. task_job (ts' ! i) = task_job (ts ! i) \<and> (replied (ts ! i) \<longrightarrow> replied (ts' ! i)))"

lemma replied_run: "replied t \<Longrightarrow> task_run B t w = (t, w)"
  by (cases t) auto

lemma advances_refl: "advances ts ts"
  by (simp add: advances_def)

lemma advances_snoc: "advances ts (ts @ [t])"
  by (simp add: advances_def nth_append)

lemma advances_run: "advances (sy_tasks y) (sy_tasks (run_task B i y))"
proof -
  have "task_job (sy_tasks (run_task B i y) ! k) = task_job (sy_tasks y ! k)
      \<and> (replied (sy_tasks y ! k) \<longrightarrow> replied (sy_tasks (run_task B i y) ! k))"
    if "k < length (sy_tasks y)" for k
    using that task_job_run [of B "sy_tasks y ! i" "ps_world (sy_process y)"]
      replied_run [of "sy_tasks y ! i" B "ps_world (sy_process y)"]
    by (cases "k = i") (auto simp: run_task_def split: prod.splits)
  then show ?thesis by (simp add: advances_def length_run_task)
qed

lemma conn_ok_advances:
  assumes "conn_ok E services ts st" "advances ts ts'"
  shows "conn_ok E services ts' st"
  using assms by (cases st) (auto simp: advances_def dest: in_set_butlastD)

lemma conns_ok_update:
  assumes "\<forall>st\<in>set conns. conn_ok E services ts st" "conn_ok E services ts st'"
  shows "\<forall>st\<in>set (conns[c := st']). conn_ok E services ts st"
  using assms set_update_subset_insert [of conns c st'] by blast

lemma owned_update:
  assumes "owned n conns" "c < length conns" "set (conn_ids (conns ! c)) \<subseteq> set (conn_ids st)"
  shows "owned n (conns[c := st])"
  unfolding owned_def
proof (intro allI impI)
  fix i
  assume "i < n"
  with assms(1) obtain k where "k < length conns" "i \<in> set (conn_ids (conns ! k))"
    unfolding owned_def by (metis in_set_conv_nth)
  with assms(2,3) have "k < length (conns[c := st])" "i \<in> set (conn_ids (conns[c := st] ! k))"
    by (auto simp: nth_list_update)
  then show "\<exists>st'\<in>set (conns[c := st]). i \<in> set (conn_ids st')" using nth_mem by blast
qed

text \<open>A change of one connection.\<close>

lemma life_inv_set_conn:
  assumes "life_inv E services l" "c < length (lv_conns l)"
    and "set (conn_ids (lv_conns l ! c)) \<subseteq> set (conn_ids st)"
    and "conn_ok E services (sy_tasks (lv_system l)) st"
  shows "life_inv E services (set_conn c st l)"
  using assms conns_ok_update [of "lv_conns l" E services "sy_tasks (lv_system l)" st c]
    owned_update [of "length (sy_tasks (lv_system l))" "lv_conns l" c st]
  by (simp add: life_inv_def set_conn_def Let_def)

lemma life_inv_conn:
  assumes "life_inv E services l" "c < length (lv_conns l)"
  shows "conn_ok E services (sy_tasks (lv_system l)) (lv_conns l ! c)"
  using assms by (simp add: life_inv_def Let_def)

lemma life_inv_system:
  assumes "life_inv E services l" "advances (sy_tasks (lv_system l)) (sy_tasks y)"
    and "length (sy_tasks y) = length (sy_tasks (lv_system l))"
  shows "life_inv E services (l\<lparr>lv_system := y\<rparr>)"
proof -
  have "opened E services (jb_conn (task_job t))" if "t \<in> set (sy_tasks y)" for t
  proof -
    from that obtain i where "i < length (sy_tasks y)" "t = sy_tasks y ! i" by (auto simp: in_set_conv_nth)
    with assms show ?thesis by (simp add: life_inv_def advances_def Let_def)
  qed
  moreover have "conn_ok E services (sy_tasks y) st" if "st \<in> set (lv_conns l)" for st
    using that assms(1) by (intro conn_ok_advances [OF _ assms(2)]) (simp add: life_inv_def Let_def)
  ultimately show ?thesis using assms(1,3) by (simp add: life_inv_def Let_def)
qed

lemma owned_Suc:
  assumes "owned n conns" "st \<in> set conns" "n \<in> set (conn_ids st)"
  shows "owned (Suc n) conns"
  using assms by (auto simp: owned_def less_Suc_eq)

lemma life_inv_request:
  assumes "life_inv E services l" "c < length (lv_conns l)" "lv_conns l ! c = Serving conn h2 ids"
    and "h2 \<or> all_replied l ids" "jb_conn j = conn"
  shows "life_inv E services (start_request c conn h2 ids j l)"
proof -
  let ?ts = "sy_tasks (lv_system l)"
  let ?st = "Serving conn h2 (ids @ [length ?ts])" and ?ts' = "?ts @ [Arrived j]"
  have c: "conn_ok E services ?ts (Serving conn h2 ids)" using life_inv_conn [OF assms(1,2)] assms(3) by simp
  then have replied: "\<not> h2 \<longrightarrow> (\<forall>i\<in>set ids. replied (?ts ! i))"
    using assms(4) by (auto simp: all_replied_def reply_flags_def list_all_iff)
  have new: "conn_ok E services ?ts' ?st"
    using c replied assms(5) by (auto simp: nth_append)
  have "\<forall>st\<in>set (lv_conns l). conn_ok E services ?ts' st"
    using assms(1) by (auto intro!: conn_ok_advances [OF _ advances_snoc] simp: life_inv_def Let_def)
  from conns_ok_update [OF this new] have "\<forall>st\<in>set ((lv_conns l)[c := ?st]). conn_ok E services ?ts' st" .
  moreover have "owned (length ?ts) ((lv_conns l)[c := ?st])"
    using assms(1-3) by (intro owned_update) (auto simp: life_inv_def Let_def)
  then have "owned (Suc (length ?ts)) ((lv_conns l)[c := ?st])"
    using assms(2) by (rule owned_Suc [OF _ set_update_memI]) simp_all
  ultimately show ?thesis
    using assms(1,5) c by (simp add: life_inv_def start_request_def set_conn_def Let_def)
qed

lemma life_inv_action:
  assumes "edge E" "life_action B E l l'" "life_inv E services l"
  shows "life_inv E services l'"
  using assms(2)
proof cases
  case (control p)
  then show ?thesis using assms(3) by (auto intro!: life_inv_system advances_refl simp: advances_def)
next
  case (accept service a)
  with assms(3) show ?thesis
    by (auto simp: life_inv_def accept_conn_def owned_def Let_def)
next
  case (handshake c service a hs acme)
  have "service \<in> services" using life_inv_conn [OF assms(3) handshake(2)] handshake(3) by simp
  then have "conn_ok E services (sy_tasks (lv_system l)) (handshake_result (open_connection (eg_sha256 E) service a hs acme))"
    unfolding handshake_result_def using handshake(4)
    by (auto simp: opened_def split: option.splits) blast
  with handshake assms(3) show ?thesis by (auto intro!: life_inv_set_conn)
next
  case (request c conn h2 ids j)
  have "h2 \<or> all_replied l ids"
    using edge.starts_serial [OF assms(1)] request(4) by (cases h2) (simp_all add: all_replied_def)
  with request show ?thesis using life_inv_request [OF assms(3)] by simp
next
  case (run c conn h2 ids i)
  with assms(3) show ?thesis
    unfolding run_request_def by (auto intro!: life_inv_system advances_run simp: run_request_def length_run_task)
next
  case (close c conn h2 ids)
  have "list_all id (reply_flags l ids)"
    using edge.finishes_served [OF assms(1) close(4)] .
  with close life_inv_conn [OF assms(3) close(2)] assms(3) show ?thesis
    by (auto intro!: life_inv_set_conn simp: list_all_iff reply_flags_def)
next
  case (conn_error c conn h2 ids)
  with life_inv_conn [OF assms(3) conn_error(2)] assms(3) show ?thesis
    by (auto intro!: life_inv_set_conn)
next
  case (stop_listening k service)
  with assms(3) show ?thesis
    by (auto simp: life_inv_def stop_listener_def Let_def dest: set_update_subset_insert [THEN subsetD])
next
  case (drain s)
  with assms(3) show ?thesis by (simp add: life_inv_def)
qed

lemma life_inv_start: "life_inv E (snd ` set (sr_listeners s)) (life_start s)"
  by (force simp: life_inv_def life_start_def sys_start_def owned_def Let_def image_iff)

lemma life_action_sys:
  assumes "life_action B E l l'" "life_inv E services l"
  shows "(sys_step B)\<^sup>*\<^sup>* (lv_system l) (lv_system l')"
  using assms(1)
proof cases
  case (control p)
  then show ?thesis by (simp add: sys_step.control r_into_rtranclp)
next
  case (request c conn h2 ids j)
  then show ?thesis
    using sys_step.spawn [of B "lv_system l" j] by (simp add: start_request_def set_conn_def r_into_rtranclp)
next
  case (run c conn h2 ids i)
  then have "i < length (sy_tasks (lv_system l))" using life_inv_conn [OF assms(2) run(2)] by simp
  with run show ?thesis by (simp add: run_request_def run_task_step r_into_rtranclp)
qed (simp_all add: accept_conn_def set_conn_def stop_listener_def)

text \<open>The server simulates the system of requests, and the server the drain loop sees.\<close>

sublocale edge \<subseteq> life_sys: simulation "\<lambda>l. l = life_start s" "life_step B E"
  "life_inv E (snd ` set (sr_listeners s))" "\<lambda>y. y = sys_start (sr_process s)" "sys_step B" lv_system
  for B :: "('m, 'md, 'st) build" and s :: "('md, 'cert, 'key) server"
proof unfold_locales
  fix l l' :: "('m, 'md, ('cert, 'key) service) life"
  let ?inv = "life_inv E (snd ` set (sr_listeners s))"
  show "l = life_start s \<Longrightarrow> ?inv l" by (simp add: life_inv_start)
  show "?inv l \<Longrightarrow> life_step B E l l' \<Longrightarrow> ?inv l'"
    unfolding life_step_def by (blast intro: life_inv_action [OF edge_axioms])
  show "l = life_start s \<Longrightarrow> lv_system l = sys_start (sr_process s)" by (simp add: life_start_def)
  show "?inv l \<Longrightarrow> life_step B E l l' \<Longrightarrow> (sys_step B)\<^sup>*\<^sup>* (lv_system l) (lv_system l')"
    using life_action_sys by (auto simp: life_step_def)
qed

sublocale edge \<subseteq> life_drain: simulation "\<lambda>l. l = life_start s" "life_step B E"
  "life_inv E (snd ` set (sr_listeners s))" "\<lambda>d. d = started (length (sr_listeners s))" server_step drain_view
  for B :: "('m, 'md, 'st) build" and s :: "('md, 'cert, 'key) server"
proof unfold_locales
  fix l l' :: "('m, 'md, ('cert, 'key) service) life"
  show "l = life_start s \<Longrightarrow> drain_view l = started (length (sr_listeners s))"
    by (simp add: drain_view_def life_start_def started_def filter_id_conv comp_def split_def)
  show "server_step\<^sup>*\<^sup>* (drain_view l) (drain_view l')" if "life_step B E l l'"
    using that life_action_drain [of B E l l'] by (auto simp: life_step_def)
qed

context edge
begin

lemma life_inv_reachable:
  "(life_step B E)\<^sup>*\<^sup>* (life_start s) l \<Longrightarrow> life_inv E (snd ` set (sr_listeners s)) l"
  by (rule life_sys.inv_reachable [OF refl])

lemma life_requests_reachable:
  "(life_step B E)\<^sup>*\<^sup>* (life_start s) l \<Longrightarrow>
     (sys_step B)\<^sup>*\<^sup>* (sys_start (sr_process s)) (lv_system l)"
  using life_sys.abs_reachable [OF refl] by (simp add: life_start_def)

lemma drain_inv_reachable:
  "(life_step B E)\<^sup>*\<^sup>* (life_start s) l \<Longrightarrow> drain_inv (drain_view l)"
  using life_drain.abs_reachable [OF refl, of B s l] shutdown.inv_reachable [of "drain_view (life_start s)" "drain_view l"]
  by auto

text \<open>However connections come and go, the drain loop makes at most 300 polls.\<close>

lemma life_drain_bounded:
  assumes "(life_step B E)\<^sup>*\<^sup>* (life_start s) l" "lv_phase l = Draining t n"
  shows "n \<le> 300 \<and> 50 * n \<le> t"
  using drain_inv_reachable [OF assms(1)] assms(2)
  by (simp add: drain_inv_def DRAIN_TIMEOUT_def POLL_INTERVAL_def)

end

interpretation std_edge: edge std_edge_api
  by unfold_locales (simp_all add: std_edge_api_def)

section \<open>The end of the drain\<close>

text \<open>The rounds the server has left, at most: waiting for the signal, the polls and the stop.\<close>

definition rounds_left :: "phase \<Rightarrow> nat" where
  "rounds_left ph = (case ph of Running \<Rightarrow> 302 | Draining t n \<Rightarrow> 301 - n | Stopped k \<Rightarrow> 0)"

lemma drain_step_rounds:
  assumes "drain_step s s'" "drain_inv s" "drain_inv s'" "sv_phase s' \<noteq> sv_phase s"
  shows "rounds_left (sv_phase s') < rounds_left (sv_phase s)"
  using assms
  by (auto elim!: drain_stepE simp: rounds_left_def drain_inv_def DRAIN_TIMEOUT_def POLL_INTERVAL_def)

lemma life_action_phase:
  assumes "life_action B E l l'" "lv_phase l' \<noteq> lv_phase l"
  shows "drain_step (drain_view l) (drain_view l')"
  using assms
  by (auto elim!: life_actionE simp: accept_conn_def set_conn_def start_request_def run_request_def
      stop_listener_def drain_step_view)

context edge
begin

lemma rounds_left_step:
  assumes "(life_step B E)\<^sup>*\<^sup>* (life_start s) l" "life_step B E l l'"
  shows "lv_phase l' = lv_phase l \<or> rounds_left (lv_phase l') < rounds_left (lv_phase l)"
proof -
  have "(life_step B E)\<^sup>*\<^sup>* (life_start s) l'" using assms by (rule rtranclp.rtrancl_into_rtrancl)
  with assms drain_inv_reachable have "drain_inv (drain_view l)" "drain_inv (drain_view l')" by blast+
  with drain_step_rounds [of "drain_view l" "drain_view l'"] assms(2) show ?thesis
    using life_action_phase [of B E l l'] by (auto simp: life_step_def)
qed

end

section \<open>Concrete lives\<close>

text \<open>A server that serves one request over one connection.\<close>

definition serve_one ::
  "('m, 'md, 'st) build \<Rightarrow> ('md, 'cert, 'key) server \<Rightarrow> ('cert, 'key) service \<Rightarrow> socket_addr \<Rightarrow> connection
    \<Rightarrow> bool \<Rightarrow> 'm job \<Rightarrow> ('m, 'md, ('cert, 'key) service) life" where
  "serve_one B s service a conn h2 j = foldl (\<lambda>l i. run_request B i l)
     (start_request 0 conn h2 [] j (set_conn 0 (Serving conn h2 []) (accept_conn service a (life_start s))))
     [0, 0, 0, 0, 0]"

lemma run_request_simps [simp]:
  "lv_phase (run_request B i l) = lv_phase l" "lv_conns (run_request B i l) = lv_conns l"
  "lv_listeners (run_request B i l) = lv_listeners l"
  "length (sy_tasks (lv_system (run_request B i l))) = length (sy_tasks (lv_system l))"
  by (simp_all add: run_request_def length_run_task)

lemma serve_one_facts:
  "lv_phase (serve_one B s service a conn h2 j) = Running"
  "lv_conns (serve_one B s service a conn h2 j) = [Serving conn h2 [0]]"
  "lv_listeners (serve_one B s service a conn h2 j) = map (\<lambda>(addr, service). Some service) (sr_listeners s)"
  "length (sy_tasks (lv_system (serve_one B s service a conn h2 j))) = 1"
  by (simp_all add: serve_one_def start_request_def set_conn_def accept_conn_def life_start_def sys_start_def)

lemma serve_one_job: "map task_job (sy_tasks (lv_system (serve_one B s service a conn h2 j))) = [j]"
  using task_job_fold [of B "lv_system (start_request 0 conn h2 [] j
      (set_conn 0 (Serving conn h2 []) (accept_conn service a (life_start s))))" "[0, 0, 0, 0, 0]"]
  by (simp add: serve_one_def run_request_def start_request_def set_conn_def accept_conn_def life_start_def
      sys_start_def)

lemma serve_one_reachable:
  fixes B :: "('m, 'md, 'st) build" and E :: "('cert, 'key) edge_api"
  assumes "(addr, service) \<in> set (sr_listeners s)" "session_possible E service hs"
    and "open_connection (eg_sha256 E) service a hs acme = Some (conn, h2)" "eg_starts E h2 []" "jb_conn j = conn"
  shows "(life_step B E)\<^sup>*\<^sup>* (life_start s) (serve_one B s service a conn h2 j)"
proof -
  let ?l1 = "accept_conn service a (life_start s)"
  let ?l2 = "set_conn 0 (Serving conn h2 []) ?l1" and ?l3 = "start_request 0 conn h2 [] j (set_conn 0 (Serving conn h2 []) ?l1)"
  have "Some service \<in> set (lv_listeners (life_start s))" using assms(1) by (force simp: life_start_def)
  then have "life_step B E (life_start s) ?l1"
    using life_action.accept [of service "life_start s" B E a] by (simp add: life_step_def life_start_def)
  moreover have "life_step B E ?l1 ?l2"
    using life_action.handshake [of 0 ?l1 service a E hs B acme] assms(2,3)
    by (simp add: life_step_def accept_conn_def life_start_def handshake_result_def)
  moreover have "life_step B E ?l2 ?l3"
    using life_action.request [of 0 ?l2 conn h2 "[]" E j B] assms(4,5)
    by (simp add: life_step_def set_conn_def accept_conn_def life_start_def reply_flags_def)
  moreover have "(life_step B E)\<^sup>*\<^sup>* ?l3 (serve_one B s service a conn h2 j)"
    unfolding serve_one_def
  proof (rule foldl_reaches [where P = "\<lambda>l. lv_phase l = Running \<and> lv_conns l = [Serving conn h2 [0]]"])
    fix l :: "('m, 'md, ('cert, 'key) service) life" and i
    assume "lv_phase l = Running \<and> lv_conns l = [Serving conn h2 [0]]" "i \<in> set [0, 0, 0, 0, 0 :: nat]"
    then show "life_step B E l (run_request B i l) \<and> lv_phase (run_request B i l) = Running
        \<and> lv_conns (run_request B i l) = [Serving conn h2 [0]]"
      using life_action.run [of 0 l conn h2 "[0]" i B E] by (auto simp: life_step_def)
  qed (simp add: start_request_def set_conn_def accept_conn_def life_start_def sys_start_def)
  ultimately show ?thesis by (meson converse_rtranclp_into_rtranclp)
qed

text \<open>One with a plain listener, which then drains.\<close>

definition demo_server :: "(unit, string, string) server" where
  "demo_server = \<lparr>sr_process = process_start (demo_build pair_config) (fs_bytes demo_files) pair_config zero_metrics,
     sr_metrics_addr = ''127.0.0.1:9090'', sr_listeners = [(''127.0.0.1:8080'', PlainHttp)]\<rparr>"

definition demo_peer :: socket_addr where
  "demo_peer = \<lparr>ip_text = ''10.0.0.1'', port_num = 5\<rparr>"

definition demo_conn :: connection where
  "demo_conn = fst (plain_connection demo_peer)"

definition demo_request :: "assoc_headers job" where
  "demo_request = demo_job\<lparr>jb_conn := demo_conn\<rparr>"

definition demo_replied :: "(assoc_headers, unit, (string, string) service) life" where
  "demo_replied = serve_one (demo_build pair_config) demo_server PlainHttp demo_peer demo_conn False demo_request"

definition demo_drained :: "(assoc_headers, unit, (string, string) service) life" where
  "demo_drained = stop_listener 0 ((set_conn 0 (Finished [0]) demo_replied)\<lparr>lv_phase := Draining 0 0\<rparr>)"

abbreviation demo_life_step ::
  "(assoc_headers, unit, (string, string) service) life \<Rightarrow> (assoc_headers, unit, (string, string) service) life \<Rightarrow> bool" where
  "demo_life_step \<equiv> life_step (demo_build pair_config) std_edge_api"

lemma demo_replied_facts:
  "lv_phase demo_replied = Running" "lv_conns demo_replied = [Serving demo_conn False [0]]"
  "lv_listeners demo_replied = [Some PlainHttp]" "length (sy_tasks (lv_system demo_replied)) = 1"
  by (simp_all add: demo_replied_def serve_one_facts) (simp add: demo_server_def)

lemma demo_replied_reply: "all_replied demo_replied [0]"
  by code_simp

lemma demo_replied_reachable: "demo_life_step\<^sup>*\<^sup>* (life_start demo_server) demo_replied"
  unfolding demo_replied_def
  by (rule serve_one_reachable [where hs = None and acme = AcmeFailed and addr = "''127.0.0.1:8080''"])
    (simp_all add: demo_server_def session_possible_def open_connection_def demo_conn_def plain_connection_def
      std_edge_api_def demo_request_def)

lemma demo_drained_run: "demo_life_step\<^sup>*\<^sup>* demo_replied demo_drained"
proof -
  let ?B = "demo_build pair_config"
  let ?l1 = "set_conn 0 (Finished [0]) demo_replied"
  let ?l2 = "?l1\<lparr>lv_phase := Draining 0 0\<rparr>"
  have "demo_life_step demo_replied ?l1"
    using life_action.close [of 0 demo_replied demo_conn False "[0]" std_edge_api ?B] demo_replied_reply
    by (simp add: life_step_def demo_replied_facts all_replied_def std_edge_api_def)
  moreover have "drain_step (drain_view ?l1) ((drain_view ?l1)\<lparr>sv_phase := Draining 0 0\<rparr>)"
    by (rule drain_step.signal) (simp add: set_conn_def demo_replied_facts)
  then have "demo_life_step ?l1 ?l2"
    using life_action.drain [of ?l1 "(drain_view ?l1)\<lparr>sv_phase := Draining 0 0\<rparr>" ?B std_edge_api]
    by (simp add: life_step_def set_conn_def demo_replied_facts)
  moreover have "demo_life_step ?l2 demo_drained"
    unfolding demo_drained_def life_step_def
    by (simp add: life_action.stop_listening [where service = PlainHttp] shutting_down_def set_conn_def demo_replied_facts)
  ultimately show ?thesis by (meson converse_rtranclp_into_rtranclp rtranclp.rtrancl_refl)
qed

lemma demo_drained_reachable: "demo_life_step\<^sup>*\<^sup>* (life_start demo_server) demo_drained"
  using demo_replied_reachable demo_drained_run by (meson rtranclp_trans)

lemma demo_drained_phase: "lv_phase demo_drained = Draining 0 0"
  by (simp add: demo_drained_def stop_listener_def)

lemma demo_stops: "demo_life_step demo_drained (demo_drained\<lparr>lv_phase := Stopped 0\<rparr>)"
proof -
  let ?v = "drain_view demo_drained"
  have "strong_count ?v = 1"
    by (simp add: strong_count_def drain_view_def demo_drained_def stop_listener_def set_conn_def demo_replied_facts)
  then have "drain_step ?v (?v\<lparr>sv_phase := Stopped 0\<rparr>)"
    using drain_step.stop [of ?v 0 0] by (simp add: baseline_def demo_drained_phase)
  then show ?thesis
    using life_action.drain [of demo_drained "?v\<lparr>sv_phase := Stopped 0\<rparr>" "demo_build pair_config" std_edge_api]
    by (simp add: life_step_def demo_drained_phase)
qed

section \<open>Properties\<close>



text \<open>C34 The server exits: once the signal has come, the drain loop, if it keeps getting its turn,
  ends after at most 300 polls, whatever connections, requests, probes and reloads do meanwhile.\<close>

theorem server_exits:
  assumes "edge E" "(life_step B E)\<^sup>*\<^sup>* (life_start s) (\<sigma> 0)"
    and "\<forall>n. life_step B E (\<sigma> n) (\<sigma> (Suc n)) \<or> (\<exists>k. lv_phase (\<sigma> n) = Stopped k) \<and> \<sigma> (Suc n) = \<sigma> n"
    and "\<forall>n. \<exists>m\<ge>n. (\<exists>k. lv_phase (\<sigma> m) = Stopped k) \<or> lv_phase (\<sigma> (Suc m)) \<noteq> lv_phase (\<sigma> m)"
  shows "(\<exists>m k. lv_phase (\<sigma> m) = Stopped k) \<and> (\<forall>n t polls. lv_phase (\<sigma> n) = Draining t polls \<longrightarrow> polls \<le> 300)"
proof -
  have reach: "(life_step B E)\<^sup>*\<^sup>* (life_start s) (\<sigma> n)" for n
  proof (induction n)
    case (Suc n)
    then show ?case using assms(3) by (metis rtranclp.rtrancl_into_rtrancl)
  qed (rule assms(2))
  let ?rank = "\<lambda>l. rounds_left (lv_phase l)"
  have stopped: "?rank (\<sigma> n) = 0 \<longleftrightarrow> (\<exists>k. lv_phase (\<sigma> n) = Stopped k)" for n
  proof (cases "lv_phase (\<sigma> n)")
    case (Draining t polls)
    with edge.life_drain_bounded [OF assms(1) reach this] show ?thesis by (simp add: rounds_left_def)
  qed (simp_all add: rounds_left_def)
  have lower: "lv_phase (\<sigma> (Suc n)) = lv_phase (\<sigma> n) \<or> ?rank (\<sigma> (Suc n)) < ?rank (\<sigma> n)" for n
    using assms(3) edge.rounds_left_step [OF assms(1) reach] by metis
  have "ranking \<sigma> (\<lambda>l. True) ?rank (\<lambda>l l'. lv_phase l' \<noteq> lv_phase l)"
  proof
    fix n
    show "True \<and> ?rank (\<sigma> (Suc n)) \<le> ?rank (\<sigma> n)" using lower [of n] by auto
    show "?rank (\<sigma> (Suc n)) < ?rank (\<sigma> n)" if "lv_phase (\<sigma> (Suc n)) \<noteq> lv_phase (\<sigma> n)"
      using lower [of n] that by simp
    show "\<exists>m\<ge>n. ?rank (\<sigma> m) = 0 \<or> lv_phase (\<sigma> (Suc m)) \<noteq> lv_phase (\<sigma> m)"
      using assms(4) stopped by metis
  qed
  from ranking.reaches_zero [OF this] have "\<exists>m k. lv_phase (\<sigma> m) = Stopped k" using stopped by blast
  with edge.life_drain_bounded [OF assms(1) reach] show ?thesis by blast
qed

theorem server_exits_witness:
  "\<exists>(m::nat) k. lv_phase ((if m = 0 then demo_drained else demo_drained\<lparr>lv_phase := Stopped 0\<rparr>)) = Stopped k"
proof -
  let ?\<sigma> = "\<lambda>m::nat. if m = 0 then demo_drained else demo_drained\<lparr>lv_phase := Stopped 0\<rparr>"
  have start: "demo_life_step\<^sup>*\<^sup>* (life_start demo_server) (?\<sigma> 0)" using demo_drained_reachable by simp
  have steps: "\<forall>n. demo_life_step (?\<sigma> n) (?\<sigma> (Suc n)) \<or> (\<exists>k. lv_phase (?\<sigma> n) = Stopped k) \<and> ?\<sigma> (Suc n) = ?\<sigma> n"
    using demo_stops by auto
  have fair: "\<forall>n. \<exists>m\<ge>n. (\<exists>k. lv_phase (?\<sigma> m) = Stopped k) \<or> lv_phase (?\<sigma> (Suc m)) \<noteq> lv_phase (?\<sigma> m)"
  proof
    fix n
    show "\<exists>m\<ge>n. (\<exists>k. lv_phase (?\<sigma> m) = Stopped k) \<or> lv_phase (?\<sigma> (Suc m)) \<noteq> lv_phase (?\<sigma> m)"
      by (intro exI [of _ "Suc n"]) simp
  qed
  from server_exits [of std_edge_api "demo_build pair_config" demo_server ?\<sigma>, OF std_edge.edge_axioms start steps fair]
  show ?thesis by blast
qed

end
