(* ===== verification/End_To_End.thy ===== *)
theory End_To_End
  imports Lifecycle
begin

text \<open>
  What the server guarantees from \<open>main\<close> on: everything here starts from a successful
  \<open>main_start\<close>, with the configuration file, the certificates and the sockets as parameters,
  and holds in every interleaving of the life of the server that follows.
\<close>

section \<open>The started server\<close>

lemma main_start_started:
  assumes "main_start B T can_bind fs = Inr (logging, s)"
  shows "process_started B (sr_process s)"
  using assms by (rule main_start_InrD) (auto simp: process_started_def dest: server_run_InrD(1))

text \<open>An identity comes from a certificate that a listener with a client CA was shown.\<close>

lemma opened_identity:
  assumes "edge E" "opened E services conn" "cn_fingerprint conn = Some v"
  obtains acc ss cert chain where "StaticTls acc \<in> services" "eg_session E acc ss"
    "ss_peer_certs ss = Some (cert # chain)" "v = cert_fingerprint (eg_sha256 E) cert" "ta_client_roots acc \<noteq> None"
proof -
  obtain service a hs acme h2 where s: "service \<in> services" "session_possible E service hs"
    and conn: "open_connection (eg_sha256 E) service a hs acme = Some (conn, h2)"
    using assms(2) by (auto simp: opened_def)
  from connection_identity [OF conn] assms(3) obtain acc cert chain where
    acc: "service = StaticTls acc" "Option.bind hs ss_peer_certs = Some (cert # chain)"
    "v = cert_fingerprint (eg_sha256 E) cert"
    by (auto split: service.splits option.splits list.splits)
  then obtain ss where ss: "hs = Some ss" "ss_peer_certs ss = Some (cert # chain)" by (cases hs) auto
  then have "eg_session E acc ss" using s(2) acc(1) by (simp add: session_possible_def)
  moreover from this have "ta_client_roots acc \<noteq> None"
    using edge.session_certs [OF assms(1)] ss(2) by (metis option.distinct(1))
  ultimately show thesis using that s(1) acc ss by blast
qed

lemma main_start_listeners:
  assumes "main_start B T can_bind fs = Inr (logging, s)"
  shows "list_all2 service_matches (cfg_listener (w_config (ps_world (sr_process s)))) (sr_listeners s)"
  using assms
proof (rule main_start_InrD)
  fix c
  assume c: "accepts (bd_http B) (bd_features B) c" "server_run B T can_bind fs c = Inr s"
  with server_run_matches [OF c] server_run_InrD(1) [OF c(2)] show ?thesis by (simp add: engine_new_def)
qed

lemma static_listener:
  assumes "main_start B T can_bind fs = Inr (logging, s)" "StaticTls acc \<in> snd ` set (sr_listeners s)"
    and "ta_client_roots acc \<noteq> None"
  obtains listener where "listener \<in> set (cfg_listener (w_config (ps_world (sr_process s))))"
    "lc_tls_client_ca listener \<noteq> None" "(lc_addr listener, StaticTls acc) \<in> set (sr_listeners s)"
proof -
  obtain x where x: "x \<in> set (sr_listeners s)" "snd x = StaticTls acc" using assms(2) by auto
  then obtain listener where l: "listener \<in> set (cfg_listener (w_config (ps_world (sr_process s))))"
    "service_matches listener x"
    using main_start_listeners [OF assms(1)] by (metis in_set_conv_nth list_all2_conv_all_nth nth_mem)
  then have "lc_tls_client_ca listener \<noteq> None" "x = (lc_addr listener, StaticTls acc)"
    using x(2) assms(3) by (auto simp: service_matches_def prod_eq_iff)
  with that l(1) x(1) show thesis by blast
qed

section \<open>Concrete servers\<close>

text \<open>Starting a build whose files hold a valid configuration, on a host where every socket and
  certificate is usable.\<close>

lemma demo_main_startI:
  assumes "snd (validate std_http plain_features c) = None"
    and "start_listeners (start_listener plain_features demo_tls (\<lambda>_. True)) (cfg_listener c) = Inr ls"
  shows "main_start (demo_build c) demo_tls (\<lambda>_. True) demo_files = Inr (init_logging_from_config c,
     \<lparr>sr_process = process_start (demo_build c) (fs_bytes demo_files) c zero_metrics,
       sr_metrics_addr = metrics_addr_of c, sr_listeners = ls\<rparr>)"
proof -
  obtain reg where reg: "init_metrics = Some reg" using init_metrics_Some by blast
  have F: "bd_features (demo_build c) = plain_features" "bd_http (demo_build c) = std_http"
    by (simp_all add: demo_build_def)
  have l: "load_config (fs_text demo_files) (bd_toml (demo_build c)) (bd_path (demo_build c)) = Inr c"
    by (simp add: load_config_def demo_files_def demo_build_def)
  have "server_run (demo_build c) demo_tls (\<lambda>_. True) demo_files c
      = Inr \<lparr>sr_process = process_start (demo_build c) (fs_bytes demo_files) c zero_metrics,
         sr_metrics_addr = metrics_addr_of c, sr_listeners = ls\<rparr>"
    by (simp add: server_run_def reg ok_or_def and_then_def require_def F assms(2) Let_def)
  then show ?thesis by (simp add: main_start_def l F assms(1))
qed

lemma demo_main_start:
  "main_start (demo_build pair_config) demo_tls (\<lambda>_. True) demo_files
     = Inr (init_logging_from_config pair_config, demo_server)"
proof -
  have acc: "snd (validate std_http plain_features pair_config) = None" by code_simp
  have listeners: "cfg_listener pair_config = [\<lparr>lc_addr = ''127.0.0.1:8080'', lc_protocol = ''http'',
      lc_tls_cert = None, lc_tls_key = None, lc_tls_client_ca = None, lc_acme = None\<rparr>]"
    by (simp add: pair_config_def plain_config_def)
  have addr: "parse_socket_addr ''127.0.0.1:8080''" by code_simp
  have metrics: "metrics_addr_of pair_config = ''127.0.0.1:9090''" by code_simp
  have "start_listeners (start_listener plain_features demo_tls (\<lambda>_. True)) (cfg_listener pair_config)
      = Inr [(''127.0.0.1:8080'', PlainHttp)]"
    by (simp add: listeners start_listener_def addr and_then_def)
  from demo_main_startI [OF acc this] show ?thesis by (simp add: demo_server_def metrics)
qed

text \<open>A server with one listener that demands client certificates, and a client that has one
  and tries to forge another identity.\<close>

definition mtls_config :: config where
  "mtls_config = pair_config\<lparr>cfg_listener := [\<lparr>lc_addr = ''127.0.0.1:8443'', lc_protocol = ''https'',
     lc_tls_cert = Some ''c.pem'', lc_tls_key = Some ''k.pem'', lc_tls_client_ca = Some ''ca.pem'', lc_acme = None\<rparr>]\<rparr>"

definition mtls_acceptor :: "(string, string) tls_acceptor" where
  "mtls_acceptor = \<lparr>ta_certs = [''c.pem''], ta_key = ''k.pem'', ta_client_roots = Some [''ca.pem''], ta_alpn = ALPN\<rparr>"

definition mtls_server :: "(unit, string, string) server" where
  "mtls_server = \<lparr>sr_process = process_start (demo_build mtls_config) (fs_bytes demo_files) mtls_config zero_metrics,
     sr_metrics_addr = metrics_addr_of mtls_config, sr_listeners = [(''127.0.0.1:8443'', StaticTls mtls_acceptor)]\<rparr>"

definition mtls_session :: session where
  "mtls_session = \<lparr>ss_peer_certs = Some [''AB''], ss_alpn = None\<rparr>"

definition mtls_conn :: connection where
  "mtls_conn = fst (tls_connection (\<lambda>d. d) demo_peer mtls_session)"

definition mtls_request :: "assoc_headers job" where
  "mtls_request = demo_job\<lparr>jb_conn := mtls_conn, jb_parts := get_parts [(''x-client-cert-fingerprint'', ''forged'')]\<rparr>"

definition mtls_replied :: "(assoc_headers, unit, (string, string) service) life" where
  "mtls_replied = serve_one (demo_build mtls_config) mtls_server (StaticTls mtls_acceptor) demo_peer mtls_conn False mtls_request"

definition first_sent :: "(assoc_headers, unit) task \<Rightarrow> string list option" where
  "first_sent t = (case t of
      Ended j r \<Rightarrow> (case rp_attempts r of
          [] \<Rightarrow> None
        | a # _ \<Rightarrow> (case prepare_request std_http (at_request a) (at_addr a) (cn_addr (jb_conn j)) (cn_proto (jb_conn j)) of
              Inl _ \<Rightarrow> None
            | Inr sent \<Rightarrow> Some (hm_get_all std_http (rq_headers sent) ''x-client-cert-fingerprint'')))
    | _ \<Rightarrow> None)"

lemma mtls_main_start:
  "main_start (demo_build mtls_config) demo_tls (\<lambda>_. True) demo_files
     = Inr (init_logging_from_config mtls_config, mtls_server)"
proof -
  have acc: "snd (validate std_http plain_features mtls_config) = None" by code_simp
  have addr: "parse_socket_addr ''127.0.0.1:8443''" by code_simp
  have "load_tls_config demo_tls ''c.pem'' ''k.pem'' (Some ''ca.pem'') = Inr mtls_acceptor"
    by (simp add: load_tls_config_def read_certs_def read_key_def client_roots_def demo_tls_def
        and_then_def ok_or_def require_def mtls_acceptor_def)
  then have "start_listeners (start_listener plain_features demo_tls (\<lambda>_. True)) (cfg_listener mtls_config)
      = Inr [(''127.0.0.1:8443'', StaticTls mtls_acceptor)]"
    by (simp add: mtls_config_def start_listener_def addr and_then_def)
  from demo_main_startI [OF acc this] show ?thesis by (simp add: mtls_server_def)
qed

lemma mtls_reachable: "(life_step (demo_build mtls_config) std_edge_api)\<^sup>*\<^sup>* (life_start mtls_server) mtls_replied"
  unfolding mtls_replied_def
  by (rule serve_one_reachable [where hs = "Some mtls_session" and acme = AcmeFailed and addr = "''127.0.0.1:8443''"])
    (simp_all add: mtls_server_def session_possible_def open_connection_def mtls_conn_def tls_connection_def
      std_edge_api_def mtls_request_def mtls_acceptor_def mtls_session_def)

lemma mtls_sent: "map first_sent (sy_tasks (lv_system mtls_replied)) = [Some [''4142'']]"
  by code_simp

section \<open>Properties\<close>

text \<open>C3 A running server answers, and stays within its configuration: from any successful start
  on, even with plugins that failed to load, however requests,
  connections, probes, reloads and the shutdown interleave, every finished request was
  answered, on a connection that one of the started listeners had opened, and each of its
  attempts went to a parseable address of an upstream that an accepted configuration lists.\<close>

theorem server_answers_requests:
  assumes "header_map (bd_http B)" "edge E" "main_start B T can_bind fs = Inr (logging, s)"
    and "(life_step B E)\<^sup>*\<^sup>* (life_start s) l" "Ended j r \<in> set (sy_tasks (lv_system l))"
  shows "rp_reply r \<noteq> None
    \<and> (\<exists>(addr, service)\<in>set (sr_listeners s). \<exists>a hs acme h2.
        open_connection (eg_sha256 E) service a hs acme = Some (jb_conn j, h2))
    \<and> (\<forall>a\<in>set (rp_attempts r). \<exists>c route u. accepts (bd_http B) (bd_features B) c
        \<and> route \<in> set (cfg_route c) \<and> u \<in> set (rc_upstream route) \<and> at_addr a = uc_addr u
        \<and> (\<exists>host port. upstream_host_port (at_addr a) = Inr (host, port)))"
proof -
  note handled = attempts_stay_configured [OF main_start_started [OF assms(3)] _ assms(5)]
  have "(sys_step B)\<^sup>*\<^sup>* (sys_start (sr_process s)) (lv_system l)"
    using assms(4) by (rule edge.life_requests_reachable [OF assms(2)])
  note handled = handled [OF this]
  have "opened E (snd ` set (sr_listeners s)) (jb_conn j)"
    using edge.life_inv_reachable [OF assms(2,4)] assms(5) by (fastforce simp: life_inv_def Let_def)
  then obtain addr service a hs acme h2 where conn: "(addr, service) \<in> set (sr_listeners s)"
    "open_connection (eg_sha256 E) service a hs acme = Some (jb_conn j, h2)"
    by (auto simp: opened_def)
  with handled connection_fingerprint_ok [OF assms(1) conn(2)] show ?thesis by blast
qed

theorem server_answers_requests_witness:
  "\<exists>r. sy_tasks (lv_system demo_drained) = [Ended demo_request r] \<and> rp_reply r \<noteq> None"
proof -
  let ?B = "demo_build pair_config"
  have F: "bd_http ?B = std_http" by (simp add: demo_build_def)
  have "map task_job (sy_tasks (lv_system demo_drained)) = [demo_request]"
    by (simp add: demo_drained_def demo_replied_def stop_listener_def set_conn_def serve_one_job)
  then obtain t where t: "sy_tasks (lv_system demo_drained) = [t]" "task_job t = demo_request" by auto
  have "replied t" using demo_replied_reply t(1)
    by (simp add: all_replied_def reply_flags_def demo_drained_def stop_listener_def set_conn_def)
  with t obtain r where "sy_tasks (lv_system demo_drained) = [Ended demo_request r]" by (cases t) auto
  with server_answers_requests [OF _ std_edge.edge_axioms demo_main_start demo_drained_reachable] show ?thesis
    by (auto simp: F header_map_std)
qed

text \<open>C4 Identities are authentic end to end: in any run of a started server, a client identity
  that reaches an upstream is the fingerprint of a certificate that the client of that very
  connection presented in a handshake with a listener of the configuration that demands client
  certificates.  Nothing a client or a route's overrides put into the header gets through.\<close>

theorem upstream_identity_is_authentic:
  assumes "header_map (bd_http B)" "edge E" "main_start B T can_bind fs = Inr (logging, s)"
    and "(life_step B E)\<^sup>*\<^sup>* (life_start s) l" "Ended j r \<in> set (sy_tasks (lv_system l))"
    and "a \<in> set (rp_attempts r)" "list_all field_char (ip_text (cn_addr (jb_conn j)))"
    and "prepare_request (bd_http B) (at_request a) (at_addr a) (cn_addr (jb_conn j)) (cn_proto (jb_conn j)) = Inr sent"
    and "v \<in> set (hm_get_all (bd_http B) (rq_headers sent) ''x-client-cert-fingerprint'')"
  shows "\<exists>listener acc ss cert chain. listener \<in> set (cfg_listener (w_config (ps_world (sr_process s))))
    \<and> lc_tls_client_ca listener \<noteq> None \<and> (lc_addr listener, StaticTls acc) \<in> set (sr_listeners s)
    \<and> eg_session E acc ss \<and> ss_peer_certs ss = Some (cert # chain)
    \<and> v = cert_fingerprint (eg_sha256 E) cert \<and> cn_fingerprint (jb_conn j) = Some v"
proof -
  have "(sys_step B)\<^sup>*\<^sup>* (sys_start (sr_process s)) (lv_system l)"
    using assms(4) by (rule edge.life_requests_reachable [OF assms(2)])
  from ended_is_handled [OF concurrent.inv_reachable [OF refl this] assms(5)] obtain w0 ws where
    r: "r = handled B ws j w0" by metis
  with assms(6) have "a \<in> set (oc_attempts (handle (job_env B ws j) (jb_parts j) (jb_body j) (jb_conn j) w0))"
    by (simp add: handled_def report_of_def)
  from fingerprint_cannot_be_forged [of "job_env B ws j", unfolded job_env_simps, OF assms(1,7) this assms(8)] assms(9)
  have fp: "cn_fingerprint (jb_conn j) = Some v" by (auto split: if_splits option.splits)
  have "opened E (snd ` set (sr_listeners s)) (jb_conn j)"
    using edge.life_inv_reachable [OF assms(2,4)] assms(5) by (fastforce simp: life_inv_def Let_def)
  then obtain acc ss cert chain where acc: "StaticTls acc \<in> snd ` set (sr_listeners s)" "eg_session E acc ss"
    "ss_peer_certs ss = Some (cert # chain)" "v = cert_fingerprint (eg_sha256 E) cert" "ta_client_roots acc \<noteq> None"
    using fp by (rule opened_identity [OF assms(2)])
  with static_listener [OF assms(3) acc(1,5)] fp show ?thesis by metis
qed

theorem upstream_identity_is_authentic_witness:
  "first_sent (hd (sy_tasks (lv_system mtls_replied))) = Some [''4142'']
    \<and> (\<exists>acc. (''127.0.0.1:8443'', StaticTls acc) \<in> set (sr_listeners mtls_server) \<and> ta_client_roots acc \<noteq> None)
    \<and> (\<exists>ss cert chain. eg_session std_edge_api mtls_acceptor ss \<and> ss_peer_certs ss = Some (cert # chain)
        \<and> ''4142'' = cert_fingerprint (\<lambda>d. d) cert)"
proof -
  let ?B = "demo_build mtls_config"
  have F: "bd_http ?B = std_http" by (simp add: demo_build_def)
  obtain t where t: "sy_tasks (lv_system mtls_replied) = [t]" "task_job t = mtls_request"
    using serve_one_job [of ?B mtls_server "StaticTls mtls_acceptor" demo_peer mtls_conn False mtls_request]
    by (auto simp: mtls_replied_def)
  with mtls_sent obtain r a as sent where r: "t = Ended mtls_request r" and a: "rp_attempts r = a # as"
    and sent: "prepare_request std_http (at_request a) (at_addr a) (cn_addr (jb_conn mtls_request))
      (cn_proto (jb_conn mtls_request)) = Inr sent"
    and v: "hm_get_all std_http (rq_headers sent) ''x-client-cert-fingerprint'' = [''4142'']"
    by (auto simp: first_sent_def split: task.splits list.splits sum.splits)
  have ip: "list_all field_char (ip_text (cn_addr (jb_conn mtls_request)))" by code_simp
  have mem: "Ended mtls_request r \<in> set (sy_tasks (lv_system mtls_replied))" "a \<in> set (rp_attempts r)"
    "''4142'' \<in> set (hm_get_all std_http (rq_headers sent) ''x-client-cert-fingerprint'')"
    using t r a v by simp_all
  from upstream_identity_is_authentic [of ?B, unfolded F, OF header_map_std std_edge.edge_axioms mtls_main_start
      mtls_reachable mem(1,2) ip sent mem(3)]
  obtain acc ss cert chain where acc: "StaticTls acc \<in> snd ` set (sr_listeners mtls_server)"
    "eg_session std_edge_api acc ss" "ss_peer_certs ss = Some (cert # chain)"
    "''4142'' = cert_fingerprint (eg_sha256 (std_edge_api :: (string, string) edge_api)) cert" by force
  then have "acc = mtls_acceptor" by (simp add: mtls_server_def)
  with acc mtls_sent t(1) show ?thesis
    by (intro conjI) (simp, simp add: mtls_server_def mtls_acceptor_def, auto simp: std_edge_api_def)
qed

end
