(* ===== verification/Calm_Runs.thy ===== *)
theory Calm_Runs
  imports Concurrent_Runs
begin

text \<open>
  The system between two reloads that take effect: its configuration, plugins and schedules
  stay, so every request that arrives is served and filtered as that configuration says,
  however many of them run and whatever probes and failing reloads do meanwhile.
\<close>

section \<open>While no reload takes effect\<close>

text \<open>The system between two successful reloads: a reload that fails leaves the process
  waiting for the next signal.\<close>

definition calm_step :: "('m, 'md, 'st) build \<Rightarrow> ('m, 'md) system \<Rightarrow> ('m, 'md) system \<Rightarrow> bool" where
  "calm_step B y y' \<longleftrightarrow> sys_step B y y' \<and> ps_stage (sy_process y') = Waiting"

definition same_config :: "'md process \<Rightarrow> 'md world \<Rightarrow> bool" where
  "same_config p0 w \<longleftrightarrow> w_config w = w_config (ps_world p0) \<and> w_plugins w = w_plugins (ps_world p0)
     \<and> lbs_fit w (w_config w)"

definition calm_inv :: "('m, 'md, 'st) build \<Rightarrow> ('m, 'md) system \<Rightarrow> ('m, 'md) system \<Rightarrow> bool" where
  "calm_inv B y0 y \<longleftrightarrow> ps_stage (sy_process y) = Waiting
     \<and> same_config (sy_process y0) (ps_world (sy_process y))
     \<and> (\<forall>i. length (sy_tasks y0) \<le> i \<and> i < length (sy_tasks y) \<longrightarrow>
          task_ok B (same_config (sy_process y0)) (same_config (sy_process y0)) (sy_tasks y ! i))"

lemma task_run_frame:
  "w_config (snd (task_run B t w)) = w_config w \<and> w_plugins (snd (task_run B t w)) = w_plugins w
    \<and> schedules (w_lbs (snd (task_run B t w))) = schedules (w_lbs w)"
proof (cases "(B, t, w)" rule: task_run.cases)
  case (3 B' j plan n s w')
  obtain picked w1 where "select_upstream w (pl_name plan) (ls_tried s) = (picked, w1)" by fastforce
  with 3 select_upstream_frame(3,4) [OF this] schedules_pick [of w "pl_name plan" "ls_tried s"]
  show ?thesis by (simp add: choose_step_world)
next
  case (4 B' j plan n s addr req d result w')
  then show ?thesis using await_step_world [of B j plan n s addr req d result w]
    by (auto simp: inc_errors_def observe_duration_def)
qed (auto simp: arrive_step_world inc_requests_def)

lemma same_config_run: "same_config p0 w \<Longrightarrow> same_config p0 (snd (task_run B t w))"
  using task_run_frame [of B t w] by (simp add: same_config_def lbs_fit_def)

lemma ctrl_step_calm:
  assumes "ctrl_step B p p'" "ps_stage p = Waiting" "ps_stage p' = Waiting" "same_config p0 (ps_world p)"
  shows "same_config p0 (ps_world p')"
  using assms
  by (induction rule: ctrl_step.induct) (auto simp: sighup_world same_config_def lbs_fit_def)

lemma calm_inv_step: "calm_inv B y0 y \<Longrightarrow> calm_step B y y' \<Longrightarrow> calm_inv B y0 y'"
proof -
  assume inv: "calm_inv B y0 y" and "calm_step B y y'"
  then have step: "sys_step B y y'" and calm: "ps_stage (sy_process y') = Waiting"
    by (simp_all add: calm_step_def)
  from step show ?thesis
  proof cases
    case (control p)
    with inv calm ctrl_step_calm [of B "sy_process y" p "sy_process y0"] show ?thesis by (simp add: calm_inv_def)
  next
    case (spawn j)
    have "task_ok B R S (Arrived j)" for R S by (simp add: task_ok_def)
    with inv spawn show ?thesis by (auto simp: calm_inv_def nth_append not_less_iff_gr_or_eq)
  next
    case (run i t w)
    let ?R = "same_config (sy_process y0)"
    have R: "?R (ps_world (sy_process y))" using inv by (simp add: calm_inv_def)
    then have "?R w" using run same_config_run by (metis snd_conv)
    moreover have "task_ok B ?R ?R t" if "length (sy_tasks y0) \<le> i"
    proof -
      have "task_ok B ?R ?R (sy_tasks y ! i)" using inv run that by (simp add: calm_inv_def)
      from task_ok_run [OF R R this] run show ?thesis by simp
    qed
    ultimately show ?thesis using inv run calm by (auto simp: calm_inv_def nth_list_update)
  qed
qed

lemma calm_inv_start:
  "process_inv B (sy_process y0) \<Longrightarrow> ps_stage (sy_process y0) = Waiting \<Longrightarrow> calm_inv B y0 y0"
  by (auto simp: calm_inv_def same_config_def process_inv_def Let_def)

interpretation calm: invariant_system
  "\<lambda>y. y = y0 \<and> process_inv B (sy_process y0) \<and> ps_stage (sy_process y0) = Waiting" "calm_step B" "calm_inv B y0"
  for B :: "('m, 'md, 'st) build" and y0 :: "('m, 'md) system"
proof
  fix y y' :: "('m, 'md) system"
  show "calm_inv B y0 y" if "y = y0 \<and> process_inv B (sy_process y0) \<and> ps_stage (sy_process y0) = Waiting"
    using that calm_inv_start by blast
  show "calm_inv B y0 y'" if "calm_inv B y0 y" "calm_step B y y'"
    using that by (rule calm_inv_step)
qed

text \<open>A request that arrived in a calm system ran under the configuration that was there.\<close>

lemma reachable_process_inv:
  assumes "process_init B p0" "(sys_step B)\<^sup>*\<^sup>* (sys_start p0) y"
  shows "process_inv B (sy_process y)"
  using proc.inv_reachable [OF assms(1)] concurrent.abs_reachable [OF refl assms(2)]
  by (simp add: sys_start_def)

lemma calm_handled:
  assumes "process_inv B (sy_process y0)" "ps_stage (sy_process y0) = Waiting"
    and "(calm_step B)\<^sup>*\<^sup>* y0 y" "length (sy_tasks y0) \<le> i" "i < length (sy_tasks y)"
    and "sy_tasks y ! i = Ended j r"
  obtains w0 ws where "same_config (sy_process y0) w0" "\<And>k. same_config (sy_process y0) (ws k)"
    "r = handled B ws j w0"
proof -
  have "calm_inv B y0 y" using calm.inv_reachable [OF _ assms(3)] assms(1,2) by blast
  then have "task_ok B (same_config (sy_process y0)) (same_config (sy_process y0)) (Ended j r)"
    using assms(4-6) unfolding calm_inv_def by metis
  then show thesis by (rule task_ok_ended) (rule that)
qed

lemma same_config_plan:
  "same_config p0 w \<Longrightarrow> plan_route H F w parts = plan_route H F (ps_world p0) parts"
  by (simp add: plan_route_def same_config_def)

lemma handled_serves:
  assumes "process_inv B p0" "same_config p0 w0" "same_config p0 (ws 0)" "fingerprint_ok (bd_http B) (jb_conn j)"
    and "plan_route (bd_http B) (bd_features B) w0 (jb_parts j) = Some plan"
    and "plugin_gate (bd_http B) (bd_wasm B) plan (jb_parts j) = None"
  shows "rp_attempts (handled B ws j w0) \<noteq> [] \<and> rp_reply (handled B ws j w0) \<noteq> None"
proof -
  obtain route where "route \<in> set (cfg_route (w_config w0))" "pl_name plan = rc_name route"
    using assms(5) by (rule plan_route_SomeD) (simp add: plan_of_route_def)
  moreover have "accepts (bd_http B) (bd_features B) (w_config w0)"
    using assms(1,2) by (simp add: process_inv_def same_config_def Let_def)
  moreover have "lbs_fit (ws 0) (w_config w0)"
    using assms(2,3) by (auto simp: same_config_def)
  ultimately have "has_upstream (ws 0) (pl_name plan)"
    using fit_has_upstream by metis
  then have "1 \<le> length (oc_attempts (handle (job_env B ws j) (jb_parts j) (jb_body j) (jb_conn j) w0))"
    using assms(4-6) by (intro handle_attempts [where plan = plan]) simp_all
  moreover have "oc_reply (handle (job_env B ws j) (jb_parts j) (jb_body j) (jb_conn j) w0) \<noteq> None"
    using assms(4) by (intro handle_no_panic) simp
  ultimately show ?thesis by (auto simp: handled_def report_of_def)
qed

lemma handled_denied:
  assumes "plan_route (bd_http B) (bd_features B) w0 (jb_parts j) = Some plan"
    and "plugin_gate (bd_http B) (bd_wasm B) plan (jb_parts j) = Some resp"
  shows "rp_attempts (handled B ws j w0) = [] \<and> rp_mirror (handled B ws j w0) = None
    \<and> rp_reply (handled B ws j w0) = Some resp"
  by (cases rule: handle_cases [of "job_env B ws j" w0 "jb_parts j" "jb_body j" "jb_conn j"])
    (use assms in \<open>simp_all add: handled_def report_of_def\<close>)

section \<open>A concrete run\<close>

lemma run_task_calm:
  "i < length (sy_tasks y) \<Longrightarrow> ps_stage (sy_process y) = Waiting \<Longrightarrow>
     calm_step B y (run_task B i y) \<and> ps_stage (sy_process (run_task B i y)) = Waiting"
  using run_task_step [of i y B] by (auto simp: calm_step_def run_task_def split: prod.splits)

lemma demo_ended_calm: "(calm_step (demo_build pair_config))\<^sup>*\<^sup>* (sys_start (demo_start pair_config)) demo_ended"
proof -
  let ?B = "demo_build pair_config" and ?y = "sys_start (demo_start pair_config) :: (assoc_headers, unit) system"
  have stage: "ps_stage (demo_start pair_config) = Waiting" by (simp add: demo_start_def)
  have "calm_step ?B ?y (?y\<lparr>sy_tasks := [Arrived demo_job]\<rparr>)"
    using sys_step.spawn [of ?B ?y demo_job] stage by (simp add: calm_step_def sys_start_def)
  moreover have "calm_step ?B (?y\<lparr>sy_tasks := [Arrived demo_job]\<rparr>) demo_arrived"
    using sys_step.spawn [of ?B "?y\<lparr>sy_tasks := [Arrived demo_job]\<rparr>" demo_job] stage
    by (simp add: calm_step_def sys_start_def demo_arrived_def)
  moreover have "(calm_step ?B)\<^sup>*\<^sup>* demo_arrived demo_ended"
    unfolding demo_ended_def
    by (rule foldl_reaches [where P = "\<lambda>y. length (sy_tasks y) = 2 \<and> ps_stage (sy_process y) = Waiting"])
      (auto simp: length_run_task run_task_calm demo_arrived_def sys_start_def stage)
  ultimately show ?thesis by (meson converse_rtranclp_into_rtranclp)
qed

section \<open>Properties\<close>

text \<open>C10 Requests are served until a reload takes effect: whatever happened before, from any
  state between reloads on, however requests, probes and failing reloads interleave, every
  request that arrives, matches a route and passes its filter is tried on at least one
  upstream and answered when it ends.\<close>

theorem calm_system_serves:
  assumes "process_init B p0" "(sys_step B)\<^sup>*\<^sup>* (sys_start p0) y0" "ps_stage (sy_process y0) = Waiting"
    and "(calm_step B)\<^sup>*\<^sup>* y0 y" "length (sy_tasks y0) \<le> i" "i < length (sy_tasks y)"
    and "sy_tasks y ! i = Ended j r" "fingerprint_ok (bd_http B) (jb_conn j)"
    and "plan_route (bd_http B) (bd_features B) (ps_world (sy_process y0)) (jb_parts j) = Some plan"
    and "plugin_gate (bd_http B) (bd_wasm B) plan (jb_parts j) = None"
  shows "rp_attempts r \<noteq> [] \<and> rp_reply r \<noteq> None"
proof -
  note inv = reachable_process_inv [OF assms(1,2)]
  obtain w0 ws where w: "same_config (sy_process y0) w0" "\<And>k. same_config (sy_process y0) (ws k)"
    and r: "r = handled B ws j w0"
    by (rule calm_handled [OF inv assms(3-7)]) (rule that)
  show ?thesis unfolding r
    by (rule handled_serves [OF inv w assms(8) _ assms(10)]) (simp add: same_config_plan [OF w(1)] assms(9))
qed

theorem calm_system_serves_witness:
  "\<exists>r. sy_tasks demo_ended ! 0 = Ended demo_job r \<and> rp_attempts r \<noteq> []"
proof -
  let ?B = "demo_build pair_config" and ?r = "plain_route ''r'' [''a:1'', ''b:1'']"
  let ?y0 = "sys_start (demo_start pair_config) :: (assoc_headers, unit) system"
  let ?plan = "plan_of_route (bd_features ?B) (w_plugins (ps_world (demo_start pair_config))) ?r"
  have y0: "(sys_step ?B)\<^sup>*\<^sup>* ?y0 ?y0" "ps_stage (sy_process ?y0) = Waiting" "sy_process ?y0 = demo_start pair_config"
    by (simp_all add: demo_start_def sys_start_def)
  obtain r where "sy_tasks demo_ended ! 0 = Ended demo_job r" by (rule demo_ended_first)
  moreover have r: "length (sy_tasks ?y0) \<le> 0" "0 < length (sy_tasks demo_ended)"
    by (simp_all add: sys_start_def length_demo_ended)
  have fp: "fingerprint_ok (bd_http ?B) (jb_conn demo_job)"
    by (simp add: fingerprint_ok_def demo_job_def peer_def)
  have plan: "plan_route (bd_http ?B) (bd_features ?B) (ps_world (sy_process ?y0)) (jb_parts demo_job) = Some ?plan"
    unfolding y0(3) by (rule catch_all_plan [of _ _ "[]"])
      (simp_all add: plain_route_def demo_start_def engine_new_def pair_config_def)
  have gate: "plugin_gate (bd_http ?B) (bd_wasm ?B) ?plan (jb_parts demo_job) = None"
    by (simp add: plugin_gate_def plan_of_route_def plain_route_def)
  ultimately show ?thesis
    using calm_system_serves [OF demo_init y0(1,2) demo_ended_calm r _ fp plan gate] by blast
qed


text \<open>A filtered route, whose plugin denies everything.\<close>

definition filtered_config :: config where
  "filtered_config = plain_config [(plain_route ''r'' [''a:1''])\<lparr>rc_plugin := Some ''f.wasm''\<rparr>]"

definition filtered_start :: "(assoc_headers, unit) system" where
  "filtered_start = sys_start (demo_start filtered_config)"

definition filtered_ended :: "(assoc_headers, unit) system" where
  "filtered_ended = run_task (demo_build filtered_config) 0 (filtered_start\<lparr>sy_tasks := [Arrived demo_job]\<rparr>)"

lemma filtered_init: "process_init (demo_build filtered_config) (demo_start filtered_config)"
proof -
  let ?B = "demo_build filtered_config"
  have F: "bd_features ?B = plain_features" "bd_http ?B = std_http" "bd_wasm ?B = deny_404"
    by (simp_all add: demo_build_def)
  have "accepts (bd_http ?B) (bd_features ?B) filtered_config" unfolding F by code_simp
  moreover have "build_plugin_cache (bd_wasm ?B) (\<lambda>_. Some '''') filtered_config = Inr (Map.empty(''f.wasm'' \<mapsto> ()))"
    unfolding F by (simp add: build_plugin_cache_def filtered_config_def plain_config_def plain_route_def
        plugin_load_def deny_404_def and_then_def ok_or_def require_def)
  ultimately show ?thesis unfolding process_init_def demo_start_def by blast
qed

lemma filtered_ended_first:
  obtains r where "sy_tasks filtered_ended = [Ended demo_job r]"
proof -
  have ended: "list_all (\<lambda>t. case t of Ended j r \<Rightarrow> True | _ \<Rightarrow> False) (sy_tasks filtered_ended)" by code_simp
  have "length (sy_tasks filtered_ended) = 1" by (simp add: filtered_ended_def length_run_task)
  then obtain t where t: "sy_tasks filtered_ended = [t]" by (auto simp: length_Suc_conv)
  moreover have "task_job t = demo_job"
    using task_job_fold [of "demo_build filtered_config" "filtered_start\<lparr>sy_tasks := [Arrived demo_job]\<rparr>" "[0]"] t
    by (simp add: filtered_ended_def)
  ultimately show thesis using ended by (auto split: task.splits intro: that)
qed


end
