(* ===== verification/Selection.thy ===== *)
theory Selection
  imports Upstream
begin

text \<open>
  \<open>LoadBalancer::next_healthy\<close> while health changes: each \<open>is_healthy(..).await\<close> of its two
  loops takes the registry's lock on its own, so a prober may change the registry between two
  lookups.  \<open>next_healthy_live\<close> numbers the lookups and lets each see a health of its own; the
  theory shows that the outcome is that of \<open>next_healthy\<close> in one state of health that lies
  between what was always and what was sometimes seen, so that what is proved of
  \<open>next_healthy\<close>, and of \<open>handle\<close> under arbitrary interference, holds of it.
\<close>

section \<open>Selection with numbered lookups\<close>

text \<open>One loop: excluded candidates are skipped before the lookup.\<close>

fun scan ::
  "(nat \<Rightarrow> string \<Rightarrow> bool) \<Rightarrow> string list \<Rightarrow> nat \<Rightarrow> upstream_pool list \<Rightarrow> upstream_pool option \<times> nat" where
  "scan healthy exclude k [] = (None, k)"
| "scan healthy exclude k (u # us) =
     (if list_ex (\<lambda>e. e = up_addr u) exclude then scan healthy exclude k us
      else if healthy k (up_addr u) then (Some u, k + 1)
      else scan healthy exclude (k + 1) us)"

definition next_healthy_live ::
  "load_balancer \<Rightarrow> (nat \<Rightarrow> string \<Rightarrow> bool) \<Rightarrow> string list \<Rightarrow> upstream_pool option \<times> load_balancer" where
  "next_healthy_live lb healthy exclude =
     (if lb_upstreams lb = [] then (None, lb)
      else
        (case scan healthy exclude 0 (candidates lb) of
           (Some u, _) \<Rightarrow> Some u
         | (None, k) \<Rightarrow>
             (case scan healthy [] k (candidates lb) of
                (Some u, _) \<Rightarrow> Some u
              | (None, _) \<Rightarrow> Some (lb_upstreams lb ! (unat (lb_counter lb) mod length (lb_upstreams lb)))),
         lb\<lparr>lb_counter := lb_counter lb + 1\<rparr>))"

lemma scan_const:
  "fst (scan (\<lambda>_. h) ex k us) = find (\<lambda>u. \<not> list_ex (\<lambda>e. e = up_addr u) ex \<and> h (up_addr u)) us"
  by (induction us arbitrary: k) auto

lemma scan_SomeD:
  "scan h ex k us = (Some u, k') \<Longrightarrow> \<exists>as bs. us = as @ u # bs \<and> up_addr u \<notin> set ex \<and> (\<exists>j. h j (up_addr u))
     \<and> (\<forall>v\<in>set as. up_addr v \<in> set ex \<or> (\<exists>j. \<not> h j (up_addr v)))"
proof (induction us arbitrary: k)
  case (Cons v us)
  show ?case
  proof (cases "up_addr v \<in> set ex \<or> \<not> h k (up_addr v)")
    case True
    with Cons.prems have "\<exists>k. scan h ex k us = (Some u, k')"
      by (auto simp: list_ex_iff split: if_splits)
    then obtain as bs where "us = as @ u # bs" "up_addr u \<notin> set ex" "\<exists>j. h j (up_addr u)"
      "\<forall>v\<in>set as. up_addr v \<in> set ex \<or> (\<exists>j. \<not> h j (up_addr v))" using Cons.IH by blast
    with True show ?thesis by (intro exI [of _ "v # as"] exI [of _ bs]) auto
  next
    case False
    with Cons.prems show ?thesis by (intro exI [of _ "[]"] exI [of _ us]) (auto simp: list_ex_iff)
  qed
qed simp

lemma scan_NoneD:
  "scan h ex k us = (None, k') \<Longrightarrow> \<forall>v\<in>set us. up_addr v \<in> set ex \<or> (\<exists>j. \<not> h j (up_addr v))"
  by (induction us arbitrary: k) (auto simp: list_ex_iff split: if_splits)

text \<open>A search that only looks at addresses finds the address of the first hit.\<close>

lemma find_addr:
  assumes "P (up_addr u)" "\<forall>v\<in>set as. P (up_addr v) \<longrightarrow> up_addr v = up_addr u"
  shows "\<exists>v. find (\<lambda>v. P (up_addr v)) (as @ u # bs) = Some v \<and> up_addr v = up_addr u"
  using assms by (induction as) auto

section \<open>The state of health a selection amounts to\<close>

text \<open>Healthy is what every lookup would have seen healthy, and the address selected.\<close>

definition witnessed :: "(nat \<Rightarrow> string \<Rightarrow> bool) \<Rightarrow> string \<Rightarrow> string \<Rightarrow> bool" where
  "witnessed h a x = ((\<forall>k. h k x) \<or> x = a \<and> (\<exists>k. h k x))"

lemma witnessed_between: "(\<forall>k. h k x) \<Longrightarrow> witnessed h a x" "witnessed h a x \<Longrightarrow> \<exists>k. h k x"
  by (auto simp: witnessed_def)

lemma live_pick:
  assumes "fst (next_healthy_live lb h ex) = Some u"
  shows "fst (lb_pick lb (witnessed h (up_addr u)) ex) = Some (up_addr u)"
proof -
  let ?w = "witnessed h (up_addr u)" and ?cs = "candidates lb"
  have ne: "lb_upstreams lb \<noteq> []" using assms by (auto simp: next_healthy_live_def)
  have pick: "fst (lb_pick lb ?w ex) =
      (case find (\<lambda>v. \<not> list_ex (\<lambda>e. e = up_addr v) ex \<and> ?w (up_addr v)) ?cs of
         Some v \<Rightarrow> Some (up_addr v)
       | None \<Rightarrow> (case find (\<lambda>v. ?w (up_addr v)) ?cs of
             Some v \<Rightarrow> Some (up_addr v)
           | None \<Rightarrow> Some (up_addr (lb_upstreams lb ! (unat (lb_counter lb) mod length (lb_upstreams lb))))))"
    using ne by (simp add: lb_pick_def next_healthy_def split: option.splits)
  obtain first k where 1: "scan h ex 0 ?cs = (first, k)" by fastforce
  show ?thesis
  proof (cases first)
    case (Some v)
    with 1 ne assms have "v = u" by (simp add: next_healthy_live_def)
    with 1 Some obtain as bs where cs: "?cs = as @ u # bs" "up_addr u \<notin> set ex" "\<exists>j. h j (up_addr u)"
      "\<forall>v\<in>set as. up_addr v \<in> set ex \<or> (\<exists>j. \<not> h j (up_addr v))" using scan_SomeD by blast
    then have "\<exists>v. find (\<lambda>v. \<not> list_ex (\<lambda>e. e = up_addr v) ex \<and> ?w (up_addr v)) (as @ u # bs) = Some v
        \<and> up_addr v = up_addr u"
      by (intro find_addr [where P = "\<lambda>a. \<not> list_ex (\<lambda>e. e = a) ex \<and> ?w a"])
        (auto simp: list_ex_iff witnessed_def)
    with cs(1) show ?thesis by (auto simp: pick)
  next
    case None
    with 1 have untried: "\<forall>v\<in>set ?cs. up_addr v \<in> set ex \<or> (\<exists>j. \<not> h j (up_addr v))" using scan_NoneD by blast
    obtain second k' where 2: "scan h [] k ?cs = (second, k')" by fastforce
    show ?thesis
    proof (cases second)
      case (Some v)
      with 1 2 None ne assms have "v = u" by (simp add: next_healthy_live_def)
      with 2 Some scan_SomeD [of h "[]" k ?cs u k'] obtain as bs where cs: "?cs = as @ u # bs"
        "\<exists>j. h j (up_addr u)" "\<forall>v\<in>set as. \<exists>j. \<not> h j (up_addr v)" by auto
      then have "\<exists>v. find (\<lambda>v. ?w (up_addr v)) (as @ u # bs) = Some v \<and> up_addr v = up_addr u"
        by (intro find_addr [where P = ?w]) (auto simp: witnessed_def)
      then obtain v where v: "find (\<lambda>v. ?w (up_addr v)) ?cs = Some v" "up_addr v = up_addr u"
        unfolding cs(1) by blast
      have same: "up_addr v = up_addr u"
        if "find (\<lambda>v. \<not> list_ex (\<lambda>e. e = up_addr v) ex \<and> ?w (up_addr v)) ?cs = Some v" for v
      proof -
        have "v \<in> set ?cs" "up_addr v \<notin> set ex" "?w (up_addr v)"
          using find_SomeD [OF that] by (simp_all add: list_ex_iff)
        then show ?thesis using untried unfolding witnessed_def by blast
      qed
      show ?thesis
      proof (cases "find (\<lambda>v. \<not> list_ex (\<lambda>e. e = up_addr v) ex \<and> ?w (up_addr v)) ?cs")
        case None
        then show ?thesis unfolding pick by (simp add: v)
      next
        case (Some v')
        with same [OF Some] show ?thesis unfolding pick by simp
      qed
    next
      case None
      with 2 scan_NoneD [of h "[]" k ?cs k'] have down: "\<forall>v\<in>set ?cs. \<exists>j. \<not> h j (up_addr v)" by simp
      from 1 2 None \<open>first = None\<close> ne assms
      have u: "u = lb_upstreams lb ! (unat (lb_counter lb) mod length (lb_upstreams lb))"
        by (simp add: next_healthy_live_def)
      have none: "find P ?cs = None \<or> (\<exists>v. find P ?cs = Some v \<and> up_addr v = up_addr u)"
        if "\<And>v. P v \<Longrightarrow> ?w (up_addr v)" for P
      proof -
        have "up_addr v = up_addr u" if "v \<in> set ?cs" "?w (up_addr v)" for v
          using that down unfolding witnessed_def by blast
        with that show ?thesis by (cases "find P ?cs") (auto dest: find_SomeD)
      qed
      let ?fresh = "\<lambda>v. \<not> list_ex (\<lambda>e. e = up_addr v) ex \<and> ?w (up_addr v)"
      have "find ?fresh ?cs = None \<or> (\<exists>v. find ?fresh ?cs = Some v \<and> up_addr v = up_addr u)"
        "find (\<lambda>v. ?w (up_addr v)) ?cs = None \<or> (\<exists>v. find (\<lambda>v. ?w (up_addr v)) ?cs = Some v \<and> up_addr v = up_addr u)"
        by (rule none, simp)+
      then show ?thesis unfolding pick u [symmetric] by (elim disjE exE conjE) simp_all
    qed
  qed
qed

section \<open>Properties\<close>

text \<open>With a health that does not change, the two selections agree.\<close>

lemma next_healthy_live_const: "next_healthy_live lb (\<lambda>_. h) ex = next_healthy lb h ex"
proof -
  have "fst (scan (\<lambda>_. h) [] k us) = find (\<lambda>u. h (up_addr u)) us" for k us
    using scan_const [of h "[]" k us] by simp
  then show ?thesis
    using scan_const [of h ex 0 "candidates lb"]
    by (auto simp: next_healthy_live_def next_healthy_def split: option.splits prod.splits)
      (metis fst_conv option.distinct(1) option.inject)+
qed

text \<open>C20 Selection is linearizable: however the health of upstreams changes between the lookups
  of one selection, the selected address is the one \<open>next_healthy\<close> selects in one state of
  health, in which every upstream that was healthy throughout is healthy, and only upstreams
  that were healthy at some time are.\<close>

theorem selection_is_linearizable:
  "\<exists>health. (\<forall>x. (\<forall>k. h k x) \<longrightarrow> health x) \<and> (\<forall>x. health x \<longrightarrow> (\<exists>k. h k x))
    \<and> map_option up_addr (fst (next_healthy_live lb h tried)) = fst (lb_pick lb health tried)
    \<and> snd (next_healthy_live lb h tried) = snd (lb_pick lb health tried)"
proof (cases "fst (next_healthy_live lb h tried)")
  case None
  then have "lb_upstreams lb = []"
    by (auto simp: next_healthy_live_def split: option.splits prod.splits if_splits)
  then show ?thesis
    by (intro exI [of _ "\<lambda>x. \<forall>k. h k x"]) (auto simp: next_healthy_live_def lb_pick_def next_healthy_def)
next
  case (Some u)
  then have "lb_upstreams lb \<noteq> []" by (auto simp: next_healthy_live_def)
  then have "snd (next_healthy_live lb h tried) = snd (lb_pick lb (witnessed h (up_addr u)) tried)"
    by (simp add: next_healthy_live_def lb_pick_def next_healthy_def)
  with live_pick [OF Some] Some witnessed_between show ?thesis
    by (intro exI [of _ "witnessed h (up_addr u)"]) auto
qed

theorem selection_is_linearizable_witness:
  "\<exists>health. health ''b'' \<and> map_option up_addr (fst (next_healthy_live
      \<lparr>lb_upstreams = [\<lparr>up_addr = ''a'', up_weight = 1\<rparr>, \<lparr>up_addr = ''b'', up_weight = 1\<rparr>], lb_counter = 0\<rparr>
      (\<lambda>k a. a = ''b'' \<or> 0 < k) [])) = Some ''b''
    \<and> fst (lb_pick \<lparr>lb_upstreams = [\<lparr>up_addr = ''a'', up_weight = 1\<rparr>, \<lparr>up_addr = ''b'', up_weight = 1\<rparr>],
      lb_counter = 0\<rparr> health []) = Some ''b''"
proof -
  let ?lb = "\<lparr>lb_upstreams = [\<lparr>up_addr = ''a'', up_weight = 1\<rparr>, \<lparr>up_addr = ''b'', up_weight = 1\<rparr>], lb_counter = 0\<rparr>"
  let ?h = "\<lambda>(k::nat) a. a = ''b'' \<or> 0 < k"
  have "map_option up_addr (fst (next_healthy_live ?lb ?h [])) = Some ''b''" by code_simp
  with selection_is_linearizable [of ?h ?lb "[]"] show ?thesis by auto
qed

end
