(* ===== verification/Locks.thy ===== *)
theory Locks
  imports Main
begin

text \<open>
  The lock around the configuration, \<open>Arc<RwLock<Config>>\<close> (\<open>server.rs\<close>, \<open>reload.rs\<close>).  tokio's
  \<open>RwLock\<close> is a parameter, the record \<open>lock_api\<close> of what its futures and guards do; its
  documentation is the locale \<open>fair_lock\<close>: readers share the lock, a writer has it alone, tasks
  wait in a first-in, first-out queue, and no reader is let in past a waiting writer.
\<close>

text \<open>Request tasks read the configuration, the reload task writes it.\<close>

datatype waiter = Reader nat | Writer

record 'l lock_api =
  lk_new :: 'l
  lk_enqueue :: "waiter \<Rightarrow> 'l \<Rightarrow> 'l"          \<comment> \<open>the future of \<open>read()\<close> or \<open>write()\<close> is created and queues\<close>
  lk_poll :: "waiter \<Rightarrow> 'l \<Rightarrow> 'l option"      \<comment> \<open>the future is polled: \<open>Some\<close> if it has the guard\<close>
  lk_cancel :: "waiter \<Rightarrow> 'l \<Rightarrow> 'l"           \<comment> \<open>the future is dropped before it is ready\<close>
  lk_release :: "waiter \<Rightarrow> 'l \<Rightarrow> 'l"          \<comment> \<open>the guard is dropped\<close>

definition before :: "'a \<Rightarrow> 'a list \<Rightarrow> 'a list" where
  "before w ws = takeWhile (\<lambda>v. v \<noteq> w) ws"

text \<open>Whether a task that waits may be let in, given who waits and who holds guards.\<close>

definition grantable :: "waiter \<Rightarrow> waiter list \<Rightarrow> waiter set \<Rightarrow> bool" where
  "grantable w ws H \<longleftrightarrow> w \<in> set ws \<and> Writer \<notin> H \<and> Writer \<notin> set (before w ws)
     \<and> (w = Writer \<longrightarrow> before w ws = [] \<and> H = {})"

text \<open>What one task does to the lock, by its phase before and after.\<close>

datatype phase_of_lock = Outside | InQueue | Inside

inductive lock_move :: "'l lock_api \<Rightarrow> waiter \<Rightarrow> phase_of_lock \<Rightarrow> phase_of_lock \<Rightarrow> 'l \<Rightarrow> 'l \<Rightarrow> bool" for K w where
  stay: "lock_move K w ph ph l l"
| enter_queue: "lock_move K w Outside InQueue l (lk_enqueue K w l)"
| enter: "lk_poll K w l = Some l' \<Longrightarrow> lock_move K w InQueue Inside l l'"
| pass: "lk_poll K w l = Some l' \<Longrightarrow> lock_move K w InQueue Outside l (lk_release K w l')"
| leave: "lock_move K w Inside Outside l (lk_release K w l)"
| give_up: "lock_move K w InQueue Outside l (lk_cancel K w l)"

locale fair_lock =
  fixes K :: "'l lock_api"
    and waiting :: "'l \<Rightarrow> waiter list"
    and holding :: "'l \<Rightarrow> waiter set"
  assumes new: "waiting (lk_new K) = []" "holding (lk_new K) = {}"
    and enqueue: "waiting (lk_enqueue K w l) = waiting l @ [w]" "holding (lk_enqueue K w l) = holding l"
    and poll_Some: "lk_poll K w l = Some l' \<Longrightarrow> grantable w (waiting l) (holding l)
      \<and> waiting l' = remove1 w (waiting l) \<and> holding l' = insert w (holding l)"
    and poll_None: "lk_poll K w l = None \<Longrightarrow> \<not> grantable w (waiting l) (holding l)"
    and cancel: "waiting (lk_cancel K w l) = remove1 w (waiting l)" "holding (lk_cancel K w l) = holding l"
    and release: "waiting (lk_release K w l) = waiting l" "holding (lk_release K w l) = holding l - {w}"

section \<open>The queue seen by one waiter\<close>

lemma before_append: "w \<in> set ws \<Longrightarrow> before w (ws @ vs) = before w ws"
  by (simp add: before_def takeWhile_append1)

lemma not_in_before: "w \<notin> set (before w ws)"
  by (auto simp: before_def dest: set_takeWhileD)

lemma before_remove1:
  "distinct ws \<Longrightarrow> w \<noteq> v \<Longrightarrow> before w (remove1 v ws) = remove1 v (before w ws)"
  by (induction ws) (auto simp: before_def)

lemma remove1_absent: "v \<notin> set ws \<Longrightarrow> remove1 v ws = ws"
  by (induction ws) auto

lemma sum_list_remove1:
  fixes f :: "'a \<Rightarrow> nat"
  assumes "v \<in> set ws"
  shows "sum_list (map f ws) = sum_list (map f (remove1 v ws)) + f v"
  using assms by (induction ws) auto

lemma head_grantable:
  "waiting = w # ws \<Longrightarrow> Writer \<notin> H \<Longrightarrow> (w = Writer \<Longrightarrow> H = {}) \<Longrightarrow> grantable w waiting H"
  by (simp add: grantable_def before_def)

text \<open>How far a waiter is from its guard: a reader that no writer is ahead of can enter at its
  next poll; otherwise everyone ahead has to enter and to leave, and so have the holders.\<close>

fun weight :: "waiter \<Rightarrow> nat" where
  "weight (Reader i) = 2"
| "weight Writer = 1"

definition distance :: "waiter \<Rightarrow> waiter list \<Rightarrow> waiter set \<Rightarrow> nat" where
  "distance w ws H =
     (if w \<notin> set ws then 0
      else if w \<noteq> Writer \<and> Writer \<notin> set (before w ws) then 1
      else 2 + sum_list (map weight (before w ws)) + card H)"

lemma distance_pos: "distance w ws H \<noteq> 0 \<longleftrightarrow> w \<in> set ws"
  by (simp add: distance_def)

lemma distance_enqueue: "w \<in> set ws \<Longrightarrow> distance w (ws @ [v]) H = distance w ws H"
  using before_append [of w ws "[v]"] by (auto simp: distance_def)

lemma distance_release: "finite H \<Longrightarrow> distance w ws (H - {v}) \<le> distance w ws H"
  by (simp add: distance_def card_Diff1_le)

lemma distance_release_less:
  assumes "finite H" "v \<in> H" "w \<in> set ws" "w = Writer \<or> Writer \<in> set (before w ws)"
  shows "distance w ws (H - {v}) < distance w ws H"
  using assms card_Diff1_less [OF assms(1,2)] by (auto simp: distance_def)

lemma distance_leave:
  assumes "distinct ws" "w \<noteq> v"
  shows "distance w (remove1 v ws) H \<le> distance w ws H"
proof (cases "w \<in> set ws \<and> v \<in> set (before w ws)")
  case True
  then have "sum_list (map weight (before w ws)) = sum_list (map weight (remove1 v (before w ws))) + weight v"
    by (intro sum_list_remove1) simp
  with True assms show ?thesis by (auto simp: distance_def before_remove1 notin_set_remove1)
next
  case False
  then show ?thesis
    using assms by (auto simp: distance_def before_remove1 remove1_absent)
qed

lemma grant_ahead:
  assumes "grantable v ws H" "w \<in> set ws" "w \<noteq> v" "w = Writer \<or> Writer \<in> set (before w ws)"
  shows "v \<in> set (before w ws)"
proof (rule ccontr)
  assume "v \<notin> set (before w ws)"
  with assms(1-3) have "set (before w ws) \<union> {w} \<subseteq> set (before v ws)"
    unfolding grantable_def by (induction ws) (auto simp: before_def split: if_splits)
  with assms(1,4) show False by (auto simp: grantable_def)
qed

text \<open>Letting someone in never moves a waiter back, and letting in a waiter whose way is
  blocked by a writer moves it on if the one let in was ahead.\<close>

lemma distance_grant:
  assumes "distinct ws" "finite H" "grantable v ws H" "w \<noteq> v" "w \<in> set ws"
  shows "distance w (remove1 v ws) (insert v H) \<le> distance w ws H"
    and "w = Writer \<or> Writer \<in> set (before w ws) \<Longrightarrow> distance w (remove1 v ws) (insert v H) < distance w ws H"
proof -
  have card: "card (insert v H) \<le> Suc (card H)" using card_insert_le_m1 assms(2) by (simp add: card_insert_if)
  have ahead: "v \<in> set (before w ws)" if "w = Writer \<or> Writer \<in> set (before w ws)"
    using grant_ahead [OF assms(3,5,4)] that by blast
  show less: "distance w (remove1 v ws) (insert v H) < distance w ws H"
    if blocked: "w = Writer \<or> Writer \<in> set (before w ws)"
  proof -
    have sum: "sum_list (map weight (before w ws)) = sum_list (map weight (remove1 v (before w ws))) + weight v"
      by (rule sum_list_remove1) (rule ahead [OF blocked])
    show ?thesis
    proof (cases v)
      case (Reader i)
      with sum card blocked assms show ?thesis by (auto simp: distance_def before_remove1)
    next
      case Writer
      with assms(1,4) have "Writer \<notin> set (remove1 Writer (before w ws))"
        by (simp add: before_def distinct_takeWhile)
      with Writer assms blocked show ?thesis by (auto simp: distance_def before_remove1)
    qed
  qed
  show "distance w (remove1 v ws) (insert v H) \<le> distance w ws H"
  proof (cases "w = Writer \<or> Writer \<in> set (before w ws)")
    case False
    then show ?thesis using assms(1,4) by (auto simp: distance_def before_remove1 dest: notin_set_remove1)
  qed (use less in simp)
qed

section \<open>Who can bring a waiter on\<close>

definition blocked :: "waiter \<Rightarrow> waiter list \<Rightarrow> bool" where
  "blocked w ws \<longleftrightarrow> w = Writer \<or> Writer \<in> set (before w ws)"

text \<open>A waiter whose way is free helps itself; otherwise the holders help it by leaving, and the
  head of the queue by entering.\<close>

definition helpful :: "waiter \<Rightarrow> waiter list \<Rightarrow> waiter set \<Rightarrow> waiter \<Rightarrow> bool" where
  "helpful w ws H v \<longleftrightarrow> w \<in> set ws \<and>
     (if blocked w ws then v \<in> H \<or> v = hd ws \<and> (v = Writer \<longrightarrow> H = {}) else v = w)"

text \<open>The lock as an observer sees it: a queue without repetitions, and readers that hold it.\<close>

definition sane :: "waiter list \<Rightarrow> waiter set \<Rightarrow> bool" where
  "sane ws H \<longleftrightarrow> distinct ws \<and> finite H \<and> Writer \<notin> H \<and> set ws \<inter> H = {}"

inductive lock_act :: "waiter \<Rightarrow> waiter list \<Rightarrow> waiter set \<Rightarrow> waiter list \<Rightarrow> waiter set \<Rightarrow> bool" for v ws H where
  act_none: "lock_act v ws H ws H"
| act_queue: "v \<notin> set ws \<Longrightarrow> v \<notin> H \<Longrightarrow> lock_act v ws H (ws @ [v]) H"
| act_enter: "grantable v ws H \<Longrightarrow> lock_act v ws H (remove1 v ws) (insert v H)"
| act_pass: "grantable v ws H \<Longrightarrow> lock_act v ws H (remove1 v ws) (H - {v})"
| act_leave: "v \<in> H \<Longrightarrow> lock_act v ws H ws (H - {v})"
| act_give_up: "v \<in> set ws \<Longrightarrow> lock_act v ws H (remove1 v ws) H"

text \<open>The task has not merely been kept waiting.\<close>

definition moves_on :: "waiter \<Rightarrow> waiter list \<Rightarrow> waiter set \<Rightarrow> waiter list \<Rightarrow> waiter set \<Rightarrow> bool" where
  "moves_on v ws H ws' H' \<longleftrightarrow>
     (v \<in> H \<and> ws' = ws \<and> H' = H - {v})
   \<or> (grantable v ws H \<and> ws' = remove1 v ws \<and> (H' = insert v H \<or> H' = H - {v}))"

lemma hd_before: "w \<in> set ws \<Longrightarrow> hd ws = w \<or> hd ws \<in> set (before w ws)"
  by (cases ws) (auto simp: before_def)

lemma blocked_append: "w \<in> set ws \<Longrightarrow> blocked w (ws @ vs) = blocked w ws"
  by (simp add: blocked_def before_append)

lemma helpful_grantable:
  assumes "sane ws H" "helpful w ws H v" "v \<notin> H"
  shows "grantable v ws H"
proof (cases "blocked w ws")
  case True
  with assms have v: "v = hd ws" "ws \<noteq> []" "v = Writer \<Longrightarrow> H = {}"
    by (auto simp: helpful_def)
  then have "ws = v # tl ws" by simp
  with v(3) assms(1) show ?thesis by (intro head_grantable) (simp_all add: sane_def)
next
  case False
  with assms show ?thesis by (simp add: helpful_def grantable_def blocked_def sane_def)
qed

lemma helpful_exists:
  assumes "w \<in> set ws"
  shows "\<exists>v. helpful w ws H v"
proof (cases "blocked w ws \<and> H \<noteq> {}")
  case True
  then show ?thesis using assms by (auto simp: helpful_def)
next
  case False
  then show ?thesis using assms by (intro exI [of _ "if blocked w ws then hd ws else w"]) (auto simp: helpful_def)
qed

lemma distance_unblocked: "w \<in> set ws \<Longrightarrow> \<not> blocked w ws \<Longrightarrow> distance w ws H = 1"
  by (simp add: distance_def blocked_def)

lemma distance_blocked: "w \<in> set ws \<Longrightarrow> blocked w ws \<Longrightarrow> distance w ws H = 2 + sum_list (map weight (before w ws)) + card H"
  by (auto simp: distance_def blocked_def)

lemma weight_pos: "0 < weight v"
  by (cases v) simp_all

lemma distance_leave_less:
  assumes "distinct ws" "v \<in> set (before w ws)" "w \<in> set ws" "blocked w ws"
  shows "distance w (remove1 v ws) H < distance w ws H"
proof -
  have "w \<noteq> v" using assms(2) not_in_before [of w ws] by blast
  moreover have "sum_list (map weight (before w ws)) = sum_list (map weight (remove1 v (before w ws))) + weight v"
    by (rule sum_list_remove1) (rule assms(2))
  ultimately show ?thesis
    using assms weight_pos [of v] by (auto simp: distance_def blocked_def before_remove1)
qed

lemma pass_absent: "grantable v ws H \<Longrightarrow> set ws \<inter> H = {} \<Longrightarrow> H - {v} = H"
  by (auto simp: grantable_def)

text \<open>No action of any task moves a waiter back.\<close>

lemma act_distance:
  assumes "lock_act v ws H ws' H'" "sane ws H" "w \<in> set ws"
  shows "distance w ws' H' \<le> distance w ws H"
proof (cases "w \<in> set ws'")
  case True
  note sane = assms(2) [unfolded sane_def]
  from assms(1) show ?thesis
  proof cases
    case act_queue
    then show ?thesis using distance_enqueue [OF assms(3)] by simp
  next
    case act_enter
    with True sane have "w \<noteq> v" by auto
    with act_enter sane assms(3) show ?thesis using distance_grant(1) by simp
  next
    case act_pass
    with True sane have "w \<noteq> v" by auto
    with act_pass sane show ?thesis using distance_leave [of ws w v H] pass_absent [of v ws H] by simp
  next
    case act_leave
    with sane show ?thesis using distance_release by simp
  next
    case act_give_up
    with True sane have "w \<noteq> v" by auto
    with act_give_up sane show ?thesis using distance_leave by simp
  qed simp
qed (simp add: distance_def)

text \<open>The turn of a helpful task brings the waiter on.\<close>

lemma act_helps:
  assumes "sane ws H" "helpful w ws H v" "moves_on v ws H ws' H'"
  shows "distance w ws' H' < distance w ws H"
proof -
  note sane = assms(1) [unfolded sane_def]
  have w: "w \<in> set ws" using assms(2) by (simp add: helpful_def)
  show ?thesis
  proof (cases "v \<in> H")
    case True
    with sane w assms(2) have "blocked w ws" by (auto simp: helpful_def split: if_splits)
    moreover have "\<not> grantable v ws H" using True sane by (auto simp: grantable_def)
    ultimately show ?thesis
      using assms(3) True w sane distance_release_less [of H v w ws] by (auto simp: moves_on_def blocked_def)
  next
    case False
    with assms(3) have g: "grantable v ws H" "ws' = remove1 v ws" "H' = insert v H \<or> H' = H"
      by (auto simp: moves_on_def)
    show ?thesis
    proof (cases "w = v")
      case True
      with g sane w show ?thesis using distance_pos [of w ws H] by (auto simp: distance_def)
    next
      case other: False
      then have b: "blocked w ws" and "v = hd ws" using False assms(2) by (auto simp: helpful_def split: if_splits)
      with hd_before [OF w] other have "v \<in> set (before w ws)" by simp
      with g b other sane w show ?thesis
        using distance_grant(2) [of ws H v w] distance_leave_less [of ws v w H] by (auto simp: blocked_def)
    qed
  qed
qed

text \<open>And until the waiter has been brought on, a helpful task stays helpful.\<close>

lemma act_keeps:
  assumes "lock_act v ws H ws' H'" "sane ws H" "helpful w ws H u"
  shows "distance w ws' H' < distance w ws H \<or> helpful w ws' H' u"
proof (cases "u = v \<and> moves_on v ws H ws' H'")
  case True
  with act_helps [OF assms(2), of w v] assms(3) show ?thesis by blast
next
  case False
  note sane = assms(2) [unfolded sane_def]
  have w: "w \<in> set ws" using assms(3) by (simp add: helpful_def)
  have gone: "distance w ws' H' < distance w ws H" if "w \<notin> set ws'"
    using that w distance_pos [of w ws H] by (simp add: distance_def)
  show ?thesis
  proof (cases "blocked w ws")
    case free: False
    then have "u = w" using assms(3) by (simp add: helpful_def)
    moreover have "\<not> blocked w ws'" if "w \<in> set ws'"
      using assms(1) that free w sane
      by cases (auto simp: blocked_def before_append before_remove1 dest: notin_set_remove1)
    ultimately show ?thesis using gone by (auto simp: helpful_def)
  next
    case b: True
    then have u: "u \<in> H \<or> u = hd ws \<and> (u = Writer \<longrightarrow> H = {})" using assms(3) by (simp add: helpful_def)
    from assms(1) show ?thesis
    proof cases
      case act_none
      with assms(3) show ?thesis by simp
    next
      case act_queue
      moreover from w have "hd (ws @ [v]) = hd ws" by (cases ws) simp_all
      ultimately show ?thesis using b u w by (auto simp: helpful_def blocked_append)
    next
      case act_enter
      with b sane w gone distance_grant(2) [of ws H v w] show ?thesis by (cases "w = v") (auto simp: blocked_def)
    next
      case act_pass
      with sane have "H' = H" using pass_absent by blast
      with act_pass b sane w gone distance_leave_less [of ws v w H] grant_ahead [of v ws H w] show ?thesis
        by (cases "w = v") (auto simp: blocked_def)
    next
      case act_leave
      with b sane w distance_release_less [of H v w ws] show ?thesis by (auto simp: blocked_def)
    next
      case act_give_up
      show ?thesis
      proof (cases "w = v \<or> v \<in> set (before w ws)")
        case True
        with act_give_up b sane w gone distance_leave_less [of ws v w H] show ?thesis by (cases "w = v") auto
      next
        case other: False
        with w have "hd ws \<noteq> v" using hd_before by metis
        then have "hd (remove1 v ws) = hd ws" by (cases ws) auto
        moreover have "before w (remove1 v ws) = before w ws"
          using other sane by (simp add: before_remove1 remove1_absent)
        ultimately show ?thesis using act_give_up b u w other by (auto simp: helpful_def blocked_def)
      qed
    qed
  qed
qed

section \<open>A first-in, first-out lock\<close>

record fifo =
  ff_waiting :: "waiter list"
  ff_holding :: "waiter list"

definition fifo_api :: "fifo lock_api" where
  "fifo_api = \<lparr>
     lk_new = \<lparr>ff_waiting = [], ff_holding = []\<rparr>,
     lk_enqueue = (\<lambda>w l. l\<lparr>ff_waiting := ff_waiting l @ [w]\<rparr>),
     lk_poll = (\<lambda>w l. if w \<in> set (ff_waiting l) \<and> Writer \<notin> set (ff_holding l)
           \<and> Writer \<notin> set (before w (ff_waiting l))
           \<and> (w = Writer \<longrightarrow> before w (ff_waiting l) = [] \<and> ff_holding l = [])
         then Some \<lparr>ff_waiting = remove1 w (ff_waiting l), ff_holding = w # ff_holding l\<rparr> else None),
     lk_cancel = (\<lambda>w l. l\<lparr>ff_waiting := remove1 w (ff_waiting l)\<rparr>),
     lk_release = (\<lambda>w l. l\<lparr>ff_holding := removeAll w (ff_holding l)\<rparr>) \<rparr>"

interpretation fifo: fair_lock fifo_api ff_waiting "\<lambda>l. set (ff_holding l)"
  by unfold_locales (auto simp: fifo_api_def grantable_def split: if_splits)

end
