(* ===== verification/Fine_Grained.thy ===== *)
theory Fine_Grained
  imports Concurrency Selection Locks
begin

text \<open>
  The process below the level of \<open>Concurrency\<close>: what its locks and its \<open>Arc\<close>s are.  The
  balancers are objects on a heap, shared by the cache and by the requests that have cloned
  them; the configuration lock is a \<open>fair_lock\<close>, which a request holds while it waits for the
  plugin cache; a balancer counts and looks at the health of its candidates one lookup at a
  time; a reload queues for the configuration; a client may give up on its request.  The other
  locks (\<open>lb_cache\<close>, \<open>plugin_cache\<close>, the registry, \<open>health_handles\<close>) are released in the same
  step that acquires them.
\<close>

section \<open>The cells\<close>

record 'md cells =
  ce_config :: config
  ce_lbs :: "string \<rightharpoonup> nat"            \<comment> \<open>\<open>lb_cache\<close>: the addresses of the balancers\<close>
  ce_heap :: "load_balancer list"
  ce_plugins :: "string \<rightharpoonup> 'md"
  ce_health :: health_registry
  ce_metrics :: metrics

text \<open>The shared state the cells amount to.\<close>

definition world_of :: "'md cells \<Rightarrow> 'md world" where
  "world_of c = \<lparr>w_config = ce_config c, w_lbs = (\<lambda>n. map_option (\<lambda>a. ce_heap c ! a) (ce_lbs c n)),
     w_health = ce_health c, w_plugins = ce_plugins c, w_metrics = ce_metrics c\<rparr>"

text \<open>\<open>build_lb_map\<close> with its \<open>Arc::new\<close>: one new object per route.\<close>

fun alloc_lbs ::
  "load_balancer list \<Rightarrow> (string \<rightharpoonup> nat) \<Rightarrow> route_config list \<Rightarrow> (string \<rightharpoonup> nat) \<times> load_balancer list" where
  "alloc_lbs heap m [] = (m, heap)"
| "alloc_lbs heap m (r # rs) = alloc_lbs (heap @ [lb_new (route_pools r)]) (m(rc_name r \<mapsto> length heap)) rs"

section \<open>Requests\<close>

text \<open>Where the two loops of \<open>next_healthy\<close> are: in the first one or not, the candidates left, all
  of them, and the one to fall back on.\<close>

record selection =
  sc_first :: bool
  sc_left :: "upstream_pool list"
  sc_all :: "upstream_pool list"
  sc_default :: upstream_pool

definition scan_start :: "load_balancer \<Rightarrow> selection" where
  "scan_start lb = \<lparr>sc_first = True, sc_left = candidates lb, sc_all = candidates lb,
     sc_default = lb_upstreams lb ! (unat (lb_counter lb) mod length (lb_upstreams lb))\<rparr>"

text \<open>One lookup; the first loop passes over the excluded candidates without one.\<close>

definition scan_look :: "(string \<Rightarrow> bool) \<Rightarrow> string list \<Rightarrow> selection \<Rightarrow> selection + upstream_pool" where
  "scan_look healthy tried x =
     (case dropWhile (\<lambda>u. sc_first x \<and> list_ex (\<lambda>e. e = up_addr u) tried) (sc_left x) of
        [] \<Rightarrow> (if sc_first x then Inl (x\<lparr>sc_first := False, sc_left := sc_all x\<rparr>) else Inr (sc_default x))
      | u # us \<Rightarrow> (if healthy (up_addr u) then Inr u else Inl (x\<lparr>sc_left := us\<rparr>)))"

text \<open>
  A request waits for the configuration (\<open>Waits\<close>), may hold it while it waits for the plugins
  (\<open>Guarded\<close>), is in its loop (the states of \<open>task\<close>), and in each round has cloned a balancer
  (\<open>Picking\<close>) and scans its candidates (\<open>Scanning\<close>).  \<open>Gone\<close>: the client gave up, and hyper
  dropped the future of the request.
\<close>

datatype ('m, 'md) fine_task =
    Plain "('m, 'md) task"
  | Waits "'m job"
  | Guarded "'m job" route_config
  | Picking "'m job" "'md plan" nat "('m, 'md) loop_state" nat
  | Scanning "'m job" "'md plan" nat "('m, 'md) loop_state" selection
  | Gone "'m job"

definition count_request :: "'md cells \<Rightarrow> 'md cells" where
  "count_request c = c\<lparr>ce_metrics := (ce_metrics c)\<lparr>mt_requests := mt_requests (ce_metrics c) + 1\<rparr>\<rparr>"

definition filter_step :: "('m, 'md, 'st) build \<Rightarrow> 'm job \<Rightarrow> 'md plan \<Rightarrow> 'md cells \<Rightarrow> ('m, 'md) task" where
  "filter_step B j plan c =
     (case plugin_gate (bd_http B) (bd_wasm B) plan (jb_parts j) of
        Some denied \<Rightarrow> Ended j (report_of (answer_now denied (world_of c)))
      | None \<Rightarrow> Choosing j plan (effective_attempts plan (jb_parts j) (jb_body j)) (loop_start (jb_body j) (world_of c)))"

fun guarded :: "('m, 'md) fine_task \<Rightarrow> bool" where
  "guarded (Guarded j r) = True"
| "guarded t = False"

text \<open>With the configuration in hand: no plugin is looked up unless the route names one.\<close>

definition match_route :: "('m, 'md, 'st) build \<Rightarrow> 'm job \<Rightarrow> 'md cells \<Rightarrow> route_config option" where
  "match_route B j c = (let H = bd_http B; parts = jb_parts j in
     select_route (cfg_route (ce_config c)) (request_host H parts) (uri_path H (pt_uri parts)))"

definition match_step :: "('m, 'md, 'st) build \<Rightarrow> 'm job \<Rightarrow> 'md cells \<Rightarrow> ('m, 'md) fine_task" where
  "match_step B j c = (let F = bd_features B in
     case match_route B j c of
       None \<Rightarrow> Plain (Ended j (report_of
         (answer_now (error_response (bd_http B) 404 ''Not Found: no route matched'') (world_of c))))
     | Some r \<Rightarrow> (if feat_plugins F \<and> rc_plugin r \<noteq> None then Guarded j r
                  else Plain (filter_step B j (plan_of_route F Map.empty r) c)))"

definition fetch_step ::
  "('m, 'md, 'st) build \<Rightarrow> 'm job \<Rightarrow> 'md plan \<Rightarrow> nat \<Rightarrow> ('m, 'md) loop_state \<Rightarrow> 'md cells \<Rightarrow> ('m, 'md) fine_task" where
  "fetch_step B j plan n s c =
     (case ce_lbs c (pl_name plan) of
        None \<Rightarrow> Plain (task_end j plan (Some (error_response (bd_http B) 502 ''Bad Gateway: no upstreams available'')) s)
      | Some a \<Rightarrow> Picking j plan n s a)"

text \<open>\<open>fetch_add\<close> on the counter of the cloned balancer.\<close>

definition pick_step ::
  "('m, 'md, 'st) build \<Rightarrow> 'm job \<Rightarrow> 'md plan \<Rightarrow> nat \<Rightarrow> ('m, 'md) loop_state \<Rightarrow> nat \<Rightarrow> 'md cells
    \<Rightarrow> ('m, 'md) fine_task \<times> 'md cells" where
  "pick_step B j plan n s a c = (let lb = ce_heap c ! a in
     if lb_upstreams lb = []
     then (Plain (task_end j plan (Some (error_response (bd_http B) 502 ''Bad Gateway: no upstreams available'')) s), c)
     else (Scanning j plan n s (scan_start lb),
       c\<lparr>ce_heap := (ce_heap c)[a := lb\<lparr>lb_counter := lb_counter lb + 1\<rparr>]\<rparr>))"

definition send_step ::
  "('m, 'md, 'st) build \<Rightarrow> 'm job \<Rightarrow> 'md plan \<Rightarrow> nat \<Rightarrow> ('m, 'md) loop_state \<Rightarrow> string \<Rightarrow> ('m, 'md) task" where
  "send_step B j plan n s addr = (let H = bd_http B; conn = jb_conn j in
     case take_body (job_can_retry j plan) (ls_body s) of
       None \<Rightarrow> task_end j plan None s
     | Some (body, left) \<Rightarrow>
         (case attempt_request H plan (jb_parts j) conn body of
            None \<Rightarrow> task_end j plan None s
          | Some req \<Rightarrow>
              (case proxy_request H (jb_client j (ls_attempt s)) req addr (cn_addr conn) (cn_proto conn) of
                 (d, result) \<Rightarrow> Awaiting j plan n (s\<lparr>ls_body := left\<rparr>) addr req d result)))"

definition look_step ::
  "('m, 'md, 'st) build \<Rightarrow> 'm job \<Rightarrow> 'md plan \<Rightarrow> nat \<Rightarrow> ('m, 'md) loop_state \<Rightarrow> selection \<Rightarrow> 'md cells
    \<Rightarrow> ('m, 'md) fine_task" where
  "look_step B j plan n s x c =
     (case scan_look (is_healthy (ce_health c)) (ls_tried s) x of
        Inl x' \<Rightarrow> Scanning j plan n s x'
      | Inr u \<Rightarrow> Plain (send_step B j plan n s (up_addr u)))"

text \<open>One poll of the task of request \<open>i\<close>; without its guard, it stays as it is.\<close>

fun fine_run ::
  "('m, 'md, 'st) build \<Rightarrow> 'l lock_api \<Rightarrow> nat \<Rightarrow> ('m, 'md) fine_task \<Rightarrow> 'md cells \<Rightarrow> 'l
    \<Rightarrow> ('m, 'md) fine_task \<times> 'md cells \<times> 'l" where
  "fine_run B K i (Plain (Arrived j)) c l = (Waits j, count_request c, lk_enqueue K (Reader i) l)"
| "fine_run B K i (Waits j) c l =
     (case lk_poll K (Reader i) l of
        None \<Rightarrow> (Waits j, c, l)
      | Some l' \<Rightarrow>
          (let t = match_step B j c in (t, c, if guarded t then l' else lk_release K (Reader i) l')))"
| "fine_run B K i (Guarded j r) c l =
     (Plain (filter_step B j (plan_of_route (bd_features B) (ce_plugins c) r) c), c, lk_release K (Reader i) l)"
| "fine_run B K i (Plain (Choosing j plan 0 s)) c l =
     (Plain (task_end j plan (Some (error_response (bd_http B) 502 ''Bad Gateway'')) s), c, l)"
| "fine_run B K i (Plain (Choosing j plan (Suc n) s)) c l = (fetch_step B j plan n s c, c, l)"
| "fine_run B K i (Picking j plan n s a) c l =
     (case pick_step B j plan n s a c of (t, c') \<Rightarrow> (t, c', l))"
| "fine_run B K i (Scanning j plan n s x) c l = (look_step B j plan n s x c, c, l)"
| "fine_run B K i (Plain (Awaiting j plan n s addr req d result)) c l =
     (case await_step B j plan n s addr req d result (world_of c) of
        (t, w) \<Rightarrow> (Plain t, c\<lparr>ce_metrics := w_metrics w\<rparr>, l))"
| "fine_run B K i (Plain (Ended j r)) c l = (Plain (Ended j r), c, l)"
| "fine_run B K i (Gone j) c l = (Gone j, c, l)"

text \<open>The future of request \<open>i\<close> is dropped, and with it its place in the queue or its guard.\<close>

fun fine_drop :: "'l lock_api \<Rightarrow> nat \<Rightarrow> ('m, 'md) fine_task \<Rightarrow> 'l \<Rightarrow> ('m, 'md) fine_task \<times> 'l" where
  "fine_drop K i (Waits j) l = (Gone j, lk_cancel K (Reader i) l)"
| "fine_drop K i (Guarded j r) l = (Gone j, lk_release K (Reader i) l)"
| "fine_drop K i (Picking j plan n s a) l = (Gone j, l)"
| "fine_drop K i (Scanning j plan n s x) l = (Gone j, l)"
| "fine_drop K i (Plain (Ended j r)) l = (Plain (Ended j r), l)"
| "fine_drop K i (Plain t) l = (Gone (task_job t), l)"
| "fine_drop K i (Gone j) l = (Gone j, l)"

section \<open>The reload task\<close>

record 'md built =
  bu_config :: config
  bu_lbs :: "string \<rightharpoonup> nat"
  bu_plugins :: "string \<rightharpoonup> 'md"
  bu_probers :: "prober list"

datatype 'md fine_stage =
    Idle
  | LbsNext "'md built"
  | PluginsNext "'md built"
  | ConfigNext "'md built"
  | ConfigQueued "'md built"
  | ProbersNext "'md built"

record ('m, 'md, 'l) fine =
  fn_cells :: "'md cells"
  fn_lock :: 'l
  fn_stage :: "'md fine_stage"
  fn_handles :: "prober list"
  fn_running :: "prober list"
  fn_tasks :: "('m, 'md) fine_task list"

definition fine_start ::
  "('m, 'md, 'st) build \<Rightarrow> 'l lock_api \<Rightarrow> (string \<Rightarrow> string option) \<Rightarrow> config \<Rightarrow> metrics \<Rightarrow> ('m, 'md, 'l) fine" where
  "fine_start B K read c m =
     (let w = engine_new (bd_wasm B) (bd_features B) read c m; (lbs, heap) = alloc_lbs [] Map.empty (cfg_route c) in
      \<lparr>fn_cells = \<lparr>ce_config = c, ce_lbs = lbs, ce_heap = heap, ce_plugins = w_plugins w,
         ce_health = w_health w, ce_metrics = m\<rparr>,
       fn_lock = lk_new K, fn_stage = Idle, fn_handles = spawn_all_probers c, fn_running = spawn_all_probers c,
       fn_tasks = []\<rparr>)"

definition fine_sighup ::
  "('m, 'md, 'st) build \<Rightarrow> file_system \<Rightarrow> ('m, 'md, 'l) fine \<Rightarrow> ('m, 'md, 'l) fine" where
  "fine_sighup B fs y =
     (case prepare_reload B fs of
        Inl _ \<Rightarrow> y
      | Inr new \<Rightarrow>
          (let c = fn_cells y; (lbs, heap) = alloc_lbs (ce_heap c) Map.empty (cfg_route (pr_config new)) in
           y\<lparr>fn_cells := c\<lparr>ce_heap := heap\<rparr>, fn_running := fn_running y @ pr_probers new,
             fn_stage := LbsNext \<lparr>bu_config = pr_config new, bu_lbs = lbs, bu_plugins = pr_plugins new,
               bu_probers = pr_probers new\<rparr>\<rparr>))"

text \<open>One poll of the reload task after the signal.\<close>

definition reload_poll ::
  "('m, 'md, 'st) build \<Rightarrow> 'l lock_api \<Rightarrow> ('m, 'md, 'l) fine \<Rightarrow> ('m, 'md, 'l) fine" where
  "reload_poll B K y = (let c = fn_cells y in
     case fn_stage y of
       Idle \<Rightarrow> y
     | LbsNext new \<Rightarrow> y\<lparr>fn_cells := c\<lparr>ce_lbs := bu_lbs new\<rparr>, fn_stage := PluginsNext new\<rparr>
     | PluginsNext new \<Rightarrow>
         y\<lparr>fn_cells := (if feat_plugins (bd_features B) then c\<lparr>ce_plugins := bu_plugins new\<rparr> else c),
           fn_stage := ConfigNext new\<rparr>
     | ConfigNext new \<Rightarrow> y\<lparr>fn_lock := lk_enqueue K Writer (fn_lock y), fn_stage := ConfigQueued new\<rparr>
     | ConfigQueued new \<Rightarrow>
         (case lk_poll K Writer (fn_lock y) of
            None \<Rightarrow> y
          | Some l \<Rightarrow> y\<lparr>fn_cells := c\<lparr>ce_config := bu_config new\<rparr>, fn_lock := lk_release K Writer l,
              fn_stage := ProbersNext new\<rparr>)
     | ProbersNext new \<Rightarrow>
         y\<lparr>fn_handles := bu_probers new,
           fn_running := foldl (\<lambda>running h. remove1 h running) (fn_running y) (fn_handles y),
           fn_stage := Idle\<rparr>)"

definition task_poll ::
  "('m, 'md, 'st) build \<Rightarrow> 'l lock_api \<Rightarrow> nat \<Rightarrow> ('m, 'md, 'l) fine \<Rightarrow> ('m, 'md, 'l) fine" where
  "task_poll B K i y =
     (case fine_run B K i (fn_tasks y ! i) (fn_cells y) (fn_lock y) of
        (t, c, l) \<Rightarrow> y\<lparr>fn_cells := c, fn_lock := l, fn_tasks := (fn_tasks y)[i := t]\<rparr>)"

definition task_drop :: "'l lock_api \<Rightarrow> nat \<Rightarrow> ('m, 'md, 'l) fine \<Rightarrow> ('m, 'md, 'l) fine" where
  "task_drop K i y =
     (case fine_drop K i (fn_tasks y ! i) (fn_lock y) of
        (t, l) \<Rightarrow> y\<lparr>fn_lock := l, fn_tasks := (fn_tasks y)[i := t]\<rparr>)"

inductive fine_step ::
  "('m, 'md, 'st) build \<Rightarrow> 'l lock_api \<Rightarrow> ('m, 'md, 'l) fine \<Rightarrow> ('m, 'md, 'l) fine \<Rightarrow> bool" for B K where
  hup: "fn_stage y = Idle \<Longrightarrow> fine_step B K y (fine_sighup B fs y)"
| reload: "fine_step B K y (reload_poll B K y)"
| probe: "pb \<in> set (fn_running y) \<Longrightarrow>
    fine_step B K y (y\<lparr>fn_cells := (fn_cells y)\<lparr>ce_health := prober_round net pb (ce_health (fn_cells y))\<rparr>\<rparr>)"
| spawn: "fine_step B K y (y\<lparr>fn_tasks := fn_tasks y @ [Plain (Arrived j)]\<rparr>)"
| poll: "i < length (fn_tasks y) \<Longrightarrow> fine_step B K y (task_poll B K i y)"
| drop: "i < length (fn_tasks y) \<Longrightarrow> fine_step B K y (task_drop K i y)"

section \<open>The heap\<close>

text \<open>The balancers a reload has built and not yet published.\<close>

definition pending :: "'md fine_stage \<Rightarrow> string \<rightharpoonup> nat" where
  "pending st = (case st of LbsNext new \<Rightarrow> bu_lbs new | _ \<Rightarrow> Map.empty)"

text \<open>The balancer a request has cloned, and the route it did so for.\<close>

fun cloned :: "('m, 'md) fine_task \<Rightarrow> (string \<times> nat) option" where
  "cloned (Picking j plan n s a) = Some (pl_name plan, a)"
| "cloned t = None"

definition arcs_ok :: "nat \<Rightarrow> (string \<rightharpoonup> nat) \<Rightarrow> (string \<rightharpoonup> nat) \<Rightarrow> (string \<times> nat) option list \<Rightarrow> bool" where
  "arcs_ok sz lbs pend clones \<longleftrightarrow>
     (\<forall>n a. lbs n = Some a \<longrightarrow> a < sz \<and> (\<forall>m. lbs m = Some a \<longrightarrow> m = n) \<and> (\<forall>m. pend m \<noteq> Some a))
   \<and> (\<forall>n a. pend n = Some a \<longrightarrow> a < sz \<and> (\<forall>m. pend m = Some a \<longrightarrow> m = n))
   \<and> (\<forall>n a. Some (n, a) \<in> set clones \<longrightarrow> a < sz \<and> (\<forall>m. lbs m = Some a \<longrightarrow> m = n) \<and> (\<forall>m. pend m \<noteq> Some a))"

definition arcs_inv :: "('m, 'md, 'st) build \<Rightarrow> ('m, 'md, 'l) fine \<Rightarrow> bool" where
  "arcs_inv B y \<longleftrightarrow>
     arcs_ok (length (ce_heap (fn_cells y))) (ce_lbs (fn_cells y)) (pending (fn_stage y)) (map cloned (fn_tasks y))
   \<and> (\<forall>new. fn_stage y = LbsNext new \<longrightarrow>
        (\<lambda>n. map_option (\<lambda>a. ce_heap (fn_cells y) ! a) (bu_lbs new n)) = build_lb_map (bu_config new))"

lemma alloc_lbs_range:
  "alloc_lbs heap m rs = (m', heap') \<Longrightarrow> (\<exists>more. heap' = heap @ more)
    \<and> (\<forall>n a. m' n = Some a \<longrightarrow> m n = Some a \<or> length heap \<le> a \<and> a < length heap')"
proof (induction heap m rs rule: alloc_lbs.induct)
  case (2 heap m r rs)
  let ?h = "heap @ [lb_new (route_pools r)]" and ?m = "m(rc_name r \<mapsto> length heap)"
  from 2 obtain more where more: "heap' = ?h @ more"
    and range: "\<And>n a. m' n = Some a \<Longrightarrow> ?m n = Some a \<or> length ?h \<le> a \<and> a < length heap'"
    unfolding alloc_lbs.simps by blast
  have "m n = Some a \<or> length heap \<le> a \<and> a < length heap'" if "m' n = Some a" for n a
    using range [OF that] more by (cases "n = rc_name r") auto
  with more show ?case by simp
qed simp

lemma alloc_lbs_inj:
  assumes "\<forall>n k a. m n = Some a \<longrightarrow> m k = Some a \<longrightarrow> n = k" "\<forall>n a. m n = Some a \<longrightarrow> a < length heap"
    and "alloc_lbs heap m rs = (m', heap')"
  shows "\<forall>n k a. m' n = Some a \<longrightarrow> m' k = Some a \<longrightarrow> n = k"
  using assms
proof (induction heap m rs rule: alloc_lbs.induct)
  case (2 heap m r rs)
  let ?m = "m(rc_name r \<mapsto> length heap)"
  have "n = k" if "?m n = Some a" "?m k = Some a" for n k a
    using that 2(2,3) by (cases "n = rc_name r"; cases "k = rc_name r") fastforce+
  moreover have "\<forall>n a. ?m n = Some a \<longrightarrow> a < length (heap @ [lb_new (route_pools r)])"
    using 2(3) by (auto simp: less_Suc_eq)
  moreover have "alloc_lbs (heap @ [lb_new (route_pools r)]) ?m rs = (m', heap')" using 2(4) by (simp only: alloc_lbs.simps)
  ultimately show ?case using 2(1) by blast
qed simp

lemma alloc_lbs_values:
  assumes "\<forall>n a. m n = Some a \<longrightarrow> a < length heap" "alloc_lbs heap m rs = (m', heap')"
  shows "(\<lambda>n. map_option (\<lambda>a. heap' ! a) (m' n)) =
    foldl (\<lambda>f r. f(rc_name r \<mapsto> lb_new (route_pools r))) (\<lambda>n. map_option (\<lambda>a. heap ! a) (m n)) rs"
  using assms
proof (induction heap m rs rule: alloc_lbs.induct)
  case (2 heap m r rs)
  let ?h = "heap @ [lb_new (route_pools r)]" and ?m = "m(rc_name r \<mapsto> length heap)"
  have "map_option (\<lambda>a. ?h ! a) (?m n) = ((\<lambda>n. map_option (\<lambda>a. heap ! a) (m n))(rc_name r \<mapsto> lb_new (route_pools r))) n" for n
    using 2(2) by (cases "m n") (auto simp: nth_append)
  then have "(\<lambda>n. map_option (\<lambda>a. ?h ! a) (?m n)) = (\<lambda>n. map_option (\<lambda>a. heap ! a) (m n))(rc_name r \<mapsto> lb_new (route_pools r))"
    by (rule ext)
  moreover have "\<forall>n a. ?m n = Some a \<longrightarrow> a < length ?h"
    using 2(2) by (auto simp: less_Suc_eq)
  moreover have "alloc_lbs ?h ?m rs = (m', heap')" using 2(3) by (simp only: alloc_lbs.simps)
  ultimately show ?case using 2(1) by (simp only: foldl_Cons)
qed simp

text \<open>What \<open>build_lb_map\<close> allocates is fresh and is the map the abstract process gets.\<close>

lemma alloc_lbs_new:
  assumes "alloc_lbs heap Map.empty (cfg_route c) = (m, heap')"
  shows "\<exists>more. heap' = heap @ more"
    and "m n = Some a \<Longrightarrow> length heap \<le> a \<and> a < length heap'"
    and "m n = Some a \<Longrightarrow> m k = Some a \<Longrightarrow> n = k"
    and "(\<lambda>n. map_option (\<lambda>a. heap' ! a) (m n)) = build_lb_map c"
proof -
  have none: "\<forall>n k a. Map.empty n = Some a \<longrightarrow> Map.empty k = Some a \<longrightarrow> n = k"
    "\<forall>n a. Map.empty n = Some a \<longrightarrow> a < length heap" by simp_all
  show "\<exists>more. heap' = heap @ more" "m n = Some a \<Longrightarrow> length heap \<le> a \<and> a < length heap'"
    using alloc_lbs_range [OF assms] by auto
  show "m n = Some a \<Longrightarrow> m k = Some a \<Longrightarrow> n = k"
    using alloc_lbs_inj [OF none assms] by blast
  show "(\<lambda>n. map_option (\<lambda>a. heap' ! a) (m n)) = build_lb_map c"
    using alloc_lbs_values [OF none(2) assms] by (simp add: build_lb_map_def)
qed

lemma arcs_okI:
  assumes "\<And>n a. lbs n = Some a \<Longrightarrow> a < sz \<and> (\<forall>m. lbs m = Some a \<longrightarrow> m = n) \<and> (\<forall>m. pend m \<noteq> Some a)"
    and "\<And>n a. pend n = Some a \<Longrightarrow> a < sz \<and> (\<forall>m. pend m = Some a \<longrightarrow> m = n)"
    and "\<And>n a. Some (n, a) \<in> set clones \<Longrightarrow> a < sz \<and> (\<forall>m. lbs m = Some a \<longrightarrow> m = n) \<and> (\<forall>m. pend m \<noteq> Some a)"
  shows "arcs_ok sz lbs pend clones"
  using assms unfolding arcs_ok_def by blast

lemma arcs_ok_fewer:
  "arcs_ok sz lbs pend clones \<Longrightarrow> (\<And>p. Some p \<in> set clones' \<Longrightarrow> Some p \<in> set clones) \<Longrightarrow>
    arcs_ok sz lbs pend clones'"
  unfolding arcs_ok_def by blast

lemma arcs_ok_clone:
  "arcs_ok sz lbs pend clones \<Longrightarrow> lbs n = Some a \<Longrightarrow>
    (\<And>p. Some p \<in> set clones' \<Longrightarrow> p = (n, a) \<or> Some p \<in> set clones) \<Longrightarrow> arcs_ok sz lbs pend clones'"
  unfolding arcs_ok_def by (intro conjI; blast)

text \<open>The publication of what was pending.\<close>

lemma arcs_ok_publish:
  "arcs_ok sz lbs pend clones \<Longrightarrow> arcs_ok sz pend Map.empty clones"
  unfolding arcs_ok_def by auto

lemma arcs_ok_alloc:
  fixes c :: config
  assumes "arcs_ok (length heap) lbs Map.empty clones" "alloc_lbs heap Map.empty (cfg_route c) = (m, heap')"
  shows "arcs_ok (length heap') lbs m clones"
proof -
  have len: "length heap \<le> length heap'" using alloc_lbs_new(1) [OF assms(2)] by auto
  note new = alloc_lbs_new(2,3) [OF assms(2)]
  have old: "m k \<noteq> Some a" if "a < length heap" for k a
    using new(1) [of k a] that by auto
  show ?thesis
  proof (rule arcs_okI)
    show "a < length heap' \<and> (\<forall>m. lbs m = Some a \<longrightarrow> m = n) \<and> (\<forall>k. m k \<noteq> Some a)" if "lbs n = Some a" for n a
      using assms(1) that len old unfolding arcs_ok_def by (meson less_le_trans)
    show "a < length heap' \<and> (\<forall>k. m k = Some a \<longrightarrow> k = n)" if "m n = Some a" for n a
      using new that by blast
    show "a < length heap' \<and> (\<forall>m. lbs m = Some a \<longrightarrow> m = n) \<and> (\<forall>k. m k \<noteq> Some a)" if "Some (n, a) \<in> set clones" for n a
      using assms(1) that len old unfolding arcs_ok_def by (meson less_le_trans)
  qed
qed

section \<open>The abstract process\<close>

definition prepared_of :: "'md built \<Rightarrow> 'md prepared" where
  "prepared_of new = \<lparr>pr_config = bu_config new, pr_lbs = build_lb_map (bu_config new),
     pr_plugins = bu_plugins new, pr_probers = bu_probers new\<rparr>"

fun stage_of :: "'md fine_stage \<Rightarrow> 'md stage" where
  "stage_of Idle = Waiting"
| "stage_of (LbsNext new) = SwapLbs (prepared_of new)"
| "stage_of (PluginsNext new) = SwapPlugins (prepared_of new)"
| "stage_of (ConfigNext new) = SwapConfig (prepared_of new)"
| "stage_of (ConfigQueued new) = SwapConfig (prepared_of new)"
| "stage_of (ProbersNext new) = SwapProbers (prepared_of new)"

abbreviation fine_world :: "('m, 'md, 'l) fine \<Rightarrow> 'md world" where
  "fine_world y \<equiv> world_of (fn_cells y)"

definition fine_process :: "('m, 'md, 'l) fine \<Rightarrow> 'md process" where
  "fine_process y = \<lparr>ps_world = fine_world y, ps_handles = fn_handles y, ps_running = fn_running y,
     ps_stage = stage_of (fn_stage y)\<rparr>"

lemma stage_of_Waiting [simp]: "stage_of st = Waiting \<longleftrightarrow> st = Idle"
  by (cases st) simp_all

lemma world_of_simps [simp]:
  "w_config (world_of c) = ce_config c" "w_health (world_of c) = ce_health c"
  "w_plugins (world_of c) = ce_plugins c" "w_metrics (world_of c) = ce_metrics c"
  "w_lbs (world_of c) n = map_option (\<lambda>a. ce_heap c ! a) (ce_lbs c n)"
  by (simp_all add: world_of_def)

text \<open>Growing the heap changes nothing that is reachable.\<close>

lemma heap_grow:
  assumes "\<forall>n a. lbs n = Some a \<longrightarrow> a < length heap"
  shows "(\<lambda>n. map_option (\<lambda>a. (heap @ added) ! a) (lbs n)) = (\<lambda>n. map_option (\<lambda>a. heap ! a) (lbs n))"
  using assms by (auto simp: fun_eq_iff nth_append map_option_case split: option.splits)

lemma arcs_inv_lbs: "arcs_inv B y \<Longrightarrow> ce_lbs (fn_cells y) n = Some a \<Longrightarrow> a < length (ce_heap (fn_cells y))"
  by (simp add: arcs_inv_def arcs_ok_def)

lemma fine_start_lbs:
  assumes "alloc_lbs [] Map.empty (cfg_route c) = (lbs, heap)"
  shows "(\<lambda>n. map_option (\<lambda>a. heap ! a) (lbs n)) = build_lb_map c"
  by (rule alloc_lbs_new(4) [OF assms])

lemma fine_process_start: "fine_process (fine_start B K read c m) = process_start B read c m"
  using fine_start_lbs [of c]
  by (simp add: fine_start_def fine_process_def process_start_def spawn_health_probers_def world_of_def
      engine_new_def Let_def split: prod.splits)

lemma arcs_inv_start: "arcs_inv B (fine_start B K read c m)"
proof -
  obtain lbs heap where a: "alloc_lbs [] Map.empty (cfg_route c) = (lbs, heap)" by fastforce
  show ?thesis
    using alloc_lbs_new(2,3) [OF a] a
    by (auto simp: arcs_inv_def fine_start_def pending_def arcs_ok_def Let_def)
qed

subsection \<open>Signals, swaps and probes\<close>

lemma fine_sighup_abs:
  assumes "arcs_inv B y"
  shows "fine_process (fine_sighup B fs y) = sighup B fs (fine_process y)"
proof (cases "prepare_reload B fs")
  case (Inr new)
  obtain lbs heap where a: "alloc_lbs (ce_heap (fn_cells y)) Map.empty (cfg_route (pr_config new)) = (lbs, heap)"
    by fastforce
  obtain more where more: "heap = ce_heap (fn_cells y) @ more" using alloc_lbs_new(1) [OF a] by blast
  have "(\<lambda>n. map_option (\<lambda>x. heap ! x) (ce_lbs (fn_cells y) n))
      = (\<lambda>n. map_option (\<lambda>x. ce_heap (fn_cells y) ! x) (ce_lbs (fn_cells y) n))"
    unfolding more by (rule heap_grow) (use arcs_inv_lbs [OF assms] in blast)
  moreover have "pr_lbs new = build_lb_map (pr_config new)"
    using prepare_reload_ok [OF Inr] by (simp add: prepared_ok_def)
  ultimately show ?thesis using Inr a
    by (simp add: fine_sighup_def sighup_def fine_process_def prepared_of_def world_of_def)
qed (simp add: fine_sighup_def sighup_def)

lemma arcs_inv_sighup:
  assumes "arcs_inv B y" "fn_stage y = Idle"
  shows "arcs_inv B (fine_sighup B fs y)"
proof (cases "prepare_reload B fs")
  case (Inr new)
  obtain lbs heap where a: "alloc_lbs (ce_heap (fn_cells y)) Map.empty (cfg_route (pr_config new)) = (lbs, heap)"
    by fastforce
  have "arcs_ok (length heap) (ce_lbs (fn_cells y)) lbs (map cloned (fn_tasks y))"
    using assms by (intro arcs_ok_alloc [OF _ a]) (simp add: arcs_inv_def pending_def)
  with Inr a alloc_lbs_new(4) [OF a] show ?thesis
    by (simp add: fine_sighup_def arcs_inv_def pending_def)
qed (use assms in \<open>simp add: fine_sighup_def\<close>)

lemma reload_poll_abs:
  assumes "arcs_inv B y"
  shows "fine_process (reload_poll B K y) = fine_process y \<or>
    fn_stage y \<noteq> Idle \<and> fine_process (reload_poll B K y) = swap_next (bd_features B) (fine_process y)"
proof (cases "fn_stage y")
  case (LbsNext new)
  with assms show ?thesis
    by (simp add: arcs_inv_def reload_poll_def fine_process_def swap_next_def prepared_of_def world_of_def)
next
  case (ConfigQueued new)
  then show ?thesis
    by (auto simp: reload_poll_def fine_process_def swap_next_def prepared_of_def world_of_def Let_def
        split: option.splits)
qed (simp_all add: reload_poll_def fine_process_def swap_next_def prepared_of_def world_of_def Let_def)

lemma arcs_inv_reload_poll: "arcs_inv B y \<Longrightarrow> arcs_inv B (reload_poll B K y)"
  by (cases "fn_stage y")
    (auto simp: arcs_inv_def reload_poll_def pending_def Let_def intro: arcs_ok_publish split: option.splits)

subsection \<open>Requests\<close>

lemma process_world_update: "fine_process (y\<lparr>fn_cells := c, fn_lock := l, fn_tasks := ts\<rparr>)
    = (fine_process y)\<lparr>ps_world := world_of c\<rparr>"
  by (simp add: fine_process_def)

text \<open>A count on a balancer of the cache is a selection by its route; one on a balancer that a
  reload has replaced is invisible.\<close>

lemma pick_step_world:
  assumes "a < length (ce_heap c)" "\<forall>m. ce_lbs c m = Some a \<longrightarrow> m = pl_name plan"
  shows "world_of (snd (pick_step B j plan n s a c)) = world_of c
    \<or> world_of (snd (pick_step B j plan n s a c)) = snd (select_upstream (world_of c) (pl_name plan) (ls_tried s))"
proof (cases "lb_upstreams (ce_heap c ! a) = []")
  case False
  let ?lb = "ce_heap c ! a" and ?name = "pl_name plan"
  let ?heap = "(ce_heap c)[a := ?lb\<lparr>lb_counter := lb_counter ?lb + 1\<rparr>]"
  have other: "map_option (\<lambda>b. ?heap ! b) (ce_lbs c m) = map_option (\<lambda>b. ce_heap c ! b) (ce_lbs c m)"
    if "ce_lbs c m \<noteq> Some a" for m
    using that by (cases "ce_lbs c m") auto
  show ?thesis
  proof (cases "ce_lbs c ?name = Some a")
    case True
    have "snd (lb_pick ?lb h tried) = ?lb\<lparr>lb_counter := lb_counter ?lb + 1\<rparr>" for h tried
      using False by (simp add: lb_pick_def next_healthy_def)
    moreover obtain picked lb' where pick: "lb_pick ?lb (is_healthy (ce_health c)) (ls_tried s) = (picked, lb')"
      by fastforce
    ultimately have "lb' = ?lb\<lparr>lb_counter := lb_counter ?lb + 1\<rparr>" by (metis snd_conv)
    with pick have "snd (select_upstream (world_of c) ?name (ls_tried s))
        = (world_of c)\<lparr>w_lbs := (w_lbs (world_of c))(?name \<mapsto> ?lb\<lparr>lb_counter := lb_counter ?lb + 1\<rparr>)\<rparr>"
      using True by (simp add: select_upstream_def)
    moreover have "(\<lambda>m. map_option (\<lambda>b. ?heap ! b) (ce_lbs c m))
        = (w_lbs (world_of c))(?name \<mapsto> ?lb\<lparr>lb_counter := lb_counter ?lb + 1\<rparr>)"
    proof (rule ext)
      fix m
      show "map_option (\<lambda>b. ?heap ! b) (ce_lbs c m)
          = ((w_lbs (world_of c))(?name \<mapsto> ?lb\<lparr>lb_counter := lb_counter ?lb + 1\<rparr>)) m"
      proof (cases "m = ?name")
        case False
        with assms(2) have "ce_lbs c m \<noteq> Some a" by blast
        with other False show ?thesis by simp
      qed (use True assms(1) in simp)
    qed
    ultimately show ?thesis using False by (simp add: pick_step_def world_of_def Let_def)
  next
    case no: False
    with assms(2) have "ce_lbs c m \<noteq> Some a" for m by blast
    with other have "(\<lambda>m. map_option (\<lambda>b. ?heap ! b) (ce_lbs c m)) = (\<lambda>m. map_option (\<lambda>b. ce_heap c ! b) (ce_lbs c m))"
      by blast
    with False show ?thesis by (simp add: pick_step_def world_of_def Let_def)
  qed
qed (simp add: pick_step_def)

text \<open>An answer changes the counters alone.\<close>

lemma counters_only:
  "w = inc_errors (world_of c) \<or> (\<exists>t. w = observe_duration t (world_of c)) \<Longrightarrow>
    world_of (c\<lparr>ce_metrics := w_metrics w\<rparr>) = w"
  by (auto simp: world_of_def inc_errors_def observe_duration_def)

lemma await_step_cells:
  assumes "await_step B j plan n s addr req d result (world_of c) = (t, w)"
  shows "world_of (c\<lparr>ce_metrics := w_metrics w\<rparr>) = w"
  by (rule counters_only) (use await_step_world [of B j plan n s addr req d result "world_of c"] assms in simp)

lemma count_request_world: "world_of (count_request c) = inc_requests (world_of c)"
  by (simp add: world_of_def count_request_def inc_requests_def)

text \<open>What a poll of a request does to the cells, it does to the shared state of the process.\<close>

lemma fine_run_proc:
  assumes "fine_run B K i t c l = (t', c', l')"
    and "\<And>n a. cloned t = Some (n, a) \<Longrightarrow> a < length (ce_heap c) \<and> (\<forall>m. ce_lbs c m = Some a \<longrightarrow> m = n)"
    and "ps_world p = world_of c"
  shows "(proc_step B)\<^sup>*\<^sup>* p (p\<lparr>ps_world := world_of c'\<rparr>)"
proof -
  have idle: "(proc_step B)\<^sup>*\<^sup>* p (p\<lparr>ps_world := world_of c\<rparr>)"
    using assms(3) by (metis process_world_self rtranclp.rtrancl_refl)
  show ?thesis
    using assms
  proof (cases "(B, K, i, t, c, l)" rule: fine_run.cases)
    case (1 B' K' i' j c0 l0)
    with assms proc_step.arrive [of B p] show ?thesis by (auto simp: count_request_world)
  next
    case (2 B' K' i' j c0 l0)
    with assms have "c' = c" by (auto simp: Let_def split: option.splits)
    with idle show ?thesis by simp
  next
    case (6 B' K' i' j plan n s a c0 l0)
    with assms(1) have c': "c' = snd (pick_step B j plan n s a c)" by (auto split: prod.splits)
    from 6 assms(2) [of "pl_name plan" a] have "a < length (ce_heap c)" "\<forall>m. ce_lbs c m = Some a \<longrightarrow> m = pl_name plan"
      by auto
    from pick_step_world [OF this, of B j n s] show ?thesis
    proof
      assume "world_of (snd (pick_step B j plan n s a c)) = world_of c"
      with c' idle show ?thesis by simp
    next
      assume "world_of (snd (pick_step B j plan n s a c)) = snd (select_upstream (world_of c) (pl_name plan) (ls_tried s))"
      with c' assms(3) proc_step.pick [of B p "pl_name plan" "ls_tried s"] show ?thesis by (metis r_into_rtranclp)
    qed
  next
    case (8 B' K' i' j plan n s addr req d result c0 l0)
    then obtain t1 w where aw: "await_step B j plan n s addr req d result (world_of c) = (t1, w)" by fastforce
    with 8 assms(1) have "c' = c\<lparr>ce_metrics := w_metrics w\<rparr>" by auto
    then have "world_of c' = w" using await_step_cells [OF aw] by simp
    with aw assms(3) await_step_world [of B j plan n s addr req d result "world_of c"] proc_step.fail [of B p]
      proc_step.answer [of B p] show ?thesis by auto
  qed (use idle in auto)
qed

text \<open>A poll keeps the addresses in order: it publishes nothing, and clones from the cache.\<close>

lemma fine_run_heap:
  assumes "fine_run B K i t c l = (t', c', l')"
  shows "ce_lbs c' = ce_lbs c \<and> length (ce_heap c') = length (ce_heap c)
    \<and> (\<forall>n a. cloned t' = Some (n, a) \<longrightarrow> ce_lbs c n = Some a)"
  using assms
proof (cases "(B, K, i, t, c, l)" rule: fine_run.cases)
  case (2 B' K' i' j c0 l0)
  have "cloned (match_step B j c) = None" by (simp add: match_step_def Let_def split: option.splits)
  with 2 assms show ?thesis by (auto simp: Let_def split: option.splits)
next
  case (5 B' K' i' j plan n s c0 l0)
  with assms show ?thesis by (auto simp: fetch_step_def split: option.splits)
next
  case (6 B' K' i' j plan n s a c0 l0)
  with assms show ?thesis by (auto simp: pick_step_def Let_def split: if_splits)
next
  case (7 B' K' i' j plan n s x c0 l0)
  with assms show ?thesis by (auto simp: look_step_def split: sum.splits)
qed (auto simp: count_request_def split: prod.splits)

lemma fine_drop_cloned: "cloned (fst (fine_drop K i t l)) = None"
  by (cases "(K, i, t, l)" rule: fine_drop.cases) auto

lemma update_clones:
  assumes "Some p \<in> set (map cloned (ts[i := t]))"
  shows "cloned t = Some p \<or> Some p \<in> set (map cloned ts)"
proof -
  obtain u where "u \<in> set (ts[i := t])" "cloned u = Some p" using assms by auto
  then show ?thesis using set_update_subset_insert [of ts i t] by force
qed

lemma arcs_inv_task_poll:
  assumes "arcs_inv B y" "i < length (fn_tasks y)"
  shows "arcs_inv B (task_poll B K i y)"
proof -
  obtain t c l where r: "fine_run B K i (fn_tasks y ! i) (fn_cells y) (fn_lock y) = (t, c, l)"
    by (metis prod_cases3)
  note frame = fine_run_heap [OF r]
  let ?c = "fn_cells y" and ?clones = "map cloned ((fn_tasks y)[i := t])"
  have ok: "arcs_ok (length (ce_heap ?c)) (ce_lbs ?c) (pending (fn_stage y)) (map cloned (fn_tasks y))"
    using assms(1) by (simp add: arcs_inv_def)
  have "arcs_ok (length (ce_heap ?c)) (ce_lbs ?c) (pending (fn_stage y)) ?clones"
  proof (cases "cloned t")
    case None
    then show ?thesis using update_clones [of _ "fn_tasks y" i t] by (intro arcs_ok_fewer [OF ok]) force
  next
    case (Some p)
    obtain n a where p: "p = (n, a)" by fastforce
    with Some frame have at: "ce_lbs ?c n = Some a" by blast
    have "q = (n, a) \<or> Some q \<in> set (map cloned (fn_tasks y))" if "Some q \<in> set ?clones" for q
      using update_clones [OF that] Some p by auto
    with arcs_ok_clone [OF ok at] show ?thesis by blast
  qed
  moreover have "(\<lambda>n. map_option (\<lambda>a. ce_heap c ! a) (bu_lbs new n)) = build_lb_map (bu_config new)"
    if new: "fn_stage y = LbsNext new" for new
  proof -
    have "ce_heap c ! b = ce_heap ?c ! b" if b: "bu_lbs new m = Some b" for m b
    proof (cases "(B, K, i, fn_tasks y ! i, ?c, fn_lock y)" rule: fine_run.cases)
      case (6 B' K' i' j plan k s a c0 l0)
      then have "cloned (fn_tasks y ! i) = Some (pl_name plan, a)" by auto
      then have "Some (pl_name plan, a) \<in> set (map cloned (fn_tasks y))" using assms(2) by (metis length_map nth_map nth_mem)
      with ok b new have "a \<noteq> b" unfolding arcs_ok_def pending_def by fastforce
      with 6 r show ?thesis by (auto simp: pick_step_def Let_def split: if_splits)
    qed (use r in \<open>auto simp: count_request_def Let_def split: prod.splits option.splits\<close>)
    then have "(\<lambda>n. map_option (\<lambda>a. ce_heap c ! a) (bu_lbs new n)) = (\<lambda>n. map_option (\<lambda>a. ce_heap ?c ! a) (bu_lbs new n))"
      by (auto simp: fun_eq_iff map_option_case split: option.splits)
    with assms(1) new show ?thesis by (simp add: arcs_inv_def)
  qed
  ultimately show ?thesis using r frame by (simp add: arcs_inv_def task_poll_def)
qed

lemma arcs_inv_task_drop: "arcs_inv B y \<Longrightarrow> arcs_inv B (task_drop K i y)"
proof -
  assume inv: "arcs_inv B y"
  obtain t l where d: "fine_drop K i (fn_tasks y ! i) (fn_lock y) = (t, l)" by fastforce
  then have "cloned t = None" using fine_drop_cloned [of K i "fn_tasks y ! i" "fn_lock y"] by simp
  then have "Some p \<in> set (map cloned (fn_tasks y))" if "Some p \<in> set (map cloned ((fn_tasks y)[i := t]))" for p
    using update_clones [OF that] by auto
  with inv d show ?thesis
    by (auto simp: arcs_inv_def task_drop_def intro: arcs_ok_fewer)
qed

lemma arcs_inv_step: "fine_step B K y y' \<Longrightarrow> arcs_inv B y \<Longrightarrow> arcs_inv B y'"
proof (induction rule: fine_step.induct)
  case (spawn y j)
  then show ?case by (auto simp: arcs_inv_def intro: arcs_ok_fewer)
qed (auto intro: arcs_inv_sighup arcs_inv_reload_poll arcs_inv_task_poll arcs_inv_task_drop, simp add: arcs_inv_def)

lemma fine_step_process:
  "fine_step B K y y' \<Longrightarrow> arcs_inv B y \<Longrightarrow> reachable B (fine_process y) (fine_process y')"
proof (induction rule: fine_step.induct)
  case (hup y fs)
  then have "ctrl_step B (fine_process y) (sighup B fs (fine_process y))"
    by (intro ctrl_step.hup) (simp add: fine_process_def)
  with hup fine_sighup_abs [of B y fs] show ?case by (simp add: proc_step.control r_into_rtranclp)
next
  case (reload y)
  from reload_poll_abs [OF this, of K] show ?case
  proof
    assume "fn_stage y \<noteq> Idle \<and> fine_process (reload_poll B K y) = swap_next (bd_features B) (fine_process y)"
    moreover from this have "ctrl_step B (fine_process y) (swap_next (bd_features B) (fine_process y))"
      by (intro ctrl_step.swap) (simp add: fine_process_def)
    ultimately show ?thesis by (simp add: proc_step.control r_into_rtranclp)
  qed simp
next
  case (probe pb y net)
  have "ctrl_step B (fine_process y)
      ((fine_process y)\<lparr>ps_world := (ps_world (fine_process y))\<lparr>w_health := prober_round net pb (w_health (ps_world (fine_process y)))\<rparr>\<rparr>)"
    by (rule ctrl_step.probe) (simp add: fine_process_def probe(1))
  then show ?case by (simp add: fine_process_def world_of_def proc_step.control r_into_rtranclp)
next
  case (poll i y)
  obtain t c l where r: "fine_run B K i (fn_tasks y ! i) (fn_cells y) (fn_lock y) = (t, c, l)"
    by (metis prod_cases3)
  have "a < length (ce_heap (fn_cells y)) \<and> (\<forall>m. ce_lbs (fn_cells y) m = Some a \<longrightarrow> m = n)"
    if "cloned (fn_tasks y ! i) = Some (n, a)" for n a
  proof -
    have "Some (n, a) \<in> set (map cloned (fn_tasks y))" using that poll(1) by (metis length_map nth_map nth_mem)
    with poll(2) show ?thesis by (simp add: arcs_inv_def arcs_ok_def)
  qed
  from fine_run_proc [OF r this, of "fine_process y"] r show ?case
    by (simp add: task_poll_def fine_process_def)
qed (auto simp: fine_process_def task_drop_def split: prod.splits)

text \<open>The fine-grained system simulates the process of \<open>Reload\<close>, so what holds of all its
  reachable states holds of the state the cells amount to.\<close>

interpretation fine: simulation "\<lambda>y. y = fine_start B K read c m" "fine_step B K" "arcs_inv B"
  "\<lambda>p. p = process_start B read c m" "proc_step B" fine_process
  for B :: "('m, 'md, 'st) build" and K :: "'l lock_api" and read c m
  by unfold_locales
    (auto simp: fine_process_start intro: arcs_inv_start arcs_inv_step fine_step_process)

end
