(* ===== verification/Fine_Locks.thy ===== *)
theory Fine_Locks
  imports Fine_Grained
begin

text \<open>
  The configuration lock in the fine-grained system: who waits for it and who holds it is what
  the states of the tasks say, and a request that holds it keeps the route it has matched.
\<close>

section \<open>Who waits and who holds\<close>


fun waits :: "('m, 'md) fine_task \<Rightarrow> bool" where
  "waits (Waits j) = True"
| "waits t = False"

fun queued :: "'md fine_stage \<Rightarrow> bool" where
  "queued (ConfigQueued new) = True"
| "queued st = False"

definition lock_inv ::
  "('l \<Rightarrow> waiter list) \<Rightarrow> ('l \<Rightarrow> waiter set) \<Rightarrow> ('m, 'md, 'l) fine \<Rightarrow> bool" where
  "lock_inv waiting holding y \<longleftrightarrow> (let l = fn_lock y; ts = fn_tasks y in
     distinct (waiting l)
     \<and> (\<forall>i. Reader i \<in> set (waiting l) \<longleftrightarrow> i < length ts \<and> waits (ts ! i))
     \<and> (Writer \<in> set (waiting l) \<longleftrightarrow> queued (fn_stage y))
     \<and> (\<forall>i. Reader i \<in> holding l \<longleftrightarrow> i < length ts \<and> guarded (ts ! i))
     \<and> Writer \<notin> holding l)"

text \<open>The phase of a request.\<close>

fun lock_phase :: "('m, 'md) fine_task \<Rightarrow> phase_of_lock" where
  "lock_phase (Waits j) = InQueue"
| "lock_phase (Guarded j r) = Inside"
| "lock_phase t = Outside"

lemma lock_phase_iff: "lock_phase t = InQueue \<longleftrightarrow> waits t" "lock_phase t = Inside \<longleftrightarrow> guarded t"
  by (cases t; simp)+

lemma match_step_phase: "lock_phase (match_step B j c) = (if guarded (match_step B j c) then Inside else Outside)"
  by (simp add: match_step_def Let_def split: option.splits)

lemma fine_run_lock:
  assumes "fine_run B K i t c l = (t', c', l')"
  shows "lock_move K (Reader i) (lock_phase t) (lock_phase t') l l'"
proof (cases "(B, K, i, t, c, l)" rule: fine_run.cases)
  case (2 B' K' i' j c0 l0)
  show ?thesis
  proof (cases "lk_poll K (Reader i) l")
    case None
    with 2 assms show ?thesis by (simp add: lock_move.stay)
  next
    case (Some l1)
    with 2 assms match_step_phase [of B j c] show ?thesis
      by (cases "guarded (match_step B j c)") (auto simp: Let_def intro: lock_move.enter lock_move.pass)
  qed
next
  case (5 B' K' i' j plan n s c0 l0)
  with assms show ?thesis by (auto simp: fetch_step_def split: option.splits intro: lock_move.stay)
next
  case (6 B' K' i' j plan n s a c0 l0)
  with assms show ?thesis by (auto simp: pick_step_def Let_def split: if_splits intro: lock_move.stay)
next
  case (7 B' K' i' j plan n s x c0 l0)
  with assms show ?thesis by (auto simp: look_step_def split: sum.splits intro: lock_move.stay)
next
  case (8 B' K' i' j plan n s addr req d result c0 l0)
  with assms show ?thesis by (auto split: prod.splits intro: lock_move.stay)
qed (use assms in \<open>auto intro: lock_move.intros\<close>)

lemma fine_drop_lock:
  "fine_drop K i t l = (t', l') \<Longrightarrow> lock_move K (Reader i) (lock_phase t) (lock_phase t') l l'"
  by (cases "(K, i, t, l)" rule: fine_drop.cases) (auto intro: lock_move.intros)

text \<open>While a request holds the configuration, its route stays the one that it matched.\<close>

definition guard_inv :: "('m, 'md, 'st) build \<Rightarrow> ('m, 'md, 'l) fine \<Rightarrow> bool" where
  "guard_inv B y \<longleftrightarrow> (\<forall>i j r. i < length (fn_tasks y) \<longrightarrow> fn_tasks y ! i = Guarded j r \<longrightarrow>
     match_route B j (fn_cells y) = Some r)"

lemma match_route_config: "ce_config c' = ce_config c \<Longrightarrow> match_route B j c' = match_route B j c"
  by (simp add: match_route_def)

lemma guard_inv_update:
  assumes "guard_inv B y" "fn_tasks y' = fn_tasks y" "ce_config (fn_cells y') = ce_config (fn_cells y)"
  shows "guard_inv B y'"
  using assms match_route_config [OF assms(3), of B] by (simp add: guard_inv_def)

lemma fine_run_guard:
  assumes "fine_run B K i t c l = (t', c', l')"
  shows "ce_config c' = ce_config c \<and> (\<forall>j r. t' = Guarded j r \<longrightarrow>
    match_route B j c = Some r)"
  using assms
proof (cases "(B, K, i, t, c, l)" rule: fine_run.cases)
  case (2 B' K' i' j c0 l0)
  have "match_route B j' c = Some r" if "match_step B j c = Guarded j' r" for j' r
    using that by (auto simp: match_step_def Let_def split: option.splits if_splits)
  with 2 assms show ?thesis by (auto simp: Let_def split: option.splits)
next
  case (5 B' K' i' j plan n s c0 l0)
  with assms show ?thesis by (auto simp: fetch_step_def split: option.splits)
next
  case (6 B' K' i' j plan n s a c0 l0)
  with assms show ?thesis by (auto simp: pick_step_def Let_def split: if_splits)
next
  case (7 B' K' i' j plan n s x c0 l0)
  with assms show ?thesis by (auto simp: look_step_def split: sum.splits)
qed (auto simp: count_request_def split: prod.splits)

lemma fine_drop_guard: "fst (fine_drop K i t l) \<noteq> Guarded j r"
  by (cases "(K, i, t, l)" rule: fine_drop.cases) auto

lemma guard_inv_replace:
  assumes "guard_inv B y" "ce_config c = ce_config (fn_cells y)"
    and "\<And>j r. t = Guarded j r \<Longrightarrow>
      match_route B j (fn_cells y) = Some r"
  shows "guard_inv B (y\<lparr>fn_cells := c, fn_lock := l, fn_tasks := (fn_tasks y)[i := t]\<rparr>)"
  unfolding guard_inv_def
proof (intro allI impI)
  fix k j r
  let ?y = "y\<lparr>fn_cells := c, fn_lock := l, fn_tasks := (fn_tasks y)[i := t]\<rparr>"
  assume "k < length (fn_tasks ?y)" "fn_tasks ?y ! k = Guarded j r"
  then have "match_route B j (fn_cells y) = Some r"
    using assms(1,3) by (cases "k = i") (auto simp: guard_inv_def)
  then show "match_route B j (fn_cells ?y) = Some r"
    using match_route_config [OF assms(2), of B] by simp
qed

context fair_lock
begin

lemma lock_inv_move:
  assumes inv: "lock_inv waiting holding y" and i: "i < length (fn_tasks y)"
    and move: "lock_move K (Reader i) (lock_phase (fn_tasks y ! i)) (lock_phase t) (fn_lock y) l"
  shows "lock_inv waiting holding (y\<lparr>fn_cells := c, fn_lock := l, fn_tasks := (fn_tasks y)[i := t]\<rparr>)"
proof -
  note unfolded = inv [unfolded lock_inv_def Let_def lock_phase_iff [symmetric]]
  have "lock_phase (((fn_tasks y)[i := t]) ! k) = (if k = i then lock_phase t else lock_phase (fn_tasks y ! k))"
    if "k < length (fn_tasks y)" for k using i that by simp
  moreover from move have "distinct (waiting l)
      \<and> (\<forall>k. Reader k \<in> set (waiting l) \<longleftrightarrow>
          (if k = i then lock_phase t = InQueue else Reader k \<in> set (waiting (fn_lock y))))
      \<and> (Writer \<in> set (waiting l) \<longleftrightarrow> Writer \<in> set (waiting (fn_lock y)))
      \<and> (\<forall>k. Reader k \<in> holding l \<longleftrightarrow> (if k = i then lock_phase t = Inside else Reader k \<in> holding (fn_lock y)))
      \<and> Writer \<notin> holding l"
    using unfolded i
    by cases (auto simp: enqueue cancel release dest!: poll_Some)
  ultimately show ?thesis
    using unfolded i unfolding lock_inv_def Let_def lock_phase_iff [symmetric] by auto
qed

lemma lock_inv_update:
  assumes "lock_inv waiting holding y" "fn_lock y' = fn_lock y" "fn_tasks y' = fn_tasks y"
    and "queued (fn_stage y') = queued (fn_stage y)"
  shows "lock_inv waiting holding y'"
  using assms by (simp add: lock_inv_def)

lemma lock_inv_reload_poll:
  assumes "lock_inv waiting holding y"
  shows "lock_inv waiting holding (reload_poll B K y)"
proof (cases "fn_stage y")
  case (ConfigNext new)
  with assms show ?thesis by (auto simp: lock_inv_def reload_poll_def Let_def enqueue)
next
  case (ConfigQueued new)
  with assms show ?thesis
    by (auto simp: lock_inv_def reload_poll_def Let_def release split: option.splits dest!: poll_Some)
qed (use assms in \<open>auto simp: reload_poll_def Let_def intro: lock_inv_update\<close>)

lemma lock_inv_step: "fine_step B K y y' \<Longrightarrow> lock_inv waiting holding y \<Longrightarrow> lock_inv waiting holding y'"
proof (induction rule: fine_step.induct)
  case (hup y fs)
  then show ?case
    by (auto simp: fine_sighup_def Let_def intro: lock_inv_update split: sum.splits prod.splits)
next
  case (reload y)
  then show ?case by (rule lock_inv_reload_poll)
next
  case (probe pb y net)
  then show ?case by (auto intro: lock_inv_update)
next
  case (spawn y j)
  then show ?case by (auto simp: lock_inv_def Let_def nth_append less_Suc_eq)
next
  case (poll i y)
  obtain t c l where r: "fine_run B K i (fn_tasks y ! i) (fn_cells y) (fn_lock y) = (t, c, l)"
    by (metis prod_cases3)
  with lock_inv_move [OF poll(2,1) fine_run_lock [OF r]] show ?case by (simp add: task_poll_def)
next
  case (drop i y)
  obtain t l where d: "fine_drop K i (fn_tasks y ! i) (fn_lock y) = (t, l)" by fastforce
  with lock_inv_move [OF drop(2,1) fine_drop_lock [OF d], of "fn_cells y"] show ?case by (simp add: task_drop_def)
qed

lemma lock_inv_start: "lock_inv waiting holding (fine_start B K read c m)"
  by (simp add: lock_inv_def fine_start_def Let_def new split: prod.splits)

text \<open>The reload task writes the configuration only when nobody holds it.\<close>

lemma guard_inv_reload_poll:
  assumes "guard_inv B y" "lock_inv waiting holding y"
  shows "guard_inv B (reload_poll B K y)"
proof (cases "fn_stage y")
  case (ConfigQueued new)
  show ?thesis
  proof (cases "lk_poll K Writer (fn_lock y)")
    case None
    with ConfigQueued assms(1) show ?thesis by (simp add: reload_poll_def)
  next
    case (Some l)
    then have "holding (fn_lock y) = {}" using poll_Some by (simp add: grantable_def)
    then have "\<not> guarded (fn_tasks y ! i)" if "i < length (fn_tasks y)" for i
      using assms(2) that by (auto simp: lock_inv_def Let_def)
    then have "fn_tasks y ! i \<noteq> Guarded j r" if "i < length (fn_tasks y)" for i j r
      using that by fastforce
    with ConfigQueued Some show ?thesis by (auto simp: reload_poll_def guard_inv_def)
  qed
qed (use assms(1) in \<open>auto simp: reload_poll_def Let_def intro: guard_inv_update\<close>)

lemma guard_inv_step:
  "fine_step B K y y' \<Longrightarrow> lock_inv waiting holding y \<Longrightarrow> guard_inv B y \<Longrightarrow> guard_inv B y'"
proof (induction rule: fine_step.induct)
  case (hup y fs)
  then show ?case
    by (auto simp: fine_sighup_def Let_def intro: guard_inv_update split: sum.splits prod.splits)
next
  case (reload y)
  then show ?case by (simp add: guard_inv_reload_poll)
next
  case (probe pb y net)
  then show ?case by (auto intro: guard_inv_update)
next
  case (spawn y j)
  then show ?case by (auto simp: guard_inv_def nth_append less_Suc_eq)
next
  case (poll i y)
  obtain t c l where r: "fine_run B K i (fn_tasks y ! i) (fn_cells y) (fn_lock y) = (t, c, l)"
    by (metis prod_cases3)
  from fine_run_guard [OF r] poll(3) have "guard_inv B (y\<lparr>fn_cells := c, fn_lock := l, fn_tasks := (fn_tasks y)[i := t]\<rparr>)"
    by (intro guard_inv_replace) auto
  with r show ?case by (simp add: task_poll_def)
next
  case (drop i y)
  obtain t l where d: "fine_drop K i (fn_tasks y ! i) (fn_lock y) = (t, l)" by fastforce
  from fine_drop_guard [of K i "fn_tasks y ! i" "fn_lock y"] d drop(3)
  have "guard_inv B (y\<lparr>fn_cells := fn_cells y, fn_lock := l, fn_tasks := (fn_tasks y)[i := t]\<rparr>)"
    by (intro guard_inv_replace) auto
  with d show ?case by (simp add: task_drop_def)
qed

lemma guard_inv_start: "guard_inv B (fine_start B K read c m)"
  by (simp add: guard_inv_def fine_start_def Let_def split: prod.splits)

end

end
