(* ===== verification/Fine_Requests.thy ===== *)
theory Fine_Requests
  imports Fine_Locks Concurrent_Runs
begin

text \<open>
  Requests in the fine-grained system: each refines a run of \<open>handle\<close>.  The configuration lock
  makes routing atomic although the plugins are looked up later; an attempt, which clones a
  balancer, counts on it and looks at health at different times, is a selection in a state
  that is pieced together from states of the process during the request.
\<close>

section \<open>Selections, one lookup at a time\<close>

text \<open>The rest of a selection whose lookups from the \<open>k\<close>-th on see \<open>h k\<close>, \<open>h (k + 1)\<close>, and so on.\<close>

definition scan_rest ::
  "(nat \<Rightarrow> string \<Rightarrow> bool) \<Rightarrow> nat \<Rightarrow> string list \<Rightarrow> selection \<Rightarrow> upstream_pool" where
  "scan_rest h k tried x =
     (if sc_first x
      then (case scan h tried k (sc_left x) of
          (Some u, _) \<Rightarrow> u
        | (None, k') \<Rightarrow> (case fst (scan h [] k' (sc_all x)) of Some u \<Rightarrow> u | None \<Rightarrow> sc_default x))
      else (case fst (scan h [] k (sc_left x)) of Some u \<Rightarrow> u | None \<Rightarrow> sc_default x))"

lemma scan_rest_start:
  "lb_upstreams lb \<noteq> [] \<Longrightarrow> fst (next_healthy_live lb h tried) = Some (scan_rest h 0 tried (scan_start lb))"
  by (auto simp: next_healthy_live_def scan_rest_def scan_start_def split: option.splits prod.splits)

lemma scan_skip:
  "scan h ex k us = (case dropWhile (\<lambda>u. list_ex (\<lambda>e. e = up_addr u) ex) us of
      [] \<Rightarrow> (None, k)
    | u # us' \<Rightarrow> (if h k (up_addr u) then (Some u, k + 1) else scan h ex (k + 1) us'))"
  by (induction us) auto

text \<open>The candidates left once the excluded ones are passed over.\<close>

definition unskipped :: "string list \<Rightarrow> selection \<Rightarrow> upstream_pool list" where
  "unskipped tried x = dropWhile (\<lambda>u. sc_first x \<and> list_ex (\<lambda>e. e = up_addr u) tried) (sc_left x)"

lemma scan_look_unskipped:
  "scan_look healthy tried x = (case unskipped tried x of
      [] \<Rightarrow> (if sc_first x then Inl (x\<lparr>sc_first := False, sc_left := sc_all x\<rparr>) else Inr (sc_default x))
    | u # us \<Rightarrow> (if healthy (up_addr u) then Inr u else Inl (x\<lparr>sc_left := us\<rparr>)))"
  by (simp add: scan_look_def unskipped_def)

lemma scan_rest_first:
  "scan_rest h k tried \<lparr>sc_first = True, sc_left = us, sc_all = all, sc_default = d\<rparr> =
     (case scan h tried k us of
        (Some u, _) \<Rightarrow> u
      | (None, k') \<Rightarrow> scan_rest h k' tried \<lparr>sc_first = False, sc_left = all, sc_all = all, sc_default = d\<rparr>)"
  by (simp add: scan_rest_def split: option.splits prod.splits)

lemma scan_rest_unskipped:
  "scan_rest h k tried x = (case unskipped tried x of
      [] \<Rightarrow> (if sc_first x then scan_rest h k tried (x\<lparr>sc_first := False, sc_left := sc_all x\<rparr>) else sc_default x)
    | u # us \<Rightarrow> (if h k (up_addr u) then u else scan_rest h (Suc k) tried (x\<lparr>sc_left := us\<rparr>)))"
proof (cases x)
  case (fields first us all d)
  show ?thesis
  proof (cases first)
    case True
    then have x: "x = \<lparr>sc_first = True, sc_left = us, sc_all = all, sc_default = d\<rparr>" using fields by simp
    show ?thesis
      unfolding x scan_rest_first [of h k tried us] scan_skip [of h tried k us] unskipped_def
      by (cases "dropWhile (\<lambda>u. list_ex (\<lambda>e. e = up_addr u) tried) us") (simp_all add: scan_rest_first del: dropWhile_eq_Nil_conv)
  next
    case False
    with fields show ?thesis
      unfolding unskipped_def by (cases us) (simp_all add: scan_rest_def split: option.splits)
  qed
qed

lemma scan_look_found: "scan_look (h k) tried x = Inr u \<Longrightarrow> scan_rest h k tried x = u"
  unfolding scan_look_unskipped scan_rest_unskipped [of h k tried x] by (simp split: list.splits if_splits)

lemma scan_look_on:
  "scan_look (h k) tried x = Inl x' \<Longrightarrow>
    scan_rest h k tried x = scan_rest h (if unskipped tried x = [] then k else Suc k) tried x'"
  unfolding scan_look_unskipped scan_rest_unskipped [of h k tried x] by (auto split: list.splits if_splits)

lemma scan_look_blind: "unskipped tried x = [] \<Longrightarrow> scan_look g tried x = scan_look g' tried x"
  by (simp add: scan_look_unskipped)

section \<open>The states a request sees\<close>

text \<open>A state pieced together from states in \<open>R\<close>: the schedules of one of them, and for each
  upstream the health it has in one of them.\<close>

definition pieced :: "('md world \<Rightarrow> bool) \<Rightarrow> 'md world \<Rightarrow> bool" where
  "pieced R w \<longleftrightarrow> (\<exists>v. R v \<and> schedules (w_lbs w) = schedules (w_lbs v)
     \<and> (\<forall>x. \<exists>v'. R v' \<and> is_healthy (w_health w) x = is_healthy (w_health v') x))"

lemma pieced_self: "R w \<Longrightarrow> pieced R w"
  unfolding pieced_def by blast

lemma pieced_mono: "pieced R w \<Longrightarrow> (\<And>v. R v \<Longrightarrow> R' v) \<Longrightarrow> pieced R' w"
  unfolding pieced_def by metis

lemma task_ok_mono:
  "task_ok B R S t \<Longrightarrow> (\<And>v. R v \<Longrightarrow> R' v) \<Longrightarrow> (\<And>v. S v \<Longrightarrow> S' v) \<Longrightarrow> task_ok B R' S' t"
  unfolding task_ok_def by metis

text \<open>A balancer with a schedule that the route had in a state of \<open>R\<close>.\<close>

definition had_schedule :: "('md world \<Rightarrow> bool) \<Rightarrow> string \<Rightarrow> load_balancer \<Rightarrow> bool" where
  "had_schedule R name lb \<longleftrightarrow> (\<exists>v. R v \<and> schedules (w_lbs v) name = Some (lb_upstreams lb))"

definition scan_ok :: "('md world \<Rightarrow> bool) \<Rightarrow> string \<Rightarrow> string list \<Rightarrow> selection \<Rightarrow> bool" where
  "scan_ok R name tried x \<longleftrightarrow> (\<exists>lb hs. had_schedule R name lb \<and> lb_upstreams lb \<noteq> []
     \<and> (\<forall>g\<in>set hs. \<exists>v. R v \<and> g = is_healthy (w_health v))
     \<and> (\<forall>h. (\<forall>k<length hs. h k = hs ! k) \<longrightarrow>
          fst (next_healthy_live lb h tried) = Some (scan_rest h (length hs) tried x)))"

fun fine_ok ::
  "('m, 'md, 'st) build \<Rightarrow> ('md world \<Rightarrow> bool) \<Rightarrow> load_balancer list \<Rightarrow> ('m, 'md) fine_task \<Rightarrow> bool" where
  "fine_ok B R heap (Plain t) = task_ok B R (pieced R) t"
| "fine_ok B R heap (Picking j plan n s a) =
     (task_ok B R (pieced R) (Choosing j plan (Suc n) s) \<and> a < length heap \<and> had_schedule R (pl_name plan) (heap ! a))"
| "fine_ok B R heap (Scanning j plan n s x) =
     (task_ok B R (pieced R) (Choosing j plan (Suc n) s) \<and> scan_ok R (pl_name plan) (ls_tried s) x)"
| "fine_ok B R heap (Waits j) = True"
| "fine_ok B R heap (Guarded j r) = True"
| "fine_ok B R heap (Gone j) = True"

lemma had_schedule_mono: "had_schedule R name lb \<Longrightarrow> (\<And>v. R v \<Longrightarrow> R' v) \<Longrightarrow> had_schedule R' name lb"
  unfolding had_schedule_def by blast

lemma scan_ok_mono:
  assumes "scan_ok R name tried x" "\<And>v. R v \<Longrightarrow> R' v"
  shows "scan_ok R' name tried x"
proof -
  from assms(1) obtain lb hs where ok: "had_schedule R name lb" "lb_upstreams lb \<noteq> []"
    "\<forall>g\<in>set hs. \<exists>v. R v \<and> g = is_healthy (w_health v)"
    "\<forall>h. (\<forall>k<length hs. h k = hs ! k) \<longrightarrow> fst (next_healthy_live lb h tried) = Some (scan_rest h (length hs) tried x)"
    unfolding scan_ok_def by blast
  then have "had_schedule R' name lb" "\<forall>g\<in>set hs. \<exists>v. R' v \<and> g = is_healthy (w_health v)"
    using had_schedule_mono assms(2) by blast+
  with ok(2,4) show ?thesis unfolding scan_ok_def by blast
qed

text \<open>More states, and a heap on which only counters have changed, keep a request as it should be.\<close>

definition same_schedules :: "load_balancer list \<Rightarrow> load_balancer list \<Rightarrow> bool" where
  "same_schedules heap heap' \<longleftrightarrow> length heap \<le> length heap'
     \<and> (\<forall>a<length heap. lb_upstreams (heap' ! a) = lb_upstreams (heap ! a))"

lemma fine_ok_mono:
  assumes "fine_ok B R heap t" "\<And>v. R v \<Longrightarrow> R' v" "same_schedules heap heap'"
  shows "fine_ok B R' heap' t"
proof -
  have S: "pieced R v \<Longrightarrow> pieced R' v" for v using pieced_mono [of R v R'] assms(2) by blast
  show ?thesis
  proof (cases t)
    case (Plain t0)
    with assms(1) task_ok_mono [of B R "pieced R" t0 R' "pieced R'"] assms(2) S show ?thesis by simp
  next
    case (Picking j plan n s a)
    with assms(1) task_ok_mono [of B R "pieced R" "Choosing j plan (Suc n) s" R' "pieced R'"] assms(2,3) S
      had_schedule_mono [of R "pl_name plan" "heap ! a" R']
    show ?thesis by (auto simp: same_schedules_def had_schedule_def)
  next
    case (Scanning j plan n s x)
    with assms(1) task_ok_mono [of B R "pieced R" "Choosing j plan (Suc n) s" R' "pieced R'"] assms(2) S
      scan_ok_mono [of R "pl_name plan" "ls_tried s" x R'] show ?thesis by simp
  qed simp_all
qed

section \<open>One poll of a request\<close>

lemma choose_step_send:
  "select_upstream w (pl_name plan) (ls_tried s) = (Some addr, w') \<Longrightarrow>
    fst (choose_step B j plan n s w) = send_step B j plan n s addr"
  by (simp add: choose_step_def send_step_def Let_def split: option.splits prod.splits)

lemma choose_step_none:
  "select_upstream w (pl_name plan) (ls_tried s) = (None, w') \<Longrightarrow>
    fst (choose_step B j plan n s w) =
      task_end j plan (Some (error_response (bd_http B) 502 ''Bad Gateway: no upstreams available'')) s"
  by (simp add: choose_step_def Let_def)

text \<open>A choice made in a state pieced together from \<open>R\<close>.\<close>

lemma task_ok_choice:
  assumes "task_ok B R (pieced R) (Choosing j plan (Suc n) s)" "pieced R w"
  shows "task_ok B R (pieced R) (fst (choose_step B j plan n s w))"
  using task_ok_run [of "Choosing j plan (Suc n) s" R w "pieced R" B] assms by simp

text \<open>Routing: the request starts in the state in which it has both its route and its plugin.\<close>

lemma filter_step_ok:
  assumes "match_route B j c = Some r" "R (world_of c)" "S (world_of c)"
  shows "task_ok B R S (filter_step B j (plan_of_route (bd_features B) (ce_plugins c) r) c)"
proof -
  let ?plan = "plan_of_route (bd_features B) (ce_plugins c) r" and ?w = "world_of c"
  have plan: "plan_route (bd_http B) (bd_features B) (inc_requests ?w) (jb_parts j) = Some ?plan"
    using assms(1) by (simp add: match_route_def plan_route_def inc_requests_def Let_def)
  have "remaining B ws (filter_step B j ?plan c) = remaining B ws (fst (arrive_step B j ?w))" for ws
  proof (cases "plugin_gate (bd_http B) (bd_wasm B) ?plan (jb_parts j)")
    case None
    have "rest B ws j ?plan n (loop_start (jb_body j) ?w) = rest B ws j ?plan n (loop_start (jb_body j) (inc_requests ?w))" for n
      using rest_local [of B ws j ?plan n "inc_requests ?w" "loop_start (jb_body j) ?w"] by (simp add: loop_start_def)
    with None plan show ?thesis by (simp add: filter_step_def arrive_step_def remaining_def Let_def)
  qed (simp add: filter_step_def arrive_step_def plan remaining_def report_of_def answer_now_def Let_def)
  then have rem: "remaining B ws (filter_step B j ?plan c) = Some (handled B ws j ?w)" for ws
    by (simp add: remaining_arrive)
  have "task_job (filter_step B j ?plan c) = j" by (simp add: filter_step_def split: option.splits)
  with rem assms(2,3) show ?thesis unfolding task_ok_def
    by (intro disjI2 exI [of _ ?w] exI [of _ "\<lambda>_. ?w"]) simp
qed

text \<open>The balancer a request has cloned, put in the place it had, and a health: the state in which
  its selection is one step.\<close>

definition splice :: "'md world \<Rightarrow> string \<Rightarrow> load_balancer \<Rightarrow> (string \<Rightarrow> bool) \<Rightarrow> 'md world" where
  "splice v name lb health =
     v\<lparr>w_lbs := (w_lbs v)(name \<mapsto> lb), w_health := (\<lambda>x. Some (health x))\<rparr>"

lemma splice_select:
  "select_upstream (splice v name lb health) name tried =
     (case lb_pick lb health tried of (addr, lb') \<Rightarrow> (addr, (splice v name lb health)\<lparr>w_lbs := (w_lbs v)(name \<mapsto> lb')\<rparr>))"
proof -
  have "is_healthy (\<lambda>x. Some (health x)) = health" by (simp add: is_healthy_def fun_eq_iff)
  then show ?thesis by (simp add: select_upstream_def splice_def split: prod.splits)
qed

lemma splice_pieced:
  assumes "R v" "schedules (w_lbs v) name = Some (lb_upstreams lb)"
    and "\<And>x. \<exists>v'. R v' \<and> health x = is_healthy (w_health v') x"
  shows "pieced R (splice v name lb health)"
proof -
  have "schedules ((w_lbs v)(name \<mapsto> lb)) = schedules (w_lbs v)"
    using assms(2) by (auto simp: schedules_def fun_eq_iff)
  moreover have "is_healthy (\<lambda>x. Some (health x)) x = health x" for x by (simp add: is_healthy_def)
  ultimately show ?thesis
    using assms(1,3) unfolding pieced_def splice_def by (intro exI [of _ v]) simp
qed

lemma had_schedule_cache:
  assumes "R (world_of c)" "ce_lbs c name = Some a"
  shows "had_schedule R name (ce_heap c ! a)"
  using assms unfolding had_schedule_def
  by (intro exI [of _ "world_of c"]) (simp add: schedules_def)

lemma empty_pick_ok:
  assumes "task_ok B R (pieced R) (Choosing j plan (Suc n) s)" "had_schedule R (pl_name plan) lb" "lb_upstreams lb = []"
    and "R w"
  shows "task_ok B R (pieced R)
    (task_end j plan (Some (error_response (bd_http B) 502 ''Bad Gateway: no upstreams available'')) s)"
proof -
  obtain v where v: "R v" "schedules (w_lbs v) (pl_name plan) = Some (lb_upstreams lb)"
    using assms(2) by (auto simp: had_schedule_def)
  let ?w = "splice v (pl_name plan) lb (is_healthy (w_health w))"
  have "pieced R ?w" by (rule splice_pieced [where R = R, OF v]) (use assms(4) in blast)
  moreover obtain w' where "select_upstream ?w (pl_name plan) (ls_tried s) = (None, w')"
    using assms(3) by (simp add: splice_select lb_pick_def next_healthy_def)
  ultimately show ?thesis using task_ok_choice [OF assms(1)] choose_step_none by metis
qed

lemma scan_ok_start:
  assumes "had_schedule R name lb" "lb_upstreams lb \<noteq> []"
  shows "scan_ok R name tried (scan_start lb)"
  unfolding scan_ok_def using assms scan_rest_start
  by (intro exI [of _ lb] exI [of _ "[]"]) simp

text \<open>Each lookup adds a state of health to those that the selection has seen.\<close>

lemma scan_ok_on:
  assumes "scan_ok R name tried x" "R w" "scan_look (is_healthy (w_health w)) tried x = Inl x'"
  shows "scan_ok R name tried x'"
proof -
  let ?g = "is_healthy (w_health w)"
  from assms(1) obtain lb hs where lb: "had_schedule R name lb" "lb_upstreams lb \<noteq> []"
    and hs: "\<forall>g\<in>set hs. \<exists>v. R v \<and> g = is_healthy (w_health v)"
    and eq: "\<And>h. \<forall>k<length hs. h k = hs ! k \<Longrightarrow> fst (next_healthy_live lb h tried) = Some (scan_rest h (length hs) tried x)"
    unfolding scan_ok_def by blast
  define hs' where "hs' = (if unskipped tried x = [] then hs else hs @ [?g])"
  have "fst (next_healthy_live lb h tried) = Some (scan_rest h (length hs') tried x')"
    if h: "\<forall>k<length hs'. h k = hs' ! k" for h
  proof -
    have old: "\<forall>k<length hs. h k = hs ! k"
      using h by (auto simp: hs'_def nth_append less_Suc_eq split: if_splits)
    have "scan_look (h (length hs)) tried x = Inl x'"
    proof (cases "unskipped tried x = []")
      case True
      then show ?thesis using scan_look_blind [OF True, of ?g "h (length hs)"] assms(3) by simp
    next
      case False
      with h have "h (length hs) = ?g" by (auto simp: hs'_def nth_append)
      with assms(3) show ?thesis by simp
    qed
    from scan_look_on [of h "length hs", OF this] eq [OF old] show ?thesis by (auto simp: hs'_def)
  qed
  moreover have "\<forall>g\<in>set hs'. \<exists>v. R v \<and> g = is_healthy (w_health v)"
    using hs assms(2) by (auto simp: hs'_def)
  ultimately show ?thesis unfolding scan_ok_def using lb by blast
qed

text \<open>What is found is what one selection finds in a state pieced together.\<close>

lemma scan_ok_found:
  assumes "scan_ok R name tried x" "R w" "scan_look (is_healthy (w_health w)) tried x = Inr u"
  obtains v lb' where "pieced R v" "select_upstream v name tried = (Some (up_addr u), lb')"
proof -
  let ?g = "is_healthy (w_health w)"
  from assms(1) obtain lb hs where lb: "had_schedule R name lb" "lb_upstreams lb \<noteq> []"
    and hs: "\<forall>g\<in>set hs. \<exists>v. R v \<and> g = is_healthy (w_health v)"
    and eq: "\<And>h. \<forall>k<length hs. h k = hs ! k \<Longrightarrow> fst (next_healthy_live lb h tried) = Some (scan_rest h (length hs) tried x)"
    unfolding scan_ok_def by blast
  define h where "h k = (if k < length hs then hs ! k else ?g)" for k
  have seen: "\<exists>v'. R v' \<and> h k = is_healthy (w_health v')" for k
    using hs assms(2) by (auto simp: h_def)
  have "scan_look (h (length hs)) tried x = Inr u" using assms(3) by (simp add: h_def)
  from scan_look_found [of h "length hs", OF this] eq [of h] have "fst (next_healthy_live lb h tried) = Some u"
    by (simp add: h_def)
  then have "fst (lb_pick lb (witnessed h (up_addr u)) tried) = Some (up_addr u)" by (rule live_pick)
  then obtain lb' where pick: "lb_pick lb (witnessed h (up_addr u)) tried = (Some (up_addr u), lb')"
    by (metis prod.collapse)
  obtain v where v: "R v" "schedules (w_lbs v) name = Some (lb_upstreams lb)"
    using lb(1) by (auto simp: had_schedule_def)
  have "\<exists>v'. R v' \<and> witnessed h (up_addr u) a = is_healthy (w_health v') a" for a
    using seen unfolding witnessed_def by metis
  let ?w = "splice v name lb (witnessed h (up_addr u))"
  have "pieced R ?w" by (rule splice_pieced [where R = R, OF v]) fact
  moreover have "\<exists>w'. select_upstream ?w name tried = (Some (up_addr u), w')"
    unfolding splice_select pick by simp
  ultimately show thesis using that by blast
qed

lemma fine_ok_run:
  assumes "fine_run B K i t c l = (t', c', l')" "fine_ok B R (ce_heap c) t" "R (world_of c)"
    and "\<And>j r. t = Guarded j r \<Longrightarrow> match_route B j c = Some r"
    and "\<And>n a. cloned t = Some (n, a) \<Longrightarrow> a < length (ce_heap c)"
    and "\<And>n a. ce_lbs c n = Some a \<Longrightarrow> a < length (ce_heap c)"
  shows "fine_ok B R (ce_heap c') t'"
  using assms
proof (cases "(B, K, i, t, c, l)" rule: fine_run.cases)
  case (1 B' K' i' j c0 l0)
  with assms show ?thesis by auto
next
  case (2 B' K' i' j c0 l0)
  have "fine_ok B R (ce_heap c) (match_step B j c)"
  proof (cases "match_route B j c")
    case None
    have "fst (arrive_step B j (world_of c)) = Ended j (report_of
        (answer_now (error_response (bd_http B) 404 ''Not Found: no route matched'') (world_of c)))"
      using None by (simp add: arrive_step_def plan_route_def match_route_def inc_requests_def report_of_def answer_now_def Let_def)
    moreover have "task_ok B R (pieced R) (fst (arrive_step B j (world_of c)))"
      using task_ok_run [of "Arrived j" R "world_of c" "pieced R" B] assms(3) pieced_self [of R, OF assms(3)]
      by (simp add: task_ok_def)
    ultimately show ?thesis using None by (simp add: match_step_def)
  next
    case (Some r)
    show ?thesis
    proof (cases "feat_plugins (bd_features B) \<and> rc_plugin r \<noteq> None")
      case False
      then have "plan_of_route (bd_features B) Map.empty r = plan_of_route (bd_features B) (ce_plugins c) r"
        by (auto simp: plan_of_route_def split: option.splits)
      with Some False filter_step_ok [OF Some, of R "pieced R"] assms(3) pieced_self [of R, OF assms(3)]
      show ?thesis by (simp add: match_step_def Let_def)
    qed (simp add: match_step_def Some Let_def)
  qed
  with 2 assms show ?thesis by (auto simp: Let_def split: option.splits)
next
  case (3 B' K' i' j r c0 l0)
  with assms filter_step_ok [of B j c r R "pieced R"] pieced_self [of R, OF assms(3)] show ?thesis by auto
next
  case (4 B' K' i' j plan s c0 l0)
  with assms task_ok_run [of "Choosing j plan 0 s" R "world_of c" "pieced R" B] pieced_self [of R, OF assms(3)]
  show ?thesis by auto
next
  case (5 B' K' i' j plan n s c0 l0)
  with assms(2) have choosing: "task_ok B R (pieced R) (Choosing j plan (Suc n) s)" by auto
  show ?thesis
  proof (cases "ce_lbs c (pl_name plan)")
    case None
    then have "select_upstream (world_of c) (pl_name plan) (ls_tried s) = (None, world_of c)"
      by (simp add: select_upstream_def)
    from task_ok_choice [OF choosing pieced_self [of R, OF assms(3)]] choose_step_none [OF this, of B j n] 5 assms(1) None
    show ?thesis by (auto simp: fetch_step_def)
  next
    case (Some a)
    with had_schedule_cache [of R, OF assms(3) Some] 5 assms(1,6) choosing show ?thesis by (auto simp: fetch_step_def)
  qed
next
  case (6 B' K' i' j plan n s a c0 l0)
  with assms(2) have ok: "task_ok B R (pieced R) (Choosing j plan (Suc n) s)" "had_schedule R (pl_name plan) (ce_heap c ! a)"
    by auto
  show ?thesis
  proof (cases "lb_upstreams (ce_heap c ! a) = []")
    case True
    with empty_pick_ok [of B R, OF ok True assms(3)] 6 assms(1) show ?thesis by (auto simp: pick_step_def)
  next
    case False
    with scan_ok_start [OF ok(2) False] 6 assms(1) ok(1) show ?thesis by (auto simp: pick_step_def Let_def)
  qed
next
  case (7 B' K' i' j plan n s x c0 l0)
  with assms(2) have ok: "task_ok B R (pieced R) (Choosing j plan (Suc n) s)" "scan_ok R (pl_name plan) (ls_tried s) x"
    by auto
  show ?thesis
  proof (cases "scan_look (is_healthy (ce_health c)) (ls_tried s) x")
    case (Inl x')
    with scan_ok_on [of R _ _ _ "world_of c", OF ok(2) assms(3)] 7 assms(1) ok(1) show ?thesis
      by (auto simp: look_step_def)
  next
    case (Inr u)
    then have "scan_look (is_healthy (w_health (world_of c))) (ls_tried s) x = Inr u" by simp
    then obtain v v' where v: "pieced R v" "select_upstream v (pl_name plan) (ls_tried s) = (Some (up_addr u), v')"
      by (rule scan_ok_found [of R _ _ _ "world_of c", OF ok(2) assms(3)])
    from task_ok_choice [OF ok(1) v(1)] choose_step_send [OF v(2), of B j n] Inr 7 assms(1) show ?thesis
      by (auto simp: look_step_def)
  qed
next
  case (8 B' K' i' j plan n s addr req d result c0 l0)
  with assms task_ok_run [of "Awaiting j plan n s addr req d result" R "world_of c" "pieced R" B] pieced_self [of R, OF assms(3)]
  show ?thesis by (auto split: prod.splits)
qed auto

section \<open>One step of the system\<close>

fun fine_job :: "('m, 'md) fine_task \<Rightarrow> 'm job" where
  "fine_job (Plain t) = task_job t"
| "fine_job (Waits j) = j"
| "fine_job (Guarded j r) = j"
| "fine_job (Picking j plan n s a) = j"
| "fine_job (Scanning j plan n s x) = j"
| "fine_job (Gone j) = j"

lemma filter_step_job: "task_job (filter_step B j plan c) = j"
  by (simp add: filter_step_def split: option.splits)

lemma fine_run_job:
  assumes "fine_run B K i t c l = (t', c', l')"
  shows "fine_job t' = fine_job t"
proof (cases "(B, K, i, t, c, l)" rule: fine_run.cases)
  case (2 B' K' i' j c0 l0)
  have "fine_job (match_step B j c) = j"
    by (simp add: match_step_def filter_step_job Let_def split: option.splits)
  with 2 assms show ?thesis by (auto simp: Let_def split: option.splits)
next
  case (5 B' K' i' j plan n s c0 l0)
  with assms show ?thesis by (auto simp: fetch_step_def task_end_def split: option.splits)
next
  case (6 B' K' i' j plan n s a c0 l0)
  with assms show ?thesis by (auto simp: pick_step_def task_end_def Let_def split: if_splits)
next
  case (7 B' K' i' j plan n s x c0 l0)
  have "task_job (send_step B j plan n s addr) = j" for addr
    by (simp add: send_step_def task_end_def Let_def split: option.splits prod.splits)
  with 7 assms show ?thesis by (auto simp: look_step_def split: sum.splits)
next
  case (8 B' K' i' j plan n s addr req d result c0 l0)
  then show ?thesis
    using assms task_job_run [of B "Awaiting j plan n s addr req d result" "world_of c"]
    by (auto split: prod.splits)
qed (use assms in \<open>auto simp: filter_step_job task_end_def\<close>)

lemma fine_drop_ok:
  assumes "fine_drop K i t l = (t', l')"
  shows "fine_job t' = fine_job t \<and> (fine_ok B R heap t \<longrightarrow> fine_ok B R heap t')"
  using assms by (cases "(K, i, t, l)" rule: fine_drop.cases) auto

lemma same_schedules_refl: "same_schedules heap heap"
  by (simp add: same_schedules_def)

lemma same_schedules_grow: "same_schedules heap (heap @ added)"
  by (simp add: same_schedules_def nth_append)

lemma fine_run_schedules:
  assumes "fine_run B K i t c l = (t', c', l')"
  shows "same_schedules (ce_heap c) (ce_heap c')"
proof (cases "(B, K, i, t, c, l)" rule: fine_run.cases)
  case (6 B' K' i' j plan n s a c0 l0)
  with assms show ?thesis
    by (cases "a < length (ce_heap c)")
      (auto simp: pick_step_def same_schedules_def nth_list_update Let_def split: if_splits)
qed (use assms in \<open>auto simp: count_request_def same_schedules_refl Let_def split: prod.splits option.splits\<close>)

lemma fine_sighup_schedules: "same_schedules (ce_heap (fn_cells y)) (ce_heap (fn_cells (fine_sighup B fs y)))"
proof (cases "prepare_reload B fs")
  case (Inr new)
  obtain lbs heap where a: "alloc_lbs (ce_heap (fn_cells y)) Map.empty (cfg_route (pr_config new)) = (lbs, heap)"
    by fastforce
  with alloc_lbs_new(1) [OF a] Inr show ?thesis by (auto simp: fine_sighup_def same_schedules_grow)
qed (simp add: fine_sighup_def same_schedules_refl)

lemma reload_poll_frame:
  "fn_tasks (reload_poll B K y) = fn_tasks y" "ce_heap (fn_cells (reload_poll B K y)) = ce_heap (fn_cells y)"
  by (cases "fn_stage y"; simp add: reload_poll_def Let_def split: option.splits)+

lemma fine_sighup_tasks: "fn_tasks (fine_sighup B fs y) = fn_tasks y"
  by (simp add: fine_sighup_def Let_def split: sum.splits prod.splits)

lemma fine_ok_step:
  assumes "fine_step B K y y'" "arcs_inv B y" "guard_inv B y" "i < length (fn_tasks y)" "R (fine_world y)"
    and "fine_ok B R (ce_heap (fn_cells y)) (fn_tasks y ! i)"
  shows "i < length (fn_tasks y') \<and> fine_job (fn_tasks y' ! i) = fine_job (fn_tasks y ! i)
    \<and> fine_ok B R (ce_heap (fn_cells y')) (fn_tasks y' ! i)"
  using assms
proof (induction rule: fine_step.induct)
  case (hup y fs)
  with fine_ok_mono [of B R _ _ R, OF hup(6) _ fine_sighup_schedules [of y B fs]] show ?case
    by (simp add: fine_sighup_tasks)
next
  case (reload y)
  then show ?case by (simp add: reload_poll_frame)
next
  case (spawn y j)
  then show ?case by (simp add: nth_append)
next
  case (poll k y)
  obtain t c l where r: "fine_run B K k (fn_tasks y ! k) (fn_cells y) (fn_lock y) = (t, c, l)"
    by (metis prod_cases3)
  have heap: "cloned (fn_tasks y ! k) = Some (n, a) \<Longrightarrow> a < length (ce_heap (fn_cells y))"
    "ce_lbs (fn_cells y) n = Some a \<Longrightarrow> a < length (ce_heap (fn_cells y))" for n a
  proof -
    assume "cloned (fn_tasks y ! k) = Some (n, a)"
    then have "Some (n, a) \<in> set (map cloned (fn_tasks y))" using poll(1) by (metis length_map nth_map nth_mem)
    with poll(2) show "a < length (ce_heap (fn_cells y))" by (simp add: arcs_inv_def arcs_ok_def)
  qed (rule arcs_inv_lbs [OF poll(2)])
  show ?case
  proof (cases "k = i")
    case True
    have "match_route B j (fn_cells y) = Some r" if "fn_tasks y ! k = Guarded j r" for j r
      using that poll(1,3) by (simp add: guard_inv_def)
    from fine_ok_run [where R = R, OF r _ poll(5) this heap] poll(1,6) True fine_run_job [OF r] r show ?thesis
      by (simp add: task_poll_def)
  next
    case False
    with fine_ok_mono [of B R _ _ R, OF poll(6) _ fine_run_schedules [OF r]] poll(4) r show ?thesis
      by (simp add: task_poll_def)
  qed
next
  case (drop k y)
  obtain t l where d: "fine_drop K k (fn_tasks y ! k) (fn_lock y) = (t, l)" by fastforce
  with fine_drop_ok [OF d, of B R "ce_heap (fn_cells y)"] drop show ?case
    by (cases "k = i") (simp_all add: task_drop_def)
qed simp

section \<open>Runs\<close>

text \<open>The states of the process from the \<open>m\<close>-th to the \<open>n\<close>-th step of a run.\<close>

definition during :: "(nat \<Rightarrow> ('m, 'md, 'l) fine) \<Rightarrow> nat \<Rightarrow> nat \<Rightarrow> 'md world \<Rightarrow> bool" where
  "during \<sigma> m n w \<longleftrightarrow> (\<exists>k\<in>{m..n}. w = fine_world (\<sigma> k))"

definition fine_inv ::
  "('m, 'md, 'st) build \<Rightarrow> ('l \<Rightarrow> waiter list) \<Rightarrow> ('l \<Rightarrow> waiter set) \<Rightarrow> ('m, 'md, 'l) fine \<Rightarrow> bool" where
  "fine_inv B waiting holding y \<longleftrightarrow> arcs_inv B y \<and> lock_inv waiting holding y \<and> guard_inv B y"

context fair_lock
begin

lemma fine_inv_start: "fine_inv B waiting holding (fine_start B K read c m)"
  by (simp add: fine_inv_def arcs_inv_start lock_inv_start guard_inv_start)

lemma fine_inv_step: "fine_inv B waiting holding y \<Longrightarrow> fine_step B K y y' \<Longrightarrow> fine_inv B waiting holding y'"
  using arcs_inv_step lock_inv_step guard_inv_step unfolding fine_inv_def by blast

lemma fine_inv_run:
  assumes "fine_inv B waiting holding (\<sigma> 0)" "\<And>k. k < n \<Longrightarrow> fine_step B K (\<sigma> k) (\<sigma> (Suc k))"
  shows "fine_inv B waiting holding (\<sigma> n)"
  using assms by (induction n) (auto intro: fine_inv_step)

text \<open>What a request that has arrived by the \<open>m\<close>-th step has done by the \<open>n\<close>-th.\<close>

lemma request_served:
  assumes "fine_inv B waiting holding (\<sigma> 0)" "\<And>k. k < n \<Longrightarrow> fine_step B K (\<sigma> k) (\<sigma> (Suc k))"
    and "i < length (fn_tasks (\<sigma> m))" "fn_tasks (\<sigma> m) ! i = Plain (Arrived j)" "m \<le> n"
  shows "i < length (fn_tasks (\<sigma> n)) \<and> fine_job (fn_tasks (\<sigma> n) ! i) = j
    \<and> fine_ok B (during \<sigma> m n) (ce_heap (fn_cells (\<sigma> n))) (fn_tasks (\<sigma> n) ! i)"
  using assms(5,2)
proof (induction n rule: dec_induct)
  case base
  with assms(3,4) show ?case by (simp add: task_ok_def)
next
  case (step n)
  have inv: "arcs_inv B (\<sigma> n)" "guard_inv B (\<sigma> n)"
    using fine_inv_run [where \<sigma> = \<sigma>, OF assms(1), of n] step(4) by (simp_all add: fine_inv_def)
  have here: "during \<sigma> m n (fine_world (\<sigma> n))" using step(1) by (auto simp: during_def)
  have more: "during \<sigma> m n w \<Longrightarrow> during \<sigma> m (Suc n) w" for w by (auto simp: during_def)
  have "fine_step B K (\<sigma> n) (\<sigma> (Suc n))" using step(4) by simp
  from fine_ok_step [where R = "during \<sigma> m n", OF this inv _ here] step(3,4)
    fine_ok_mono [of B "during \<sigma> m n" _ _ "during \<sigma> m (Suc n)", OF _ more same_schedules_refl]
  show ?case by auto
qed

end

section \<open>A concrete run\<close>

text \<open>A request to \<open>pair_config\<close> that has cloned its balancer when a reload to one upstream begins;
  from then on the reload task and the request are polled in turn.  The lock is the first-in,
  first-out one; every first connection is refused.\<close>

definition demo_next :: "(assoc_headers, unit, unit) build" where
  "demo_next = demo_build (plain_config [plain_route ''r'' [''c:1'']])"

definition demo_act :: "nat \<Rightarrow> (assoc_headers, unit, fifo) fine \<Rightarrow> (assoc_headers, unit, fifo) fine" where
  "demo_act k y =
     (if k = 0 then y\<lparr>fn_tasks := fn_tasks y @ [Plain (Arrived demo_job)]\<rparr>
      else if k < 4 \<or> k \<noteq> 4 \<and> even k then task_poll demo_next fifo_api 0 y
      else if k = 4 then fine_sighup demo_next demo_files y
      else reload_poll demo_next fifo_api y)"

primrec fine_demo :: "nat \<Rightarrow> (assoc_headers, unit, fifo) fine" where
  "fine_demo 0 = fine_start demo_next fifo_api (\<lambda>_. Some '''') pair_config no_metrics"
| "fine_demo (Suc k) = demo_act k (fine_demo k)"

lemma length_task_poll: "length (fn_tasks (task_poll B K i y)) = length (fn_tasks y)"
  by (simp add: task_poll_def split: prod.splits)

lemma fine_demo_start: "fn_tasks (fine_demo (Suc 0)) = [Plain (Arrived demo_job)]"
  by (simp add: fine_start_def demo_act_def Let_def split: prod.splits)

lemma demo_act_length: "k \<noteq> 0 \<Longrightarrow> length (fn_tasks (demo_act k y)) = length (fn_tasks y)"
  by (simp add: demo_act_def length_task_poll fine_sighup_tasks reload_poll_frame)

lemma fine_demo_length: "k \<noteq> 0 \<Longrightarrow> length (fn_tasks (fine_demo k)) = 1"
proof (induction k)
  case (Suc k)
  then show ?case
  proof (cases k)
    case 0
    then show ?thesis using fine_demo_start by simp
  qed (simp add: demo_act_length)
qed simp

lemma fine_demo_idle: "fn_stage (fine_demo 4) = Idle"
proof -
  have "case fn_stage (fine_demo 4) of Idle \<Rightarrow> True | _ \<Rightarrow> False" by code_simp
  then show ?thesis by (cases "fn_stage (fine_demo 4)") simp_all
qed

lemma fine_demo_step: "fine_step demo_next fifo_api (fine_demo k) (fine_demo (Suc k))"
proof (cases "k = 0 \<or> k = 4")
  case True
  then show ?thesis using fine_step.spawn fine_step.hup [OF fine_demo_idle]
    by (auto simp: demo_act_def)
next
  case False
  with fine_demo_length [of k] have "fine_step demo_next fifo_api (fine_demo k) (task_poll demo_next fifo_api 0 (fine_demo k))"
    by (intro fine_step.poll) simp
  with False show ?thesis using fine_step.reload by (auto simp: demo_act_def)
qed

fun report_in :: "('m, 'md) fine_task \<Rightarrow> 'm report option" where
  "report_in (Plain (Ended j r)) = Some r"
| "report_in t = None"

lemma report_in_Some: "report_in t = Some r \<longleftrightarrow> (\<exists>j. t = Plain (Ended j r))"
  by (cases t rule: report_in.cases) auto

text \<open>Its first attempt goes to an upstream of the configuration it was routed by, its second one
  to that of the new configuration.\<close>

lemma fine_demo_report:
  "case report_in (fn_tasks (fine_demo 19) ! 0) of
     Some r \<Rightarrow> map_option rs_status (rp_reply r) = Some 200 \<and> map at_addr (rp_attempts r) = [''a:1'', ''c:1'']
   | None \<Rightarrow> False"
  by code_simp

section \<open>Attempts and configurations\<close>

lemma pieced_fits:
  assumes "\<And>v. R v \<Longrightarrow> \<exists>c. P c \<and> lbs_fit v c" "pieced R w"
  shows "\<exists>c. P c \<and> lbs_fit w c"
  using assms unfolding pieced_def lbs_fit_def by metis

lemma during_visited:
  assumes "\<sigma> 0 = fine_start B K read c m0" "\<And>k. k < n \<Longrightarrow> fine_step B K (\<sigma> k) (\<sigma> (Suc k))"
    and "during \<sigma> m n w"
  shows "visited B (process_start B read c m0) w"
proof -
  from assms(3) obtain k where k: "k \<le> n" "w = fine_world (\<sigma> k)" by (auto simp: during_def)
  have "(fine_step B K)\<^sup>*\<^sup>* (\<sigma> 0) (\<sigma> k)" if "k \<le> n" for k
    using that assms(2) by (induction k) (auto intro: rtranclp.rtrancl_into_rtrancl)
  from fine.abs_reachable [OF assms(1) this [OF k(1)]]
  have "reachable B (process_start B read c m0) (fine_process (\<sigma> k))" by metis
  with k(2) show ?thesis by (auto simp: visited_def fine_process_def intro!: exI [of _ "fine_process (\<sigma> k)"])
qed

text \<open>A request whose attempt clones a balancer and sends to it much later still reaches only
  upstreams that an accepted configuration lists, and is answered.\<close>

lemma fine_attempts_stay_configured:
  assumes "fair_lock K waiting holding" "accepts (bd_http B) (bd_features B) c"
    and "\<sigma> 0 = fine_start B K read c m0" "\<And>k. k < n \<Longrightarrow> fine_step B K (\<sigma> k) (\<sigma> (Suc k))"
    and "m \<le> n" "i < length (fn_tasks (\<sigma> m))" "fn_tasks (\<sigma> m) ! i = Plain (Arrived j)"
    and "fn_tasks (\<sigma> n) ! i = Plain (Ended j' r)"
  shows "(\<forall>a\<in>set (rp_attempts r). \<exists>c route u. accepts (bd_http B) (bd_features B) c
        \<and> route \<in> set (cfg_route c) \<and> u \<in> set (rc_upstream route) \<and> at_addr a = uc_addr u
        \<and> (\<exists>host port. upstream_host_port (at_addr a) = Inr (host, port)))
    \<and> (fingerprint_ok (bd_http B) (jb_conn j) \<longrightarrow> rp_reply r \<noteq> None)"
proof -
  let ?R = "during \<sigma> m n"
  have "fine_inv B waiting holding (\<sigma> 0)"
    unfolding assms(3) by (rule fair_lock.fine_inv_start [OF assms(1)])
  from fair_lock.request_served [where \<sigma> = \<sigma>, OF assms(1) this assms(4,6,7,5)] assms(8)
  have "task_ok B ?R (pieced ?R) (Ended j' r)" "j' = j" by auto
  then obtain w0 ws where ws: "\<And>k. pieced ?R (ws k)" and r: "r = handled B ws j w0"
    by (metis task_ok_ended)
  have start: "process_started B (process_start B read c m0)" using assms(2) by (auto simp: process_started_def)
  have "\<exists>c. accepts (bd_http B) (bd_features B) c \<and> lbs_fit v c" if "?R v" for v
    using visited_fits [OF start during_visited [where \<sigma> = \<sigma>, OF assms(3,4) that]] by metis
  then have "\<exists>c. accepts (bd_http B) (bd_features B) c \<and> lbs_fit (ws k) c" for k
    using pieced_fits [where R = ?R, OF _ ws] by blast
  then show ?thesis by (rule handled_configured) (rule r)
qed

section \<open>Properties\<close>

text \<open>C1 What requests do concurrently is what \<open>handle\<close> does, down to single lock operations,
  counter increments and health lookups: whatever requests, reloads, probes and disconnecting
  clients do in between, the reply, the attempts, the mirror request and the time of a finished
  request are those of one run of \<open>handle\<close>.  It is routed in a state that the process was in
  while the request was under way, with the configuration and the plugins of that one moment,
  and each of its attempts selects an upstream from a schedule, and by a health of each
  upstream, of such states.\<close>

theorem concurrent_request_is_handled:
  assumes "fair_lock K waiting holding"
    and "\<sigma> 0 = fine_start B K read c m0" "\<forall>k<n. fine_step B K (\<sigma> k) (\<sigma> (Suc k))"
    and "m \<le> n" "i < length (fn_tasks (\<sigma> m))" "fn_tasks (\<sigma> m) ! i = Plain (Arrived j)"
    and "fn_tasks (\<sigma> n) ! i = Plain (Ended j' r)"
  shows "\<exists>w0 ws. during \<sigma> m n w0 \<and> (\<forall>k. pieced (during \<sigma> m n) (ws k))
    \<and> r = report_of (handle (job_env B ws j) (jb_parts j) (jb_body j) (jb_conn j) w0)"
proof -
  have "fine_inv B waiting holding (\<sigma> 0)"
    unfolding assms(2) by (rule fair_lock.fine_inv_start [OF assms(1)])
  from fair_lock.request_served [where \<sigma> = \<sigma>, OF assms(1) this _ assms(5,6,4)] assms(3,7)
  have "task_ok B (during \<sigma> m n) (pieced (during \<sigma> m n)) (Ended j' r)" "j' = j" by auto
  with task_ok_ended [of B "during \<sigma> m n" "pieced (during \<sigma> m n)" j' r] show ?thesis
    unfolding handled_def by metis
qed

theorem concurrent_request_is_handled_witness:
  "\<exists>r w0 ws. report_in (fn_tasks (fine_demo 19) ! 0) = Some r \<and> length (rp_attempts r) = 2
    \<and> r = report_of (handle (job_env (demo_next) ws demo_job) (get_parts []) no_body (peer None) w0)"
proof -
  obtain r where r: "report_in (fn_tasks (fine_demo 19) ! 0) = Some r" "length (rp_attempts r) = 2"
    using fine_demo_report by (auto split: option.splits dest: arg_cong [where f = length])
  then obtain j' where ended: "fn_tasks (fine_demo 19) ! 0 = Plain (Ended j' r)" by (auto simp: report_in_Some)
  have "\<exists>w0 ws. r = report_of (handle (job_env (demo_next) ws demo_job)
      (jb_parts demo_job) (jb_body demo_job) (jb_conn demo_job) w0)"
    using concurrent_request_is_handled [where \<sigma> = fine_demo, OF fifo.fair_lock_axioms fine_demo.simps(1), of 19 1 0 demo_job j' r]
      ended fine_demo_step fine_demo_start by (auto simp del: fine_demo.simps)
  with r show ?thesis by (simp add: demo_job_def del: fine_demo.simps)
qed

end
