(* ===== verification/Fine_Progress.thy ===== *)
theory Fine_Progress
  imports Fine_Requests
begin

text \<open>
  Progress of the fine-grained system: the configuration lock deadlocks nobody.  If every task
  is polled again and again until it has ended, every waiter gets the lock, every request ends
  and every reload completes, whatever else the system does.
\<close>

section \<open>The lock moves\<close>

fun over :: "('m, 'md) fine_task \<Rightarrow> bool" where
  "over (Plain (Ended j r)) = True"
| "over (Gone j) = True"
| "over t = False"

text \<open>A turn of a task: a poll, unless it has nothing left to do.\<close>

fun turn ::
  "('m, 'md, 'st) build \<Rightarrow> 'l lock_api \<Rightarrow> waiter \<Rightarrow> ('m, 'md, 'l) fine \<Rightarrow> ('m, 'md, 'l) fine \<Rightarrow> bool" where
  "turn B K (Reader i) y y' = (i < length (fn_tasks y) \<longrightarrow> over (fn_tasks y ! i) \<or> y' = task_poll B K i y)"
| "turn B K Writer y y' = (fn_stage y = Idle \<or> y' = reload_poll B K y)"

context fair_lock
begin

lemma lock_inv_sane:
  assumes "lock_inv waiting holding y"
  shows "sane (waiting (fn_lock y)) (holding (fn_lock y))"
proof -
  have "w \<in> Reader ` {..<length (fn_tasks y)}" if "w \<in> holding (fn_lock y)" for w
    using assms that by (cases w) (auto simp: lock_inv_def Let_def)
  then have "finite (holding (fn_lock y))" by (meson finite_imageI finite_lessThan finite_subset subsetI)
  moreover have "w \<notin> holding (fn_lock y)" if "w \<in> set (waiting (fn_lock y))" for w
  proof (cases w)
    case (Reader i)
    with assms that have "waits (fn_tasks y ! i)" by (simp add: lock_inv_def Let_def)
    then have "\<not> guarded (fn_tasks y ! i)" by (cases "fn_tasks y ! i") simp_all
    with assms Reader show ?thesis by (simp add: lock_inv_def Let_def)
  qed (use assms in \<open>simp add: lock_inv_def Let_def\<close>)
  ultimately show ?thesis using assms by (auto simp: sane_def lock_inv_def Let_def)
qed

lemma move_act:
  assumes "lock_move K v ph ph' l l'"
    and "ph = InQueue \<longleftrightarrow> v \<in> set (waiting l)" "ph = Inside \<longleftrightarrow> v \<in> holding l"
  shows "lock_act v (waiting l) (holding l) (waiting l') (holding l')"
  using assms
proof cases
  case stay
  then show ?thesis by (simp add: act_none)
next
  case enter_queue
  with assms show ?thesis by (simp add: enqueue act_queue)
next
  case enter
  with poll_Some [OF enter(3)] show ?thesis by (simp add: act_enter)
next
  case (pass l1)
  with poll_Some [OF pass(4)] show ?thesis by (simp add: act_pass release)
next
  case leave
  with assms show ?thesis by (simp add: release act_leave)
next
  case give_up
  with assms show ?thesis by (simp add: cancel act_give_up)
qed

lemma task_act:
  assumes "lock_inv waiting holding y" "i < length (fn_tasks y)"
    and "lock_move K (Reader i) (lock_phase (fn_tasks y ! i)) ph' (fn_lock y) l"
  shows "lock_act (Reader i) (waiting (fn_lock y)) (holding (fn_lock y)) (waiting l) (holding l)"
  using assms by (intro move_act [OF assms(3)]) (simp_all add: lock_inv_def lock_phase_iff Let_def)

lemma reload_act:
  assumes "lock_inv waiting holding y"
  shows "lock_act Writer (waiting (fn_lock y)) (holding (fn_lock y))
    (waiting (fn_lock (reload_poll B K y))) (holding (fn_lock (reload_poll B K y)))"
proof (cases "fn_stage y")
  case (ConfigNext new)
  with assms show ?thesis by (auto simp: reload_poll_def Let_def enqueue lock_inv_def intro: act_queue)
next
  case (ConfigQueued new)
  show ?thesis
  proof (cases "lk_poll K Writer (fn_lock y)")
    case (Some l)
    with ConfigQueued poll_Some [OF Some] show ?thesis by (simp add: reload_poll_def release act_pass)
  qed (use ConfigQueued in \<open>simp add: reload_poll_def act_none\<close>)
qed (simp_all add: reload_poll_def act_none Let_def)

lemma step_act:
  assumes "fine_step B K y y'" "lock_inv waiting holding y"
  shows "\<exists>v. lock_act v (waiting (fn_lock y)) (holding (fn_lock y)) (waiting (fn_lock y')) (holding (fn_lock y'))"
  using assms
proof (induction rule: fine_step.induct)
  case (hup y fs)
  have "fn_lock (fine_sighup B fs y) = fn_lock y"
    by (simp add: fine_sighup_def Let_def split: sum.splits prod.splits)
  then show ?case by (auto intro: act_none)
next
  case (reload y)
  then show ?case using reload_act by blast
next
  case (poll i y)
  obtain t c l where r: "fine_run B K i (fn_tasks y ! i) (fn_cells y) (fn_lock y) = (t, c, l)"
    by (metis prod_cases3)
  with task_act [OF poll(2,1) fine_run_lock [OF r]] show ?case by (auto simp: task_poll_def)
next
  case (drop i y)
  obtain t l where d: "fine_drop K i (fn_tasks y ! i) (fn_lock y) = (t, l)" by fastforce
  with task_act [OF drop(2,1) fine_drop_lock [OF d]] show ?case by (auto simp: task_drop_def)
qed (auto intro: act_none)

text \<open>A helpful task that has its turn moves on.\<close>

lemma turn_moves_on:
  assumes "lock_inv waiting holding y" "turn B K v y y'"
    and "helpful w (waiting (fn_lock y)) (holding (fn_lock y)) v"
  shows "moves_on v (waiting (fn_lock y)) (holding (fn_lock y)) (waiting (fn_lock y')) (holding (fn_lock y'))"
proof (cases v)
  case (Reader i)
  show ?thesis
  proof (cases "v \<in> holding (fn_lock y)")
    case True
    with Reader assms(1) obtain j r where "i < length (fn_tasks y)" "fn_tasks y ! i = Guarded j r"
      by (auto simp: lock_inv_def Let_def elim: guarded.elims)
    with Reader True assms(2) show ?thesis by (simp add: task_poll_def moves_on_def release)
  next
    case False
    with assms(1,3) have g: "grantable v (waiting (fn_lock y)) (holding (fn_lock y))"
      using helpful_grantable lock_inv_sane by blast
    then obtain l where l: "lk_poll K v (fn_lock y) = Some l" using poll_None by blast
    from g Reader assms(1) obtain j where "i < length (fn_tasks y)" "fn_tasks y ! i = Waits j"
      by (auto simp: lock_inv_def grantable_def Let_def elim: waits.elims)
    with Reader assms(2) l poll_Some [OF l] show ?thesis
      by (auto simp: task_poll_def moves_on_def release Let_def)
  qed
next
  case Writer
  with assms(1) have "v \<notin> holding (fn_lock y)" by (simp add: lock_inv_def Let_def)
  with assms(1,3) have g: "grantable v (waiting (fn_lock y)) (holding (fn_lock y))"
    using helpful_grantable lock_inv_sane by blast
  then obtain l where l: "lk_poll K v (fn_lock y) = Some l" using poll_None by blast
  from g Writer assms(1) obtain new where "fn_stage y = ConfigQueued new"
    by (auto simp: lock_inv_def grantable_def Let_def elim: queued.elims)
  with Writer assms(2) l poll_Some [OF l] show ?thesis by (auto simp: reload_poll_def moves_on_def release)
qed

end

section \<open>What is left of a request\<close>

fun scan_left :: "selection \<Rightarrow> nat" where
  "scan_left x = length (sc_left x) + (if sc_first x then length (sc_all x) + 1 else 0)"

text \<open>How far along a request is, in its life, in its loop and in its selection.\<close>

fun fine_rank :: "('m, 'md) fine_task \<Rightarrow> nat \<times> nat \<times> nat" where
  "fine_rank (Plain (Arrived j)) = (3, 0, 0)"
| "fine_rank (Waits j) = (2, 0, 0)"
| "fine_rank (Guarded j r) = (1, 0, 0)"
| "fine_rank (Plain (Choosing j plan n s)) = (0, 4 * n + 1, 0)"
| "fine_rank (Picking j plan n s a) = (0, 4 * n + 4, 0)"
| "fine_rank (Scanning j plan n s x) = (0, 4 * n + 3, scan_left x)"
| "fine_rank (Plain (Awaiting j plan n s addr req d result)) = (0, 4 * n + 2, 0)"
| "fine_rank (Plain (Ended j r)) = (0, 0, 0)"
| "fine_rank (Gone j) = (0, 0, 0)"

abbreviation less_rank :: "((nat \<times> nat \<times> nat) \<times> (nat \<times> nat \<times> nat)) set" where
  "less_rank \<equiv> less_than <*lex*> less_than <*lex*> less_than"

lemma wf_less_rank: "wf less_rank"
  by (intro wf_lex_prod wf_less_than)

lemma dropWhile_length: "length (dropWhile P xs) \<le> length xs"
  by (induction xs) auto

lemma scan_look_left: "scan_look h tried x = Inl x' \<Longrightarrow> scan_left x' < scan_left x"
  using dropWhile_length [of "\<lambda>u. sc_first x \<and> list_ex (\<lambda>e. e = up_addr u) tried" "sc_left x"]
  by (auto simp: scan_look_def split: list.splits if_splits)

lemma filter_step_rank: "fst (fine_rank (Plain (filter_step B j plan c))) = 0"
  by (simp add: filter_step_def split: option.splits)

lemma task_end_rank: "fine_rank (Plain (task_end j plan reply s)) = (0, 0, 0)"
  by (simp add: task_end_def)

lemma send_step_rank: "fine_rank (Plain (send_step B j plan n s addr)) \<in> {(0, 0, 0), (0, 4 * n + 2, 0)}"
  by (simp add: send_step_def task_end_def Let_def split: option.splits prod.splits)

lemma await_step_rank:
  "fine_rank (Plain (fst (await_step B j plan n s addr req d result w))) \<in> {(0, 0, 0), (0, 4 * n + 1, 0)}"
  by (auto simp: await_step_def task_end_def split: prod.splits step.splits)

text \<open>A poll takes a request on, unless it has to wait for the configuration.\<close>

lemma fine_run_rank:
  assumes "fine_run B K i t c l = (t', c', l')" "\<not> over t"
  shows "(fine_rank t', fine_rank t) \<in> less_rank \<or> waits t \<and> t' = t"
proof (cases "(B, K, i, t, c, l)" rule: fine_run.cases)
  case (2 B' K' i' j c0 l0)
  have "fst (fine_rank (match_step B j c)) < 2"
    by (simp add: match_step_def filter_step_rank [of B j] Let_def split: option.splits)
  then have "(fine_rank (match_step B j c), (2, 0, 0)) \<in> less_rank"
    by (cases "fine_rank (match_step B j c)") simp
  with 2 assms show ?thesis by (auto simp: Let_def split: option.splits)
next
  case (3 B' K' i' j r c0 l0)
  with assms filter_step_rank [of B j "plan_of_route (bd_features B) (ce_plugins c) r" c] show ?thesis
    by (cases "fine_rank t'") auto
next
  case (5 B' K' i' j plan n s c0 l0)
  with assms show ?thesis by (auto simp: fetch_step_def task_end_rank split: option.splits)
next
  case (6 B' K' i' j plan n s a c0 l0)
  with assms show ?thesis by (auto simp: pick_step_def task_end_def Let_def split: if_splits)
next
  case (7 B' K' i' j plan n s x c0 l0)
  show ?thesis
  proof (cases "scan_look (is_healthy (ce_health c)) (ls_tried s) x")
    case (Inl x')
    with 7 assms scan_look_left [OF Inl] show ?thesis by (auto simp: look_step_def simp del: scan_left.simps)
  next
    case (Inr u)
    with 7 assms send_step_rank [of B j plan n s "up_addr u"] show ?thesis by (auto simp: look_step_def)
  qed
next
  case (8 B' K' i' j plan n s addr req d result c0 l0)
  with assms await_step_rank [of B j plan n s addr req d result "world_of c"] show ?thesis
    by (auto split: prod.splits)
qed (use assms in \<open>auto simp: task_end_rank\<close>)

lemma fine_drop_rank: "fine_drop K i t l = (t', l') \<Longrightarrow> (fine_rank t', fine_rank t) \<in> less_rank \<or> t' = t"
  by (cases "(K, i, t, l)" rule: fine_drop.cases) auto

text \<open>Every step takes a request on or leaves it as it is; a poll of a request that is neither
  over nor waiting takes it on.\<close>

lemma step_rank:
  assumes "fine_step B K y y'" "i < length (fn_tasks y)"
  shows "i < length (fn_tasks y') \<and>
    ((fine_rank (fn_tasks y' ! i), fine_rank (fn_tasks y ! i)) \<in> less_rank \<or> fn_tasks y' ! i = fn_tasks y ! i)"
  using assms
proof (induction rule: fine_step.induct)
  case (poll k y)
  obtain t c l where r: "fine_run B K k (fn_tasks y ! k) (fn_cells y) (fn_lock y) = (t, c, l)"
    by (metis prod_cases3)
  have "over (fn_tasks y ! k) \<Longrightarrow> t = fn_tasks y ! k"
    using r by (cases "fn_tasks y ! k" rule: over.cases) auto
  with fine_run_rank [OF r] poll r show ?case by (cases "k = i") (auto simp: task_poll_def)
next
  case (drop k y)
  obtain t l where d: "fine_drop K k (fn_tasks y ! k) (fn_lock y) = (t, l)" by fastforce
  with fine_drop_rank [OF d] drop show ?case by (cases "k = i") (auto simp: task_drop_def)
qed (auto simp: fine_sighup_tasks reload_poll_frame nth_append)

lemma turn_rank:
  assumes "turn B K (Reader i) y y'" "i < length (fn_tasks y)" "\<not> over (fn_tasks y ! i)" "\<not> waits (fn_tasks y ! i)"
  shows "(fine_rank (fn_tasks y' ! i), fine_rank (fn_tasks y ! i)) \<in> less_rank"
proof -
  obtain t c l where r: "fine_run B K i (fn_tasks y ! i) (fn_cells y) (fn_lock y) = (t, c, l)"
    by (metis prod_cases3)
  with fine_run_rank [OF r assms(3)] assms show ?thesis by (auto simp: task_poll_def)
qed

section \<open>What is left of a reload\<close>

fun stage_rank :: "'md fine_stage \<Rightarrow> nat" where
  "stage_rank Idle = 0"
| "stage_rank (ProbersNext new) = 1"
| "stage_rank (ConfigQueued new) = 2"
| "stage_rank (ConfigNext new) = 3"
| "stage_rank (PluginsNext new) = 4"
| "stage_rank (LbsNext new) = 5"

lemma reload_poll_rank:
  "stage_rank (fn_stage (reload_poll B K y)) < stage_rank (fn_stage y)
    \<or> fn_stage (reload_poll B K y) = fn_stage y \<and> (fn_stage y = Idle \<or> queued (fn_stage y))"
  by (cases "fn_stage y") (simp_all add: reload_poll_def Let_def split: option.splits)

lemma task_poll_stage: "fn_stage (task_poll B K i y) = fn_stage y" "fn_stage (task_drop K i y) = fn_stage y"
  by (simp_all add: task_poll_def task_drop_def split: prod.splits)

lemma step_stage:
  assumes "fine_step B K y y'" "fn_stage y \<noteq> Idle"
  shows "stage_rank (fn_stage y') < stage_rank (fn_stage y) \<or> fn_stage y' = fn_stage y"
  using assms
proof (induction rule: fine_step.induct)
  case (reload y)
  then show ?case using reload_poll_rank by blast
qed (simp_all add: task_poll_stage)

lemma turn_stage:
  "turn B K Writer y y' \<Longrightarrow> fn_stage y \<noteq> Idle \<Longrightarrow> \<not> queued (fn_stage y) \<Longrightarrow>
    stage_rank (fn_stage y') < stage_rank (fn_stage y)"
  using reload_poll_rank [of B K y] by auto

section \<open>Fair runs\<close>

locale fine_run = fair_lock K waiting holding
  for K :: "'l lock_api" and waiting holding +
  fixes B :: "('m, 'md, 'st) build"
    and \<sigma> :: "nat \<Rightarrow> ('m, 'md, 'l) fine"
  assumes inv0: "fine_inv B waiting holding (\<sigma> 0)"
    and steps: "fine_step B K (\<sigma> n) (\<sigma> (Suc n))"
    and turns: "\<exists>m\<ge>n. turn B K v (\<sigma> m) (\<sigma> (Suc m))"
begin

lemma inv: "fine_inv B waiting holding (\<sigma> n)"
  by (rule fine_inv_run [where \<sigma> = \<sigma>, OF inv0]) (rule steps)

lemma linv: "lock_inv waiting holding (\<sigma> n)"
  using inv [of n] by (simp add: fine_inv_def)

end

sublocale fine_run \<subseteq> lock: fair_ranking \<sigma> "\<lambda>y. True"
  "\<lambda>y. distance w (waiting (fn_lock y)) (holding (fn_lock y))"
  "\<lambda>v y. helpful w (waiting (fn_lock y)) (holding (fn_lock y)) v" "turn B K" for w
proof
  fix n v
  let ?ws = "\<lambda>k. waiting (fn_lock (\<sigma> k))" and ?H = "\<lambda>k. holding (fn_lock (\<sigma> k))"
  have sane: "sane (?ws n) (?H n)" by (rule lock_inv_sane [OF linv])
  obtain u where act: "lock_act u (?ws n) (?H n) (?ws (Suc n)) (?H (Suc n))" using step_act [OF steps linv] by blast
  assume "distance w (?ws n) (?H n) \<noteq> 0"
  then have w: "w \<in> set (?ws n)" unfolding distance_pos .
  show "True \<and> distance w (?ws (Suc n)) (?H (Suc n)) \<le> distance w (?ws n) (?H n)"
    using act_distance [OF act sane w] by simp
  show "\<exists>a. helpful w (?ws n) (?H n) a" by (rule helpful_exists [OF w])
  assume v: "helpful w (?ws n) (?H n) v"
  show "distance w (?ws (Suc n)) (?H (Suc n)) < distance w (?ws n) (?H n) \<or> helpful w (?ws (Suc n)) (?H (Suc n)) v"
    by (rule act_keeps [OF act sane v])
  assume "turn B K v (\<sigma> n) (\<sigma> (Suc n))"
  from act_helps [OF sane v turn_moves_on [OF linv this v]]
  show "distance w (?ws (Suc n)) (?H (Suc n)) < distance w (?ws n) (?H n)" .
next
  fix n v
  show "\<exists>m\<ge>n. turn B K v (\<sigma> m) (\<sigma> (Suc m))" by (rule turns)
qed

context fine_run
begin

lemma gets_lock: "\<exists>m\<ge>n. w \<notin> set (waiting (fn_lock (\<sigma> m)))"
proof -
  obtain m where "n \<le> m" "distance w (waiting (fn_lock (\<sigma> m))) (holding (fn_lock (\<sigma> m))) = 0"
    using lock.reaches_zero [of n w] by blast
  then show ?thesis using distance_pos [of w "waiting (fn_lock (\<sigma> m))" "holding (fn_lock (\<sigma> m))"] by blast
qed

text \<open>A state of a task that is kept until it gets lower, and that gets lower at the next turn or
  when the task gets the lock, gets lower.\<close>

lemma stays_until:
  assumes "\<And>k. n \<le> k \<Longrightarrow> f (\<sigma> k) = f (\<sigma> n) \<Longrightarrow> lower (\<sigma> (Suc k)) \<or> f (\<sigma> (Suc k)) = f (\<sigma> n)" "n \<le> m"
  shows "(\<exists>k>n. k \<le> m \<and> lower (\<sigma> k)) \<or> f (\<sigma> m) = f (\<sigma> n)"
  using assms(2)
proof (induction m rule: dec_induct)
  case (step m)
  show ?case
  proof (cases "\<exists>k>n. k \<le> m \<and> lower (\<sigma> k)")
    case False
    with step assms(1) [of m] show ?thesis by (metis le_SucI le_imp_less_Suc le_refl)
  qed (meson le_SucI)
qed simp

lemma task_present:
  assumes "i < length (fn_tasks (\<sigma> n))" "n \<le> m"
  shows "i < length (fn_tasks (\<sigma> m))"
  using assms(2)
proof (induction m rule: dec_induct)
  case (step m)
  then show ?case using step_rank [OF steps] by blast
qed (rule assms(1))

lemma request_goes_on:
  assumes "i < length (fn_tasks (\<sigma> n))" "\<not> over (fn_tasks (\<sigma> n) ! i)"
  shows "\<exists>m>n. (fine_rank (fn_tasks (\<sigma> m) ! i), fine_rank (fn_tasks (\<sigma> n) ! i)) \<in> less_rank"
proof (rule ccontr)
  let ?lower = "\<lambda>y. (fine_rank (fn_tasks y ! i), fine_rank (fn_tasks (\<sigma> n) ! i)) \<in> less_rank"
  assume none: "\<not> ?thesis"
  have same: "fn_tasks (\<sigma> m) ! i = fn_tasks (\<sigma> n) ! i" if m: "n \<le> m" for m
  proof -
    have "(\<exists>k>n. k \<le> m \<and> ?lower (\<sigma> k)) \<or> fn_tasks (\<sigma> m) ! i = fn_tasks (\<sigma> n) ! i"
    proof (rule stays_until [where f = "\<lambda>y. fn_tasks y ! i" and lower = ?lower, OF _ m])
      fix k
      assume "n \<le> k" "fn_tasks (\<sigma> k) ! i = fn_tasks (\<sigma> n) ! i"
      with step_rank [OF steps [of k] task_present [OF assms(1)]]
      show "?lower (\<sigma> (Suc k)) \<or> fn_tasks (\<sigma> (Suc k)) ! i = fn_tasks (\<sigma> n) ! i" by simp
    qed
    with none show ?thesis by blast
  qed
  show False
  proof (cases "waits (fn_tasks (\<sigma> n) ! i)")
    case True
    obtain m where m: "n \<le> m" "Reader i \<notin> set (waiting (fn_lock (\<sigma> m)))" using gets_lock by blast
    with linv [of m] task_present [OF assms(1) m(1)] have "\<not> waits (fn_tasks (\<sigma> m) ! i)"
      by (simp add: lock_inv_def Let_def)
    with True same [OF m(1)] show False by simp
  next
    case False
    obtain m where m: "n \<le> m" "turn B K (Reader i) (\<sigma> m) (\<sigma> (Suc m))" using turns by blast
    from turn_rank [OF m(2) task_present [OF assms(1) m(1)]] same [OF m(1)] False assms(2)
    have "?lower (\<sigma> (Suc m))" by simp
    with none m(1) show False by (meson le_imp_less_Suc)
  qed
qed

lemma request_over:
  assumes "i < length (fn_tasks (\<sigma> n))"
  shows "\<exists>m\<ge>n. over (fn_tasks (\<sigma> m) ! i)"
  using assms
proof (induction "fine_rank (fn_tasks (\<sigma> n) ! i)" arbitrary: n rule: wf_induct_rule [OF wf_less_rank])
  case 1
  show ?case
  proof (cases "over (fn_tasks (\<sigma> n) ! i)")
    case False
    with request_goes_on 1(2) obtain m where
      "n < m" "(fine_rank (fn_tasks (\<sigma> m) ! i), fine_rank (fn_tasks (\<sigma> n) ! i)) \<in> less_rank" by blast
    with 1(1) [of m] task_present [OF 1(2), of m] show ?thesis by (meson less_imp_le le_trans)
  qed blast
qed

lemma reload_goes_on:
  assumes "fn_stage (\<sigma> n) \<noteq> Idle"
  shows "\<exists>m>n. stage_rank (fn_stage (\<sigma> m)) < stage_rank (fn_stage (\<sigma> n))"
proof (rule ccontr)
  let ?lower = "\<lambda>y. stage_rank (fn_stage y) < stage_rank (fn_stage (\<sigma> n))"
  assume none: "\<not> ?thesis"
  have same: "fn_stage (\<sigma> m) = fn_stage (\<sigma> n)" if m: "n \<le> m" for m
  proof -
    have "(\<exists>k>n. k \<le> m \<and> ?lower (\<sigma> k)) \<or> fn_stage (\<sigma> m) = fn_stage (\<sigma> n)"
    proof (rule stays_until [where f = fn_stage and lower = ?lower, OF _ m])
      fix k
      assume "n \<le> k" "fn_stage (\<sigma> k) = fn_stage (\<sigma> n)"
      with step_stage [OF steps [of k]] assms show "?lower (\<sigma> (Suc k)) \<or> fn_stage (\<sigma> (Suc k)) = fn_stage (\<sigma> n)" by simp
    qed
    with none show ?thesis by blast
  qed
  show False
  proof (cases "queued (fn_stage (\<sigma> n))")
    case True
    obtain m where m: "n \<le> m" "Writer \<notin> set (waiting (fn_lock (\<sigma> m)))" using gets_lock by blast
    with linv [of m] have "\<not> queued (fn_stage (\<sigma> m))" by (simp add: lock_inv_def Let_def)
    with True same [OF m(1)] show False by simp
  next
    case False
    obtain m where m: "n \<le> m" "turn B K Writer (\<sigma> m) (\<sigma> (Suc m))" using turns by blast
    from turn_stage [OF m(2)] same [OF m(1)] False assms have "?lower (\<sigma> (Suc m))" by simp
    with none m(1) show False by (meson le_imp_less_Suc)
  qed
qed

lemma reload_ends: "\<exists>m\<ge>n. fn_stage (\<sigma> m) = Idle"
proof (induction "stage_rank (fn_stage (\<sigma> n))" arbitrary: n rule: less_induct)
  case less
  show ?case
  proof (cases "fn_stage (\<sigma> n) = Idle")
    case False
    from reload_goes_on [OF this] less show ?thesis by (meson less_imp_le le_trans)
  qed blast
qed

end

section \<open>Properties\<close>

text \<open>The turns of \<open>fine_demo\<close> are fair: both tasks are polled for ever.\<close>

lemma fine_demo_turns: "\<exists>m\<ge>n. turn demo_next fifo_api v (fine_demo m) (fine_demo (Suc m))"
proof (cases v)
  case (Reader i)
  let ?m = "2 * n + 6"
  have "fine_demo (Suc ?m) = task_poll demo_next fifo_api 0 (fine_demo ?m)"
    unfolding fine_demo.simps(2) by (simp add: demo_act_def)
  moreover have "length (fn_tasks (fine_demo ?m)) = 1" by (rule fine_demo_length) simp
  ultimately show ?thesis using Reader by (intro exI [of _ ?m]) simp
next
  case Writer
  let ?m = "2 * n + 5"
  have "fine_demo (Suc ?m) = reload_poll demo_next fifo_api (fine_demo ?m)"
    unfolding fine_demo.simps(2) by (simp add: demo_act_def)
  with Writer show ?thesis by (intro exI [of _ ?m]) simp
qed

interpretation demo_run: fine_run fifo_api ff_waiting "\<lambda>l. set (ff_holding l)" demo_next fine_demo
proof unfold_locales
  show "fine_inv demo_next ff_waiting (\<lambda>l. set (ff_holding l)) (fine_demo 0)"
    unfolding fine_demo.simps(1) by (rule fifo.fine_inv_start)
  show "fine_step demo_next fifo_api (fine_demo n) (fine_demo (Suc n))" for n
    by (rule fine_demo_step)
  show "\<exists>m\<ge>n. turn demo_next fifo_api v (fine_demo m) (fine_demo (Suc m))" for n v
    by (rule fine_demo_turns)
qed

text \<open>C11 No request starves, and nothing deadlocks: in every infinite run in which every request
  task and the reload task are polled again and again until they have nothing left to do, every
  request ends (or its client gives up on it), although requests and reloads wait for each
  other's lock on the configuration and new ones keep arriving.\<close>

theorem no_request_starves:
  assumes "fair_lock K waiting holding"
    and "\<sigma> 0 = fine_start B K read c m0" "\<forall>n. fine_step B K (\<sigma> n) (\<sigma> (Suc n))"
    and "\<forall>v n. \<exists>m\<ge>n. turn B K v (\<sigma> m) (\<sigma> (Suc m))" "i < length (fn_tasks (\<sigma> n))"
  shows "\<exists>m\<ge>n. (\<exists>j r. fn_tasks (\<sigma> m) ! i = Plain (Ended j r)) \<or> (\<exists>j. fn_tasks (\<sigma> m) ! i = Gone j)"
proof -
  have "fine_inv B waiting holding (\<sigma> 0)"
    unfolding assms(2) by (rule fair_lock.fine_inv_start [OF assms(1)])
  then have "fine_run K waiting holding B \<sigma>"
    using assms(1,3,4) by (simp add: fine_run_def fine_run_axioms_def)
  from fine_run.request_over [OF this assms(5)] obtain m where "n \<le> m" "over (fn_tasks (\<sigma> m) ! i)" by blast
  then show ?thesis by (intro exI [of _ m]) (cases "fn_tasks (\<sigma> m) ! i" rule: over.cases; simp)
qed

theorem no_request_starves_witness:
  "\<exists>m. (\<exists>j r. fn_tasks (fine_demo m) ! 0 = Plain (Ended j r)) \<or> (\<exists>j. fn_tasks (fine_demo m) ! 0 = Gone j)"
proof -
  have "0 < length (fn_tasks (fine_demo 1))" using fine_demo_length [of 1] by simp
  with no_request_starves [where \<sigma> = fine_demo, OF fifo.fair_lock_axioms fine_demo.simps(1), of 0 1] fine_demo_step fine_demo_turns
  show ?thesis by blast
qed

text \<open>C12 Reloads complete and leave the process consistent: in every such run, the process is
  between reloads infinitely often, and then runs an accepted configuration with an upstream
  for every route and exactly its probers.\<close>

theorem reloads_complete:
  assumes "fair_lock K waiting holding"
    and "\<sigma> 0 = fine_start B K read c m0" "\<forall>n. fine_step B K (\<sigma> n) (\<sigma> (Suc n))"
    and "\<forall>v n. \<exists>m\<ge>n. turn B K v (\<sigma> m) (\<sigma> (Suc m))"
    and "accepts (bd_http B) (bd_features B) c"
    and "\<not> feat_plugins (bd_features B) \<or> build_plugin_cache (bd_wasm B) read c = Inr cache"
  shows "\<exists>m\<ge>n. let w = fine_world (\<sigma> m); now = w_config w in
    fn_stage (\<sigma> m) = Idle \<and> accepts (bd_http B) (bd_features B) now
    \<and> (\<forall>r\<in>set (cfg_route now). has_upstream w (rc_name r))
    \<and> mset (fn_running (\<sigma> m)) = mset (spawn_all_probers now)"
proof -
  have "fine_inv B waiting holding (\<sigma> 0)"
    unfolding assms(2) by (rule fair_lock.fine_inv_start [OF assms(1)])
  then have "fine_run K waiting holding B \<sigma>"
    using assms(1,3,4) by (simp add: fine_run_def fine_run_axioms_def)
  from fine_run.reload_ends [OF this] obtain m where m: "n \<le> m" "fn_stage (\<sigma> m) = Idle" by blast
  have "(fine_step B K)\<^sup>*\<^sup>* (\<sigma> 0) (\<sigma> k)" for k
    using assms(3) by (induction k) (auto intro: rtranclp.rtrancl_into_rtrancl)
  from fine.abs_reachable [OF assms(2) this, of m] have reach: "reachable B (process_start B read c m0) (fine_process (\<sigma> m))" by metis
  have idle: "ps_stage (fine_process (\<sigma> m)) = Waiting" using m(2) by (simp add: fine_process_def)
  have inv: "process_inv B (fine_process (\<sigma> m))" using settled_inv [OF assms(5) _ reach] assms(6) by blast
  have "has_upstream (fine_world (\<sigma> m)) (rc_name r)" if "r \<in> set (cfg_route (w_config (fine_world (\<sigma> m))))" for r
    using settled_upstreams [OF assms(5) _ reach idle, of r] that assms(6) by (auto simp: fine_process_def)
  with inv idle m show ?thesis
    by (intro exI [of _ m]) (simp add: process_inv_def fine_process_def Let_def)
qed

theorem reloads_complete_witness:
  "(\<exists>new. fn_stage (fine_demo 5) = LbsNext new) \<and> (\<exists>m\<ge>5. fn_stage (fine_demo m) = Idle)"
proof -
  have start: "case fn_stage (fine_demo 5) of LbsNext new \<Rightarrow> True | _ \<Rightarrow> False" by code_simp
  have F: "bd_features demo_next = plain_features" "bd_http demo_next = std_http"
    by (simp_all add: demo_next_def demo_build_def)
  have acc: "accepts (bd_http demo_next) (bd_features demo_next) pair_config" unfolding F by code_simp
  have "build_plugin_cache (bd_wasm demo_next) (\<lambda>_. Some '''') pair_config = Inr Map.empty"
    by (simp add: build_plugin_cache_def pair_config_def plain_config_def plain_route_def)
  from reloads_complete [where \<sigma> = fine_demo, OF fifo.fair_lock_axioms fine_demo.simps(1) _ _ acc disjI2 [OF this], of 5]
    fine_demo_step fine_demo_turns start
  show ?thesis by (auto simp: Let_def split: fine_stage.splits simp del: fine_demo.simps)
qed

end
