(* ===== verification/Health_Timing.thy ===== *)
theory Health_Timing
  imports Handling
begin

text \<open>
  How long the health registry may be wrong.  The prober's loop of \<open>health.rs\<close> in time: a round
  starts, its probe takes until the upstream has answered or the timeout has passed, its result
  is stored, and the next round starts an interval later, or as much later as the runtime wakes
  the task.  The network may behave differently at every time.
\<close>

section \<open>Rounds in time\<close>

record prober_run =
  pn_prober :: prober
  pn_begin :: nat                  \<comment> \<open>when the task was spawned\<close>
  pn_late :: "nat \<Rightarrow> duration"      \<comment> \<open>by how much the sleep after a round overran\<close>

definition probe_time :: "tcp \<Rightarrow> prober \<Rightarrow> duration" where
  "probe_time net p =
     (case upstream_host_port (pb_addr p) of
        Inl _ \<Rightarrow> 0
      | Inr (host, port) \<Rightarrow> min (pb_timeout p) (fst (net host port (probe_request (pb_path p) host))))"

fun round_start :: "(nat \<Rightarrow> tcp) \<Rightarrow> prober_run \<Rightarrow> nat \<Rightarrow> nat" where
  "round_start net r 0 = pn_begin r"
| "round_start net r (Suc n) =
     (let s = round_start net r n; p = pn_prober r
      in s + probe_time (net s) p + pb_interval p + pn_late r n)"

definition round_end :: "(nat \<Rightarrow> tcp) \<Rightarrow> prober_run \<Rightarrow> nat \<Rightarrow> nat" where
  "round_end net r n = (let s = round_start net r n in s + probe_time (net s) (pn_prober r))"

text \<open>What a round stores, and when; the writes of a prober up to a time, and a log of the
  writes of several probers in the order of their times, equal ones in any order.\<close>

definition round_write :: "(nat \<Rightarrow> tcp) \<Rightarrow> prober_run \<Rightarrow> nat \<Rightarrow> nat \<times> string \<times> bool" where
  "round_write net r n = (let p = pn_prober r in
     (round_end net r n, pb_addr p,
      probe_once (net (round_start net r n)) (pb_addr p) (pb_path p) (pb_timeout p)))"

definition writes_until :: "(nat \<Rightarrow> tcp) \<Rightarrow> nat \<Rightarrow> prober_run \<Rightarrow> (nat \<times> string \<times> bool) list" where
  "writes_until net t r = filter (\<lambda>w. fst w \<le> t) (map (round_write net r) [0..<Suc t])"

definition write_log :: "(nat \<Rightarrow> tcp) \<Rightarrow> nat \<Rightarrow> prober_run list \<Rightarrow> (nat \<times> string \<times> bool) list \<Rightarrow> bool" where
  "write_log net t rs ws \<longleftrightarrow>
     sorted (map fst ws) \<and> mset ws = mset (concat (map (writes_until net t) rs))"

definition apply_writes :: "(nat \<times> string \<times> bool) list \<Rightarrow> health_registry \<Rightarrow> health_registry" where
  "apply_writes ws reg = foldl (\<lambda>reg (_, addr, b). set_flag reg addr b) reg ws"

section \<open>Facts\<close>

lemma probe_time_le: "probe_time net p \<le> pb_timeout p"
  by (auto simp: probe_time_def split: sum.splits)

lemma round_end_Suc:
  "round_end net r (Suc n) =
     round_end net r n + pb_interval (pn_prober r) + pn_late r n
       + probe_time (net (round_start net r (Suc n))) (pn_prober r)"
  by (simp add: round_end_def Let_def)

lemma round_start_ge: "0 < pb_interval (pn_prober r) \<Longrightarrow> pn_begin r + n \<le> round_start net r n"
  by (induction n) (auto simp: Let_def)

lemma round_index_le:
  assumes "0 < pb_interval (pn_prober r)" "round_end net r n \<le> t"
  shows "n \<le> t"
  using round_start_ge [OF assms(1), of n net] assms(2) by (simp add: round_end_def Let_def)

text \<open>With a positive interval the first \<open>t\<close> rounds are all that can end by time \<open>t\<close>.\<close>

lemma writes_until_complete:
  assumes "0 < pb_interval (pn_prober r)"
  shows "w \<in> set (writes_until net t r) \<longleftrightarrow> (\<exists>n. w = round_write net r n \<and> round_end net r n \<le> t)"
proof -
  have "fst (round_write net r n) = round_end net r n" for n by (simp add: round_write_def Let_def)
  moreover have "n < Suc t" if "round_end net r n \<le> t" for n
    using round_index_le [OF assms that] by simp
  ultimately show ?thesis
    unfolding writes_until_def set_filter set_map set_upt by (auto simp del: upt_Suc)
qed

lemma writes_until_addr: "w \<in> set (writes_until net t r) \<Longrightarrow> fst (snd w) = pb_addr (pn_prober r)"
  by (auto simp: writes_until_def round_write_def Let_def simp del: upt_Suc)

lemma apply_writes_last:
  "is_healthy (apply_writes ws reg) a =
     (let mine = filter (\<lambda>(_, addr, _). addr = a) ws
      in if mine = [] then is_healthy reg a else snd (snd (last mine)))"
proof (induction ws rule: rev_induct)
  case (snoc w ws)
  then show ?case
    by (cases w) (simp add: apply_writes_def registry.healthy_update Let_def)
qed (simp add: apply_writes_def)

lemma sorted_last: "sorted xs \<Longrightarrow> x \<in> set xs \<Longrightarrow> x \<le> last xs"
  by (induction xs) auto

lemma sorted_filter_last:
  assumes "sorted (map fst ws)" "w \<in> set ws" "P w"
  shows "fst w \<le> fst (last (filter P ws))"
proof -
  have ne: "filter P ws \<noteq> []" using assms(2,3) by (auto simp: filter_empty_conv)
  have "sorted (map fst (filter P ws))" using assms(1) by (rule sorted_filter)
  moreover have "fst w \<in> set (map fst (filter P ws))" using assms(2,3) by auto
  ultimately have "fst w \<le> last (map fst (filter P ws))" by (rule sorted_last)
  then show ?thesis using ne by (simp add: last_map)
qed

text \<open>The last write for an address in a log was made by a round that no later round of the
  same prober has followed.\<close>

lemma last_write_latest:
  assumes log: "write_log net t rs ws" and ne: "filter (\<lambda>(_, addr, _). addr = a) ws \<noteq> []"
    and pos: "\<forall>r\<in>set rs. pb_addr (pn_prober r) = a \<longrightarrow> 0 < pb_interval (pn_prober r)"
  obtains r n where "r \<in> set rs" "pb_addr (pn_prober r) = a"
    "last (filter (\<lambda>(_, addr, _). addr = a) ws) = round_write net r n" "t < round_end net r (Suc n)"
proof -
  let ?mine = "filter (\<lambda>(_, addr, _). addr = a) ws"
  have mem: "w \<in> set ws \<longleftrightarrow> (\<exists>r\<in>set rs. w \<in> set (writes_until net t r))" for w
    using log mset_eq_setD [of ws "concat (map (writes_until net t) rs)"] by (auto simp: write_log_def)
  have "last ?mine \<in> set ?mine" using ne by (rule last_in_set)
  then obtain r where r: "r \<in> set rs" "last ?mine \<in> set (writes_until net t r)" "fst (snd (last ?mine)) = a"
    using mem by auto
  then have addr: "pb_addr (pn_prober r) = a"
    using writes_until_addr [of "last ?mine" net t r] by simp
  then have p: "0 < pb_interval (pn_prober r)" using pos r(1) by blast
  obtain n where n: "last ?mine = round_write net r n" using r(2) writes_until_complete [OF p] by blast
  have "\<not> round_end net r (Suc n) \<le> t"
  proof
    assume "round_end net r (Suc n) \<le> t"
    then have "round_write net r (Suc n) \<in> set ws" using mem r(1) writes_until_complete [OF p] by blast
    with log addr have "fst (round_write net r (Suc n)) \<le> fst (last ?mine)"
      by (intro sorted_filter_last) (auto simp: write_log_def round_write_def Let_def)
    with n p show False by (simp add: round_write_def round_end_Suc Let_def)
  qed
  with that r(1) addr n show thesis by simp
qed

text \<open>The probers of an address whose timings are bounded by \<open>interval\<close>, \<open>timeout\<close> and \<open>late\<close>, and
  that have begun by \<open>T\<close>.\<close>

definition timely :: "prober_run list \<Rightarrow> string \<Rightarrow> nat \<Rightarrow> duration \<Rightarrow> duration \<Rightarrow> duration \<Rightarrow> bool" where
  "timely rs a T interval timeout late \<longleftrightarrow>
     (\<exists>r\<in>set rs. pb_addr (pn_prober r) = a) \<and>
     (\<forall>r\<in>set rs. pb_addr (pn_prober r) = a \<longrightarrow> pn_begin r \<le> T \<and> 0 < pb_interval (pn_prober r)
        \<and> pb_interval (pn_prober r) \<le> interval \<and> pb_timeout (pn_prober r) \<le> timeout \<and> (\<forall>n. pn_late r n \<le> late))"

lemma registry_converges:
  assumes "map pn_prober rs = spawn_all_probers c" "write_log net t rs ws"
    and "timely rs a T interval timeout late"
    and "\<forall>\<tau>\<ge>T. \<forall>p\<in>set (spawn_all_probers c). pb_addr p = a \<longrightarrow>
      probe_once (net \<tau>) a (pb_path p) (pb_timeout p) = verdict"
    and "T + interval + 2 * timeout + late \<le> t"
  shows "is_healthy (apply_writes ws registry_new) a = verdict"
proof -
  let ?mine = "filter (\<lambda>(_, addr, _). addr = a) ws"
  from assms(3) obtain r0 where r0: "r0 \<in> set rs" "pb_addr (pn_prober r0) = a"
    and timely: "\<forall>r\<in>set rs. pb_addr (pn_prober r) = a \<longrightarrow> pn_begin r \<le> T \<and> 0 < pb_interval (pn_prober r)
      \<and> pb_interval (pn_prober r) \<le> interval \<and> pb_timeout (pn_prober r) \<le> timeout \<and> (\<forall>n. pn_late r n \<le> late)"
    unfolding timely_def by blast
  have "pn_begin r0 \<le> T" "pb_timeout (pn_prober r0) \<le> timeout" using r0 timely by blast+
  then have "round_end net r0 0 \<le> t"
    using assms(5) probe_time_le [of "net (pn_begin r0)" "pn_prober r0"] by (simp add: round_end_def Let_def)
  then have "round_write net r0 0 \<in> set (writes_until net t r0)"
    using r0 timely writes_until_complete by blast
  then have "round_write net r0 0 \<in> set ?mine"
    using assms(2) r0 mset_eq_setD [of ws "concat (map (writes_until net t) rs)"]
    by (auto simp: write_log_def round_write_def Let_def)
  then have ne: "?mine \<noteq> []" by (metis empty_iff empty_set)
  obtain r n where r: "r \<in> set rs" "pb_addr (pn_prober r) = a" "last ?mine = round_write net r n"
    "t < round_end net r (Suc n)"
    using timely by (blast intro: last_write_latest [OF assms(2) ne])
  have "T \<le> round_start net r n"
  proof (rule ccontr)
    assume "\<not> T \<le> round_start net r n"
    moreover have "pb_timeout (pn_prober r) \<le> timeout" "pb_interval (pn_prober r) \<le> interval" "pn_late r n \<le> late"
      using timely r(1,2) by blast+
    ultimately have "round_end net r (Suc n) \<le> T + interval + 2 * timeout + late"
      using probe_time_le [of "net (round_start net r n)" "pn_prober r"]
        probe_time_le [of "net (round_start net r (Suc n))" "pn_prober r"]
      by (simp add: round_end_Suc) (simp add: round_end_def Let_def)
    with assms(5) r(4) show False by simp
  qed
  moreover have "pn_prober r \<in> set (spawn_all_probers c)" using assms(1) r(1) by (metis image_eqI list.set_map)
  ultimately have "snd (snd (last ?mine)) = verdict"
    using assms(4) r(2,3) by (simp add: round_write_def Let_def)
  with ne show ?thesis by (simp add: apply_writes_last Let_def)
qed

section \<open>Properties\<close>

text \<open>C37 The registry catches up, and the traffic with it: when every probe of an address that
  starts at time \<open>T\<close> or later has the same verdict, the registry has it from \<open>T\<close> plus an
  interval, two timeouts and the time by which a wake-up may be late on, whichever probers of
  however many routes write it, in whichever order; a failing address is then not selected for
  any route that has a healthy one.\<close>

theorem health_converges:
  assumes "map pn_prober rs = spawn_all_probers c" "write_log net t rs ws"
    and "timely rs a T interval timeout late"
    and "\<forall>\<tau>\<ge>T. \<forall>p\<in>set (spawn_all_probers c). pb_addr p = a \<longrightarrow>
      probe_once (net \<tau>) a (pb_path p) (pb_timeout p) = verdict"
    and "T + interval + 2 * timeout + late \<le> t"
  shows "is_healthy (apply_writes ws registry_new) a = verdict
    \<and> (\<not> verdict \<longrightarrow> (\<forall>w name lb b tried addr w'. w_health w = apply_writes ws registry_new
        \<and> w_lbs w name = Some lb \<and> lb_room 1 lb \<and> b \<in> lb_addrs lb \<and> is_healthy (w_health w) b
        \<and> select_upstream w name tried = (Some addr, w') \<longrightarrow> addr \<noteq> a))"
proof -
  have conv: "is_healthy (apply_writes ws registry_new) a = verdict"
    using assms by (rule registry_converges)
  have "addr \<noteq> a" if asm: "\<not> verdict" "w_health w = apply_writes ws registry_new" "w_lbs w name = Some lb"
    "lb_room 1 lb" "b \<in> lb_addrs lb" "is_healthy (w_health w) b" "select_upstream w name tried = (Some addr, w')"
    for w :: "'md world" and name lb b tried addr w'
  proof -
    obtain u where u: "fst (next_healthy lb (is_healthy (w_health w)) tried) = Some u" "up_addr u = addr"
      using select_upstream_pick(1) [OF asm(3,7)] by (auto simp: lb_pick_def split: prod.splits)
    have "lb_room (Suc 0) lb" using asm(4) by simp
    from next_healthy_healthy [where h = "is_healthy (w_health w)", OF this u(1) asm(5,6)] u(2) conv asm(1,2)
    show ?thesis by auto
  qed
  with conv show ?thesis by blast
qed

text \<open>An upstream probed every two milliseconds that stops answering at time 3.\<close>

definition failing_net :: "nat \<Rightarrow> tcp" where
  "failing_net \<tau> = (\<lambda>_ _ _. if \<tau> < 3 then (0, Some ''HTTP/1.1 200 OK'') else (5, None))"

definition quick_route :: route_config where
  "quick_route = (plain_route ''r'' [''a:1''])\<lparr>rc_health_check :=
     Some \<lparr>hk_path = None, hk_interval = Some ''2ms'', hk_timeout = Some ''1ms''\<rparr>\<rparr>"

definition quick_run :: prober_run where
  "quick_run = \<lparr>pn_prober = \<lparr>pb_addr = ''a:1'', pb_path = ''/'', pb_interval = 2, pb_timeout = 1\<rparr>,
     pn_begin = 0, pn_late = (\<lambda>_. 0)\<rparr>"

theorem health_converges_witness:
  "\<not> is_healthy (apply_writes (writes_until failing_net 7 quick_run) registry_new) ''a:1''
    \<and> is_healthy (apply_writes (writes_until failing_net 2 quick_run) registry_new) ''a:1''"
proof -
  let ?ws = "writes_until failing_net 7 quick_run"
  have spawn: "map pn_prober [quick_run] = spawn_all_probers (plain_config [quick_route])" by code_simp
  have "sorted (map fst ?ws)" by code_simp
  then have log: "write_log failing_net 7 [quick_run] ?ws" by (simp add: write_log_def)
  have timely: "timely [quick_run] ''a:1'' 3 2 1 0" by (simp add: timely_def quick_run_def)
  have "\<not> probe_once (failing_net \<tau>) ''a:1'' path limit" if "3 \<le> \<tau>" for \<tau> path limit
    using that by (simp add: probe_verdict failing_net_def)
  then have dead: "\<forall>\<tau>\<ge>3. \<forall>p\<in>set (spawn_all_probers (plain_config [quick_route])). pb_addr p = ''a:1'' \<longrightarrow>
      probe_once (failing_net \<tau>) ''a:1'' (pb_path p) (pb_timeout p) = False" by simp
  have up: "is_healthy (apply_writes (writes_until failing_net 2 quick_run) registry_new) ''a:1''" by code_simp
  have "is_healthy (apply_writes ?ws registry_new) ''a:1'' = False"
    by (rule health_converges [OF spawn log timely dead, THEN conjunct1]) simp
  with up show ?thesis by simp
qed

end
