(* ===== verification/Registry_Heap.thy ===== *)
theory Registry_Heap
  imports Health Transition
begin

text \<open>
  \<open>HealthRegistry\<close> as it is in memory: a lock around a map from addresses to shared flags
  (\<open>Arc<AtomicBool>\<close>), the flags in a heap of their own.  \<open>set\<close> is not one atomic action: it
  looks the flag up under the read lock, creates it under the write lock if there was none,
  and swaps the value in with no lock held, so the calls of several probers interleave.  The
  theory shows that they nevertheless take effect atomically, as \<open>registry_set\<close> of the health
  theory does.
\<close>

section \<open>The heap\<close>

text \<open>Where a call of \<open>set\<close> is, with its arguments, and the flag it holds.\<close>

datatype set_call =
    LookUp string bool
  | Create string bool
  | Swap string bool nat
  | Returned

record registry_heap =
  rh_map :: "string \<rightharpoonup> nat"
  rh_flags :: "bool list"
  rh_calls :: "set_call list"
  rh_log :: "health_event list"

definition heap_new :: registry_heap where
  "heap_new = \<lparr>rh_map = Map.empty, rh_flags = [], rh_calls = [], rh_log = []\<rparr>"

definition heap_is_healthy :: "registry_heap \<Rightarrow> string \<Rightarrow> bool" where
  "heap_is_healthy h addr = (case rh_map h addr of Some flag \<Rightarrow> rh_flags h ! flag | None \<Rightarrow> True)"

text \<open>The action a call does next, and where it then is.\<close>

fun set_action :: "set_call \<Rightarrow> registry_heap \<Rightarrow> set_call \<times> registry_heap" where
  "set_action (LookUp addr healthy) h =
     (case rh_map h addr of
        Some flag \<Rightarrow> (Swap addr healthy flag, h)
      | None \<Rightarrow> (Create addr healthy, h))"
| "set_action (Create addr healthy) h =
     (case rh_map h addr of
        Some flag \<Rightarrow> (Swap addr healthy flag, h)
      | None \<Rightarrow> (let flag = length (rh_flags h) in
          (Swap addr healthy flag,
           h\<lparr>rh_map := (rh_map h)(addr \<mapsto> flag), rh_flags := rh_flags h @ [True]\<rparr>)))"
| "set_action (Swap addr healthy flag) h =
     (let was_healthy = rh_flags h ! flag in
      (Returned, h\<lparr>rh_flags := (rh_flags h)[flag := healthy],
         rh_log := rh_log h @ (if was_healthy \<noteq> healthy
           then [if healthy then BecameHealthy addr else BecameUnhealthy addr] else [])\<rparr>))"
| "set_action Returned h = (Returned, h)"

inductive heap_step :: "registry_heap \<Rightarrow> registry_heap \<Rightarrow> bool" where
  call: "heap_step h (h\<lparr>rh_calls := rh_calls h @ [LookUp addr healthy]\<rparr>)"
| act: "i < length (rh_calls h) \<Longrightarrow> set_action (rh_calls h ! i) h = (c, h') \<Longrightarrow>
    heap_step h (h'\<lparr>rh_calls := (rh_calls h')[i := c]\<rparr>)"

section \<open>The atomic registry\<close>

text \<open>What readers see, and what has been logged; a step is one whole \<open>registry_set\<close>.\<close>

type_synonym view = "(string \<Rightarrow> bool) \<times> health_event list"

inductive atomic_step :: "view \<Rightarrow> view \<Rightarrow> bool" where
  set_flag: "atomic_step (is_healthy r, log)
    (is_healthy (fst (registry_set r addr healthy)), log @ snd (registry_set r addr healthy))"

definition atomic_init :: "view \<Rightarrow> bool" where
  "atomic_init v = (v = (is_healthy registry_new, []))"

definition view_of :: "registry_heap \<Rightarrow> view" where
  "view_of h = (heap_is_healthy h, rh_log h)"

lemma atomic_stepI:
  assumes "v' = (fst v)(addr := healthy)"
    and "log' = snd v @ (if fst v addr = healthy then []
      else [if healthy then BecameHealthy addr else BecameUnhealthy addr])"
  shows "atomic_step v (v', log')"
proof -
  define r where "r = (\<lambda>x. Some (fst v x))"
  have r: "is_healthy r = fst v" by (rule ext) (simp add: is_healthy_def r_def)
  have "is_healthy (fst (registry_set r addr healthy)) = v'"
    unfolding assms(1) r [symmetric]
    by (rule ext) (simp add: registry.healthy_update [unfolded set_flag_def])
  moreover have "snd v @ snd (registry_set r addr healthy) = log'"
    using assms(2) r by (simp add: registry_set_events)
  ultimately show ?thesis using atomic_step.set_flag [of r "snd v" addr healthy] r by simp
qed

section \<open>The heap implements the atomic registry\<close>

text \<open>Flags are not shared between addresses, are never replaced, and a call that holds a flag
  holds its address's.\<close>

definition heap_inv :: "registry_heap \<Rightarrow> bool" where
  "heap_inv h \<longleftrightarrow> inj_on (rh_map h) (dom (rh_map h))
     \<and> (\<forall>flag\<in>ran (rh_map h). flag < length (rh_flags h))
     \<and> (\<forall>addr healthy flag. Swap addr healthy flag \<in> set (rh_calls h) \<longrightarrow> rh_map h addr = Some flag)"

lemma heap_inv_action:
  assumes "heap_inv h" "c0 \<in> set (rh_calls h)" "set_action c0 h = (c, h')"
  shows "heap_inv h' \<and> rh_calls h' = rh_calls h
    \<and> (\<forall>addr healthy flag. c = Swap addr healthy flag \<longrightarrow> rh_map h' addr = Some flag)"
proof (cases "(c0, h)" rule: set_action.cases)
  case (2 addr healthy h0)
  show ?thesis
  proof (cases "rh_map h addr")
    case None
    have "inj_on ((rh_map h)(addr \<mapsto> length (rh_flags h))) (insert addr (dom (rh_map h)))"
      using assms(1) None by (auto simp: heap_inv_def inj_on_def ran_def split: if_splits)
    with 2 None assms show ?thesis
      by (auto simp: heap_inv_def Let_def ran_map_upd less_Suc_eq)
  qed (use 2 assms in auto)
qed (use assms in \<open>auto simp: heap_inv_def Let_def split: option.splits\<close>)

lemma heap_inv_step: "heap_step h h' \<Longrightarrow> heap_inv h \<Longrightarrow> heap_inv h'"
proof (induction rule: heap_step.induct)
  case (act i h c h')
  with heap_inv_action [of h "rh_calls h ! i" c h'] show ?case
    by (auto simp: heap_inv_def dest: set_update_subset_insert [THEN subsetD])
qed (auto simp: heap_inv_def)

lemma view_of_calls [simp]: "view_of (h\<lparr>rh_calls := cs\<rparr>) = view_of h"
  by (auto simp: view_of_def heap_is_healthy_def fun_eq_iff split: option.split)

lemma view_of_swap:
  assumes "heap_inv h" "rh_map h addr = Some flag"
  shows "heap_is_healthy (h\<lparr>rh_flags := (rh_flags h)[flag := healthy], rh_log := log\<rparr>) =
    (heap_is_healthy h)(addr := healthy)"
proof (rule ext)
  fix x
  have flag: "flag < length (rh_flags h)" using assms by (auto simp: heap_inv_def ran_def)
  show "heap_is_healthy (h\<lparr>rh_flags := (rh_flags h)[flag := healthy], rh_log := log\<rparr>) x =
      ((heap_is_healthy h)(addr := healthy)) x"
  proof (cases "x = addr")
    case True
    with assms(2) flag show ?thesis by (simp add: heap_is_healthy_def)
  next
    case False
    have "rh_map h x \<noteq> Some flag"
    proof
      assume "rh_map h x = Some flag"
      with assms have "x = addr" unfolding heap_inv_def by (metis domI inj_onD)
      with False show False ..
    qed
    then have "heap_is_healthy (h\<lparr>rh_flags := (rh_flags h)[flag := healthy], rh_log := log\<rparr>) x = heap_is_healthy h x"
      by (cases "rh_map h x") (simp_all add: heap_is_healthy_def)
    with False show ?thesis by simp
  qed
qed

text \<open>A new flag reads as its absence did.\<close>

lemma view_of_create:
  assumes "heap_inv h" "rh_map h addr = None"
  shows "heap_is_healthy (h\<lparr>rh_map := (rh_map h)(addr \<mapsto> length (rh_flags h)), rh_flags := rh_flags h @ [True]\<rparr>) =
    heap_is_healthy h"
proof (rule ext)
  fix x
  have "flag < length (rh_flags h)" if "rh_map h x = Some flag" for flag
    using assms(1) that by (auto simp: heap_inv_def ran_def)
  with assms(2) show "heap_is_healthy
      (h\<lparr>rh_map := (rh_map h)(addr \<mapsto> length (rh_flags h)), rh_flags := rh_flags h @ [True]\<rparr>) x = heap_is_healthy h x"
    by (cases "rh_map h x"; cases "x = addr") (simp_all add: heap_is_healthy_def nth_append)
qed

lemma view_of_action:
  assumes "heap_inv h" "c0 \<in> set (rh_calls h)" "set_action c0 h = (c, h')"
  shows "view_of h' = view_of h \<or> atomic_step (view_of h) (view_of h')"
proof (cases "(c0, h)" rule: set_action.cases)
  case (2 addr healthy h0)
  then show ?thesis using assms view_of_create [OF assms(1), of addr]
    by (cases "rh_map h addr") (auto simp: view_of_def Let_def)
next
  case (3 addr healthy flag h0)
  then have flag: "rh_map h addr = Some flag" using assms by (auto simp: heap_inv_def)
  have "atomic_step (view_of h) (view_of h')"
    using 3 assms(3) view_of_swap [OF assms(1) flag] flag unfolding view_of_def
    by (intro atomic_stepI [where addr = addr and healthy = healthy])
      (auto simp: heap_is_healthy_def Let_def)
  then show ?thesis ..
qed (use assms in \<open>auto split: option.splits\<close>)

lemma view_of_step: "heap_step h h' \<Longrightarrow> heap_inv h \<Longrightarrow> atomic_step\<^sup>*\<^sup>* (view_of h) (view_of h')"
proof (induction rule: heap_step.induct)
  case (act i h c h')
  with view_of_action [of h "rh_calls h ! i" c h'] show ?case by auto
qed simp

interpretation heap: simulation "\<lambda>h. h = heap_new" heap_step heap_inv atomic_init atomic_step view_of
proof unfold_locales
  fix h h' :: registry_heap
  show "h = heap_new \<Longrightarrow> heap_inv h" by (simp add: heap_inv_def heap_new_def)
  show "heap_inv h \<Longrightarrow> heap_step h h' \<Longrightarrow> heap_inv h'" by (rule heap_inv_step)
  show "h = heap_new \<Longrightarrow> atomic_init (view_of h)"
    by (simp add: atomic_init_def view_of_def heap_new_def heap_is_healthy_def registry_new_def
        is_healthy_def fun_eq_iff)
  show "heap_inv h \<Longrightarrow> heap_step h h' \<Longrightarrow> atomic_step\<^sup>*\<^sup>* (view_of h) (view_of h')" by (rule view_of_step)
qed

section \<open>What is logged\<close>

definition event_of :: "string \<Rightarrow> health_event \<Rightarrow> bool option" where
  "event_of addr e = (case e of
      BecameHealthy a \<Rightarrow> if a = addr then Some True else None
    | BecameUnhealthy a \<Rightarrow> if a = addr then Some False else None)"

text \<open>The transitions logged for an address, from the assumed \<open>True\<close> on.\<close>

definition transitions :: "string \<Rightarrow> health_event list \<Rightarrow> bool list" where
  "transitions addr log = True # List.map_filter (event_of addr) log"

definition log_inv :: "view \<Rightarrow> bool" where
  "log_inv v \<longleftrightarrow> (\<forall>addr. successively (\<noteq>) (transitions addr (snd v))
     \<and> last (transitions addr (snd v)) = fst v addr)"

lemma map_filter_snoc:
  "List.map_filter f (xs @ [x]) = List.map_filter f xs @ (case f x of None \<Rightarrow> [] | Some y \<Rightarrow> [y])"
  by (simp add: List.map_filter_def split: option.splits)

lemma transitions_snoc:
  "transitions addr (log @ [e]) = transitions addr log @ (case event_of addr e of None \<Rightarrow> [] | Some b \<Rightarrow> [b])"
  by (simp add: transitions_def map_filter_snoc)

lemma transitions_nonempty [simp]: "transitions addr log \<noteq> []"
  by (simp add: transitions_def)

lemma log_inv_step: "atomic_step v v' \<Longrightarrow> log_inv v \<Longrightarrow> log_inv v'"
proof (induction rule: atomic_step.induct)
  case (set_flag r log a b)
  have up: "is_healthy (fst (registry_set r a b)) = (is_healthy r)(a := b)"
    by (rule ext) (simp add: registry.healthy_update [unfolded set_flag_def])
  from set_flag show ?case
    by (auto simp: log_inv_def up registry_set_events transitions_snoc event_of_def successively_append_iff)
qed

lemma log_invariant: "invariant_system atomic_init atomic_step log_inv"
proof
  fix v v'
  show "log_inv v" if "atomic_init v"
    using that by (simp add: atomic_init_def log_inv_def transitions_def registry_new_def is_healthy_def
        List.map_filter_def)
  show "log_inv v'" if "log_inv v" "atomic_step v v'" using log_inv_step [OF that(2,1)] .
qed

section \<open>A race\<close>

text \<open>Two probers of one address that find no flag for it: both go on to create it, and the
  second finds the first one's.\<close>

definition heap_act :: "nat \<Rightarrow> registry_heap \<Rightarrow> registry_heap" where
  "heap_act i h = (case set_action (rh_calls h ! i) h of (c, h') \<Rightarrow> h'\<lparr>rh_calls := (rh_calls h')[i := c]\<rparr>)"

lemma heap_act_step: "i < length (rh_calls h) \<Longrightarrow> heap_step h (heap_act i h)"
  by (simp add: heap_act_def heap_step.act split: prod.splits)

definition race_start :: registry_heap where
  "race_start = heap_new\<lparr>rh_calls := [LookUp ''a'' False, LookUp ''a'' True]\<rparr>"

definition race_end :: registry_heap where
  "race_end = heap_act 1 (heap_act 0 (heap_act 1 (heap_act 0 (heap_act 1 (heap_act 0 race_start)))))"

lemma race_reachable: "heap_step\<^sup>*\<^sup>* heap_new race_end"
proof -
  have "heap_step heap_new (heap_new\<lparr>rh_calls := [LookUp ''a'' False]\<rparr>)"
    using heap_step.call [of heap_new "''a''" False] by (simp add: heap_new_def)
  moreover have "heap_step (heap_new\<lparr>rh_calls := [LookUp ''a'' False]\<rparr>) race_start"
    using heap_step.call [of "heap_new\<lparr>rh_calls := [LookUp ''a'' False]\<rparr>" "''a''" True]
    by (simp add: heap_new_def race_start_def)
  moreover have "heap_step\<^sup>*\<^sup>* race_start race_end"
  proof -
    have len: "length (rh_calls (heap_act i h)) = length (rh_calls h)" for i h
      by (cases "(rh_calls h ! i, h)" rule: set_action.cases)
        (auto simp: heap_act_def Let_def split: option.splits)
    have "heap_step\<^sup>*\<^sup>* race_start (foldl (\<lambda>h i. heap_act i h) race_start [0, 1, 0, 1, 0, 1])"
      by (rule foldl_reaches [where P = "\<lambda>h. length (rh_calls h) = 2"])
        (auto simp: len race_start_def intro: heap_act_step)
    then show ?thesis by (simp add: race_end_def)
  qed
  ultimately show ?thesis by (meson converse_rtranclp_into_rtranclp)
qed

section \<open>Properties\<close>



text \<open>C21 The log of an upstream's health is faithful under any interleaving: its entries
  alternate, starting with a failure, and the last one is what readers see.\<close>

theorem health_log_alternates:
  assumes "heap_step\<^sup>*\<^sup>* heap_new h"
  shows "successively (\<noteq>) (transitions addr (rh_log h))
    \<and> last (transitions addr (rh_log h)) = heap_is_healthy h addr"
  using heap.transfer_invariant [OF log_invariant refl assms] by (simp add: log_inv_def view_of_def)

theorem health_log_alternates_witness:
  "transitions ''a'' (rh_log race_end) = [True, False, True]
    \<and> last (transitions ''a'' (rh_log race_end)) = heap_is_healthy race_end ''a''"
proof -
  have "transitions ''a'' (rh_log race_end) = [True, False, True]" by code_simp
  with health_log_alternates [OF race_reachable, of "''a''"] show ?thesis by simp
qed

end
