(* ===== verification/Conformance.thy ===== *)
theory Conformance
  imports Routing Upstream Proxy Plugin
begin

text \<open>
  The repository's own unit tests, run against the model: each \<open>#[test]\<close> function of
  \<open>config.rs\<close>, \<open>routing.rs\<close>, \<open>upstream.rs\<close>, \<open>health.rs\<close>, \<open>proxy.rs\<close> and \<open>plugin.rs\<close> is a
  Boolean definition of the same name, with the test's inputs and assertions.  The \<open>http\<close> crate
  is its reference instance \<open>std_http\<close>; the WASM modules of the plugin tests are written from
  their Rust sources.  The features of the build are a parameter: the tests hold for all of
  them.  An error message an assertion looks for is the constructor of the error with that
  message.
\<close>

abbreviation is_err :: "'e + 'a \<Rightarrow> bool" where
  "is_err r \<equiv> (case r of Inl _ \<Rightarrow> True | Inr _ \<Rightarrow> False)"

section \<open>Configuration\<close>

definition minimal_config :: "string \<Rightarrow> config" where
  "minimal_config upstream_addr = \<lparr>
     cfg_global = \<lparr>gc_workers = None, gc_log_format = None, gc_log_level = None, gc_metrics_addr = None\<rparr>,
     cfg_listener = [\<lparr>lc_addr = ''127.0.0.1:8080'', lc_protocol = ''http'', lc_tls_cert = None,
       lc_tls_key = None, lc_tls_client_ca = None, lc_acme = None\<rparr>],
     cfg_route = [\<lparr>rc_name = ''default'', rc_host = None, rc_path = None, rc_when = None,
       rc_upstream = [\<lparr>uc_addr = upstream_addr, uc_weight = None\<rparr>], rc_mirror = None,
       rc_timeout = \<lparr>tc_connect = None, tc_first_byte = None, tc_total = None\<rparr>,
       rc_headers = \<lparr>hc_request = None, hc_response = None\<rparr>, rc_health_check = None,
       rc_retries = None, rc_plugin = None\<rparr>]\<rparr>"

abbreviation base :: config where
  "base \<equiv> minimal_config ''http://127.0.0.1:9000''"

text \<open>Assignments to the first listener, route and upstream.\<close>

definition with_listener :: "(listener_config \<Rightarrow> listener_config) \<Rightarrow> config \<Rightarrow> config" where
  "with_listener f c = c\<lparr>cfg_listener := (cfg_listener c)[0 := f (cfg_listener c ! 0)]\<rparr>"

definition with_route :: "(route_config \<Rightarrow> route_config) \<Rightarrow> config \<Rightarrow> config" where
  "with_route f c = c\<lparr>cfg_route := (cfg_route c)[0 := f (cfg_route c ! 0)]\<rparr>"

definition with_upstream :: "(upstream_config \<Rightarrow> upstream_config) \<Rightarrow> config \<Rightarrow> config" where
  "with_upstream f = with_route (\<lambda>r. r\<lparr>rc_upstream := (rc_upstream r)[0 := f (rc_upstream r ! 0)]\<rparr>)"

abbreviation outcome_of :: "features \<Rightarrow> config \<Rightarrow> config_error option" where
  "outcome_of F c \<equiv> snd (validate std_http F c)"

definition parses_minimal_config :: "features \<Rightarrow> bool" where
  "parses_minimal_config F = (length (cfg_listener base) = 1
     \<and> uc_addr (rc_upstream (cfg_route base ! 0) ! 0) = ''http://127.0.0.1:9000''
     \<and> outcome_of F base = None)"

definition rejects_https_upstream :: "features \<Rightarrow> bool" where
  "rejects_https_upstream F = (case outcome_of F (minimal_config ''https://example.com'') of
     Some (HttpsUpstream _ _) \<Rightarrow> True | _ \<Rightarrow> False)"

definition rejects_https_listener_without_cert :: "features \<Rightarrow> bool" where
  "rejects_https_listener_without_cert F =
     (outcome_of F (with_listener (\<lambda>l. l\<lparr>lc_protocol := ''https''\<rparr>) base) \<noteq> None)"

definition rejects_unknown_protocol :: "features \<Rightarrow> bool" where
  "rejects_unknown_protocol F =
     (outcome_of F (with_listener (\<lambda>l. l\<lparr>lc_protocol := ''quic''\<rparr>) base) \<noteq> None)"

definition rejects_path_without_leading_slash :: "features \<Rightarrow> bool" where
  "rejects_path_without_leading_slash F =
     (outcome_of F (with_route (\<lambda>r. r\<lparr>rc_path := Some ''api''\<rparr>) base) \<noteq> None)"

definition rejects_zero_retries :: "features \<Rightarrow> bool" where
  "rejects_zero_retries F = (outcome_of F (with_route (\<lambda>r. r\<lparr>rc_retries := Some 0\<rparr>) base) \<noteq> None)"

definition rejects_upstream_weight_over_max :: "features \<Rightarrow> bool" where
  "rejects_upstream_weight_over_max F =
     (case outcome_of F (with_upstream (\<lambda>u. u\<lparr>uc_weight := Some (MAX_UPSTREAM_WEIGHT + 1)\<rparr>) base) of
        Some (WeightTooLarge _ _ _) \<Rightarrow> True | _ \<Rightarrow> False)"

definition accepts_upstream_weight_at_max :: "features \<Rightarrow> bool" where
  "accepts_upstream_weight_at_max F =
     (outcome_of F (with_upstream (\<lambda>u. u\<lparr>uc_weight := Some MAX_UPSTREAM_WEIGHT\<rparr>) base) = None)"

definition max_attempts_defaults :: bool where
  "max_attempts_defaults =
     (let one = base;
          two = with_route (\<lambda>r. r\<lparr>rc_upstream := rc_upstream r @
            [\<lparr>uc_addr = ''http://127.0.0.1:9001'', uc_weight = None\<rparr>]\<rparr>) one;
          five = with_route (\<lambda>r. r\<lparr>rc_retries := Some 5\<rparr>) two
      in max_attempts (cfg_route one ! 0) = 1 \<and> max_attempts (cfg_route two ! 0) = 2
         \<and> max_attempts (cfg_route five ! 0) = 5)"

definition rejects_tls_client_ca_on_http_listener :: "features \<Rightarrow> bool" where
  "rejects_tls_client_ca_on_http_listener F =
     (outcome_of F (with_listener (\<lambda>l. l\<lparr>lc_tls_client_ca := Some ''./ca.pem''\<rparr>) base) \<noteq> None)"

definition acme_config :: "string list \<Rightarrow> auto_tls_config" where
  "acme_config domains = \<lparr>at_domains = domains, at_contact_emails = None, at_cache_dir = None,
     at_directory_url = None, at_staging = Some True, at_ca_cert = None\<rparr>"

definition acme_requires_https_protocol :: "features \<Rightarrow> bool" where
  "acme_requires_https_protocol F =
     (outcome_of F (with_listener (\<lambda>l. l\<lparr>lc_acme := Some (acme_config [''example.com''])\<rparr>) base) \<noteq> None)"

definition acme_rejects_empty_domains :: "features \<Rightarrow> bool" where
  "acme_rejects_empty_domains F = (outcome_of F (with_listener (\<lambda>l. l\<lparr>lc_protocol := ''https'',
     lc_acme := Some (acme_config [])\<rparr>) base) \<noteq> None)"

definition acme_mutually_exclusive_with_static_cert :: "features \<Rightarrow> bool" where
  "acme_mutually_exclusive_with_static_cert F = (outcome_of F (with_listener (\<lambda>l. l\<lparr>lc_protocol := ''https'',
     lc_tls_cert := Some ''./tls.crt'', lc_tls_key := Some ''./tls.key'',
     lc_acme := Some (acme_config [''example.com''])\<rparr>) base) \<noteq> None)"

definition acme_mutually_exclusive_with_mtls :: "features \<Rightarrow> bool" where
  "acme_mutually_exclusive_with_mtls F = (outcome_of F (with_listener (\<lambda>l. l\<lparr>lc_protocol := ''https'',
     lc_tls_client_ca := Some ''./ca.pem'', lc_acme := Some (acme_config [''example.com''])\<rparr>) base) \<noteq> None)"

definition acme_rejects_invalid_directory_url :: "features \<Rightarrow> bool" where
  "acme_rejects_invalid_directory_url F = (outcome_of F (with_listener (\<lambda>l. l\<lparr>lc_protocol := ''https'',
     lc_acme := Some ((acme_config [''example.com''])\<lparr>at_directory_url := Some ''not a url''\<rparr>)\<rparr>) base) \<noteq> None)"

definition acme_valid_config_passes_with_feature_enabled :: "features \<Rightarrow> bool" where
  "acme_valid_config_passes_with_feature_enabled F = (if feat_acme F
     then outcome_of F (with_listener (\<lambda>l. l\<lparr>lc_protocol := ''https'',
       lc_acme := Some (acme_config [''example.com''])\<rparr>) base) = None else True)"

definition acme_valid_config_rejected_without_feature :: "features \<Rightarrow> bool" where
  "acme_valid_config_rejected_without_feature F = (if feat_acme F then True
     else (case outcome_of F (with_listener (\<lambda>l. l\<lparr>lc_protocol := ''https'',
         lc_acme := Some (acme_config [''example.com''])\<rparr>) base) of
       Some (AcmeNotCompiled _) \<Rightarrow> True | _ \<Rightarrow> False))"

definition with_mirror :: "string \<Rightarrow> nat option \<Rightarrow> config" where
  "with_mirror addr rate = with_route (\<lambda>r. r\<lparr>rc_mirror := Some \<lparr>mc_addr = addr, mc_rate = rate\<rparr>\<rparr>) base"

definition rejects_invalid_mirror_addr :: "features \<Rightarrow> bool" where
  "rejects_invalid_mirror_addr F = (outcome_of F (with_mirror ''http://127.0.0.1:not-a-port'' None) \<noteq> None)"

definition rejects_mirror_rate_over_100 :: "features \<Rightarrow> bool" where
  "rejects_mirror_rate_over_100 F = (outcome_of F (with_mirror ''http://127.0.0.1:9001'' (Some 101)) \<noteq> None)"

definition accepts_valid_mirror :: "features \<Rightarrow> bool" where
  "accepts_valid_mirror F = (outcome_of F (with_mirror ''http://127.0.0.1:9001'' (Some 50)) = None)"

definition rejects_invalid_header_name :: "features \<Rightarrow> bool" where
  "rejects_invalid_header_name F = (outcome_of F (with_route (\<lambda>r. r\<lparr>rc_headers :=
     (rc_headers r)\<lparr>hc_request := Some [(''bad header name'', ''value'')]\<rparr>\<rparr>) base) \<noteq> None)"

definition accepts_empty_header_value_as_removal :: "features \<Rightarrow> bool" where
  "accepts_empty_header_value_as_removal F = (outcome_of F (with_route (\<lambda>r. r\<lparr>rc_headers :=
     (rc_headers r)\<lparr>hc_response := Some [(''x-remove-me'', '''')]\<rparr>\<rparr>) base) = None)"

definition parse_duration_units :: bool where
  "parse_duration_units = (parse_duration ''200ms'' = Inr 200 \<and> parse_duration ''30s'' = Inr 30000
     \<and> parse_duration ''5m'' = Inr 300000 \<and> is_err (parse_duration ''30'')
     \<and> is_err (parse_duration ''abc'') \<and> is_err (parse_duration ''30h''))"

definition config_tests :: "features \<Rightarrow> bool list" where
  "config_tests F = [parses_minimal_config F, rejects_https_upstream F,
     rejects_https_listener_without_cert F, rejects_unknown_protocol F,
     rejects_path_without_leading_slash F, rejects_zero_retries F, rejects_upstream_weight_over_max F,
     accepts_upstream_weight_at_max F, max_attempts_defaults, rejects_tls_client_ca_on_http_listener F,
     acme_requires_https_protocol F, acme_rejects_empty_domains F,
     acme_mutually_exclusive_with_static_cert F, acme_mutually_exclusive_with_mtls F,
     acme_rejects_invalid_directory_url F, acme_valid_config_passes_with_feature_enabled F,
     acme_valid_config_rejected_without_feature F, rejects_invalid_mirror_addr F,
     rejects_mirror_rate_over_100 F, accepts_valid_mirror F, rejects_invalid_header_name F,
     accepts_empty_header_value_as_removal F, parse_duration_units]"

lemma config_tests_pass: "list_all id (config_tests F)"
proof -
  have "list_all id (config_tests \<lparr>feat_acme = a, feat_plugins = p\<rparr>)" for a p
    by (induction a; induction p; code_simp)
  then show ?thesis by (cases F) simp
qed

section \<open>Routing\<close>

definition test_route :: "string \<Rightarrow> string option \<Rightarrow> string option \<Rightarrow> route_config" where
  "test_route name host path = \<lparr>rc_name = name, rc_host = host, rc_path = path, rc_when = None,
     rc_upstream = [\<lparr>uc_addr = ''http://127.0.0.1:9000'', uc_weight = None\<rparr>], rc_mirror = None,
     rc_timeout = \<lparr>tc_connect = None, tc_first_byte = None, tc_total = None\<rparr>,
     rc_headers = \<lparr>hc_request = None, hc_response = None\<rparr>, rc_health_check = None,
     rc_retries = None, rc_plugin = None\<rparr>"

abbreviation selected :: "route_config list \<Rightarrow> string option \<Rightarrow> string \<Rightarrow> string option" where
  "selected routes host path \<equiv> map_option rc_name (select_route routes host path)"

definition matches_catch_all_when_no_constraints :: bool where
  "matches_catch_all_when_no_constraints = (let routes = [test_route ''default'' None None] in
     selected routes (Some ''example.com'') ''/anything'' = Some ''default''
     \<and> selected routes None ''/'' = Some ''default'')"

definition matches_exact_host :: bool where
  "matches_exact_host = (let routes = [test_route ''api'' (Some ''api.example.com'') None] in
     selected routes (Some ''api.example.com'') ''/'' \<noteq> None
     \<and> selected routes (Some ''api.example.com:8080'') ''/'' \<noteq> None
     \<and> selected routes (Some ''other.example.com'') ''/'' = None
     \<and> selected routes None ''/'' = None)"

definition matches_wildcard_host :: bool where
  "matches_wildcard_host = (let routes = [test_route ''tenant'' (Some ''*.example.com'') None] in
     selected routes (Some ''a.example.com'') ''/'' \<noteq> None
     \<and> selected routes (Some ''example.com'') ''/'' \<noteq> None
     \<and> selected routes (Some ''notexample.com'') ''/'' = None)"

definition matches_path_prefix_on_segment_boundary :: bool where
  "matches_path_prefix_on_segment_boundary = (let routes = [test_route ''api'' None (Some ''/api'')] in
     selected routes None ''/api'' \<noteq> None \<and> selected routes None ''/api/v1/users'' \<noteq> None
     \<and> selected routes None ''/apiary'' = None \<and> selected routes None ''/'' = None)"

definition first_match_wins_in_config_order :: bool where
  "first_match_wins_in_config_order = (let routes = [
       test_route ''specific'' (Some ''api.example.com'') (Some ''/v1''), test_route ''catch-all'' None None] in
     selected routes (Some ''api.example.com'') ''/v1/x'' = Some ''specific''
     \<and> selected routes (Some ''other.com'') ''/v1/x'' = Some ''catch-all'')"

definition no_match_returns_none :: bool where
  "no_match_returns_none =
     (selected [test_route ''api'' (Some ''api.example.com'') (Some ''/v1'')] (Some ''api.example.com'') ''/v2'' = None)"

definition routing_tests :: "bool list" where
  "routing_tests = [matches_catch_all_when_no_constraints, matches_exact_host, matches_wildcard_host,
     matches_path_prefix_on_segment_boundary, first_match_wins_in_config_order, no_match_returns_none]"

lemma routing_tests_pass: "list_all id routing_tests"
  by code_simp

section \<open>Load balancing\<close>

definition pool :: "string \<Rightarrow> nat \<Rightarrow> upstream_pool" where
  "pool addr weight = \<lparr>up_addr = addr, up_weight = weight\<rparr>"

text \<open>As many selections in a row as there are entries in the list, each with the registry and
  the exclusions of the test.\<close>

fun healthy_run ::
  "nat \<Rightarrow> health_registry \<Rightarrow> string list \<Rightarrow> load_balancer \<Rightarrow> upstream_pool option list" where
  "healthy_run 0 reg exclude lb = []"
| "healthy_run (Suc n) reg exclude lb =
     (case next_healthy lb (is_healthy reg) exclude of (u, lb') \<Rightarrow> u # healthy_run n reg exclude lb')"

abbreviation addrs :: "upstream_pool option list \<Rightarrow> string option list" where
  "addrs us \<equiv> map (map_option up_addr) us"

definition empty_returns_none :: bool where
  "empty_returns_none = (case fst (lb_next (lb_new [])) of None \<Rightarrow> True | Some _ \<Rightarrow> False)"

definition round_robin_alternates_equal_weights :: bool where
  "round_robin_alternates_equal_weights =
     (addrs (lb_run 4 (lb_new [pool ''a'' 50, pool ''b'' 50])) = [Some ''a'', Some ''b'', Some ''a'', Some ''b''])"

definition weights_reduce_by_gcd :: bool where
  "weights_reduce_by_gcd = (length (lb_upstreams (lb_new [pool ''a'' 100, pool ''b'' 100])) = 2)"

definition respects_weight_ratio :: bool where
  "respects_weight_ratio = (let picks = addrs (lb_run 100 (lb_new [pool ''a'' 75, pool ''b'' 25])) in
     count_list picks (Some ''a'') = 75 \<and> count_list picks (Some ''b'') = 25)"

definition zero_weight_treated_as_one :: bool where
  "zero_weight_treated_as_one = (map_option up_addr (fst (lb_next (lb_new [pool ''a'' 0]))) = Some ''a'')"

definition next_healthy_skips_unhealthy :: bool where
  "next_healthy_skips_unhealthy = (let health = set_flag registry_new ''a'' False in
     list_all (\<lambda>p. p = Some ''b'') (addrs (healthy_run 4 health [] (lb_new [pool ''a'' 50, pool ''b'' 50]))))"

definition next_healthy_skips_excluded :: bool where
  "next_healthy_skips_excluded = list_all (\<lambda>p. p = Some ''b'')
     (addrs (healthy_run 4 registry_new [''a''] (lb_new [pool ''a'' 50, pool ''b'' 50])))"

definition next_healthy_fails_open_when_all_excluded :: bool where
  "next_healthy_fails_open_when_all_excluded =
     (addrs (healthy_run 1 registry_new [''a''] (lb_new [pool ''a'' 100])) = [Some ''a''])"

definition upstream_tests :: "bool list" where
  "upstream_tests = [empty_returns_none, round_robin_alternates_equal_weights, weights_reduce_by_gcd,
     respects_weight_ratio, zero_weight_treated_as_one, next_healthy_skips_unhealthy,
     next_healthy_skips_excluded, next_healthy_fails_open_when_all_excluded]"

lemma upstream_tests_pass: "list_all id upstream_tests"
  by code_simp

section \<open>Health\<close>

definition untracked_addr_is_healthy :: bool where
  "untracked_addr_is_healthy = is_healthy registry_new ''http://127.0.0.1:1''"

definition set_then_read_reflects_state :: bool where
  "set_then_read_reflects_state =
     (let down = fst (registry_set registry_new ''http://127.0.0.1:1'' False);
          up = fst (registry_set down ''http://127.0.0.1:1'' True)
      in \<not> is_healthy down ''http://127.0.0.1:1'' \<and> is_healthy up ''http://127.0.0.1:1'')"

text \<open>The connection is refused, or cannot be made in time.\<close>

definition probe_unreachable_upstream_is_unhealthy :: "duration \<Rightarrow> bool" where
  "probe_unreachable_upstream_is_unhealthy elapsed =
     (\<not> probe_once (\<lambda>_ _ _. (elapsed, None)) ''http://127.0.0.1:1'' ''/'' 300)"

lemma health_tests_pass:
  "untracked_addr_is_healthy" "set_then_read_reflects_state" "probe_unreachable_upstream_is_unhealthy elapsed"
  by (code_simp, code_simp,
    simp add: probe_unreachable_upstream_is_unhealthy_def probe_once_def Let_def split: sum.splits prod.splits)

section \<open>Request forwarding\<close>

definition host_port_with_scheme_and_port :: bool where
  "host_port_with_scheme_and_port = (upstream_host_port ''http://localhost:9999'' = Inr (''localhost'', 9999))"

definition host_port_defaults_to_80 :: bool where
  "host_port_defaults_to_80 = (upstream_host_port ''http://example.com'' = Inr (''example.com'', 80))"

definition host_port_without_scheme :: bool where
  "host_port_without_scheme = (upstream_host_port ''127.0.0.1:8080'' = Inr (''127.0.0.1'', 8080))"

definition host_port_ignores_path :: bool where
  "host_port_ignores_path = (upstream_host_port ''http://example.com:8080/path'' = Inr (''example.com'', 8080))"

definition host_port_rejects_empty :: bool where
  "host_port_rejects_empty = (is_err (upstream_host_port ''http://'') \<and> is_err (upstream_host_port ''http://:8080''))"

definition headers_of :: "(string \<times> string) list \<Rightarrow> assoc_headers" where
  "headers_of = foldl (\<lambda>m (n, v). hm_insert std_http m n v) (hm_new std_http)"

definition strips_hop_by_hop_headers :: bool where
  "strips_hop_by_hop_headers =
     (let headers = strip_hop_by_hop std_http (headers_of [(''connection'', ''close, x-custom''),
        (''keep-alive'', ''timeout=5''), (''x-custom'', ''1''), (''x-kept'', ''1'')])
      in hm_get std_http headers ''connection'' = None \<and> hm_get std_http headers ''keep-alive'' = None
         \<and> hm_get std_http headers ''x-custom'' = None \<and> hm_get std_http headers ''x-kept'' \<noteq> None)"

definition appends_to_existing_xff :: bool where
  "appends_to_existing_xff =
     (let headers = append_forwarded_headers std_http (headers_of [(''x-forwarded-for'', ''10.0.0.1'')])
        \<lparr>ip_text = ''192.168.1.5'', port_num = 1234\<rparr> ''https''
      in hm_get std_http headers ''x-forwarded-for'' = Some ''10.0.0.1, 192.168.1.5''
         \<and> hm_get std_http headers ''x-forwarded-proto'' = Some ''https'')"

definition header_override_sets_and_replaces :: bool where
  "header_override_sets_and_replaces =
     (let headers = apply_header_overrides std_http (headers_of [(''x-existing'', ''old'')])
        [(''x-existing'', ''new''), (''x-new'', ''added'')]
      in hm_get std_http headers ''x-existing'' = Some ''new'' \<and> hm_get std_http headers ''x-new'' = Some ''added'')"

definition header_override_empty_value_removes :: bool where
  "header_override_empty_value_removes =
     (hm_get std_http (apply_header_overrides std_http (headers_of [(''x-remove-me'', ''value'')])
        [(''x-remove-me'', '''')]) ''x-remove-me'' = None)"

definition proxy_tests :: "bool list" where
  "proxy_tests = [host_port_with_scheme_and_port, host_port_defaults_to_80, host_port_without_scheme,
     host_port_ignores_path, host_port_rejects_empty, strips_hop_by_hop_headers, appends_to_existing_xff,
     header_override_sets_and_replaces, header_override_empty_value_removes]"

lemma proxy_tests_pass: "list_all id proxy_tests"
  by code_simp

section \<open>Plugins\<close>

text \<open>
  The modules the tests compile from Rust source, as wasmtime runs them: memory is a list of
  written blocks, \<open>alloc\<close> hands out fresh addresses (the Rust allocator inside the module is
  stood for by a bump pointer), and a loop burns the fuel of its store until it traps.
\<close>

datatype test_plugin = ALLOW_ALL | DENY_POST | INFINITE_LOOP | NO_EXPORTS

record test_store =
  ts_fuel :: nat
  ts_break :: nat
  ts_blocks :: "(64 word \<times> string) list"

definition test_alloc :: "test_store \<Rightarrow> 32 word \<Rightarrow> (32 word \<times> test_store) option" where
  "test_alloc st len = Some (of_nat (ts_break st), st\<lparr>ts_break := ts_break st + max 1 (unat len)\<rparr>)"

definition block_at :: "test_store \<Rightarrow> 32 word \<Rightarrow> 32 word \<Rightarrow> string" where
  "block_at st ptr len = (case map_of (ts_blocks st) (ucast ptr) of
     None \<Rightarrow> [] | Some bytes \<Rightarrow> take (unat len) bytes)"

fun burn :: "nat \<Rightarrow> 32 word option" where
  "burn 0 = None"
| "burn (Suc fuel) = burn fuel"

fun test_on_request ::
  "test_plugin \<Rightarrow> test_store \<Rightarrow> 32 word \<Rightarrow> 32 word \<Rightarrow> 32 word \<Rightarrow> 32 word \<Rightarrow> 32 word option" where
  "test_on_request ALLOW_ALL st mp ml pp pl = Some 0"
| "test_on_request DENY_POST st mp ml pp pl = Some (if block_at st mp ml = ''POST'' then 403 else 0)"
| "test_on_request INFINITE_LOOP st mp ml pp pl = burn (ts_fuel st)"
| "test_on_request NO_EXPORTS st mp ml pp pl = None"

text \<open>A store runs one module, the one it was instantiated with.\<close>

definition test_wasm :: "(test_plugin, test_plugin option \<times> test_store) wasm_api" where
  "test_wasm = \<lparr>wa_engine = True,
     wa_compile = (\<lambda>bytes. if bytes = ''ALLOW_ALL'' then Some ALLOW_ALL
        else if bytes = ''DENY_POST'' then Some DENY_POST
        else if bytes = ''INFINITE_LOOP'' then Some INFINITE_LOOP
        else if bytes = '''' then Some NO_EXPORTS else None),
     wa_export = (\<lambda>module _. module \<noteq> NO_EXPORTS),
     wa_store = (\<lambda>fuel. Some (None, \<lparr>ts_fuel = fuel, ts_break = 1024, ts_blocks = []\<rparr>)),
     wa_instantiate = (\<lambda>module st. Some (Some module, snd st)),
     wa_memory = (\<lambda>_. True), wa_typed = (\<lambda>_ _. True),
     wa_alloc = (\<lambda>st len. map_option (\<lambda>(ptr, s). (ptr, (fst st, s))) (test_alloc (snd st) len)),
     wa_write = (\<lambda>st ptr bytes. Some (fst st, (snd st)\<lparr>ts_blocks := (ptr, bytes) # ts_blocks (snd st)\<rparr>)),
     wa_on_request = (\<lambda>st mp ml pp pl. Option.bind (fst st) (\<lambda>module.
        test_on_request module (snd st) mp ml pp pl))\<rparr>"

text \<open>\<open>Plugin::load\<close> of the compiled file, then the calls of the test.\<close>

definition with_plugin :: "string \<Rightarrow> (test_plugin \<Rightarrow> bool) \<Rightarrow> bool" where
  "with_plugin source test =
     (case plugin_load test_wasm (\<lambda>_. Some source) ''plugin.wasm'' of Inl _ \<Rightarrow> False | Inr plugin \<Rightarrow> test plugin)"

definition allow_all_plugin_allows_everything :: bool where
  "allow_all_plugin_allows_everything = with_plugin ''ALLOW_ALL'' (\<lambda>plugin.
     evaluate test_wasm plugin ''GET'' ''/'' = Allow \<and> evaluate test_wasm plugin ''POST'' ''/anything'' = Allow)"

definition plugin_can_deny_by_method :: bool where
  "plugin_can_deny_by_method = with_plugin ''DENY_POST'' (\<lambda>plugin.
     evaluate test_wasm plugin ''GET'' ''/'' = Allow \<and> evaluate test_wasm plugin ''POST'' ''/'' = Deny 403)"

definition plugin_is_isolated_between_calls :: bool where
  "plugin_is_isolated_between_calls = with_plugin ''DENY_POST'' (\<lambda>plugin.
     list_all (\<lambda>_. evaluate test_wasm plugin ''GET'' ''/'' = Allow) [0..<50])"

definition infinite_loop_is_fuel_limited_not_hung :: bool where
  "infinite_loop_is_fuel_limited_not_hung = with_plugin ''INFINITE_LOOP'' (\<lambda>plugin.
     evaluate test_wasm plugin ''GET'' ''/'' = Deny 500)"

definition load_rejects_missing_exports :: bool where
  "load_rejects_missing_exports = is_err (plugin_load test_wasm (\<lambda>_. Some '''') ''plugin.wasm'')"

definition plugin_tests :: "bool list" where
  "plugin_tests = [allow_all_plugin_allows_everything, plugin_can_deny_by_method,
     plugin_is_isolated_between_calls, infinite_loop_is_fuel_limited_not_hung, load_rejects_missing_exports]"

lemma burn_traps: "burn fuel = None"
  by (induction fuel) simp_all

lemma infinite_loop_traps: "infinite_loop_is_fuel_limited_not_hung"
proof -
  have "plugin_load test_wasm (\<lambda>_. Some ''INFINITE_LOOP'') ''plugin.wasm'' = Inr INFINITE_LOOP" by code_simp
  moreover have "try_evaluate test_wasm INFINITE_LOOP m p = Inl Trapped" for m p
    by (simp add: try_evaluate_def test_wasm_def write_bytes_def and_then_def ok_or_def require_def
        test_alloc_def burn_traps)
  ultimately show ?thesis
    by (simp add: infinite_loop_is_fuel_limited_not_hung_def with_plugin_def evaluate_def)
qed

lemma plugin_tests_pass: "list_all id plugin_tests"
proof -
  have "allow_all_plugin_allows_everything" "plugin_can_deny_by_method" "plugin_is_isolated_between_calls"
    "load_rejects_missing_exports" by code_simp+
  with infinite_loop_traps show ?thesis by (simp add: plugin_tests_def)
qed

section \<open>Properties\<close>


end
