(* ===== verification/Spec2Isabelle.thy ===== *)
theory Spec2Isabelle
  imports End_To_End Calm_Runs Fine_Progress Health_Timing Registry_Heap Selection Conformance
begin

text \<open>
  A verification development for torana, a reverse proxy written in Rust
  (\<open>torana-core/src\<close>, \<open>torana/src/main.rs\<close>).

  \<^bold>\<open>The program.\<close>  \<open>main\<close> loads a TOML configuration, validates it and runs a \<open>Server\<close>: it
  binds a monitoring endpoint and one socket per listener, starts the health probers, and then
  accepts connections until a termination signal, after which it drains them.  Every request
  of every connection is passed to \<open>ProxyEngine::handle\<close>, which selects a route, runs the
  route's WASM filter, mirrors the request if asked to, and forwards it to an upstream of the
  route, retrying safe requests on other upstreams.  All requests share one engine: the
  configuration, the load balancers, the plugin cache, the health registry and the counters,
  each behind a lock or an atomic.  Probers write the registry; a SIGHUP rebuilds everything
  from the file and swaps it in, one lock after the other, while requests run.

  \<^bold>\<open>The theories.\<close>  Definitions carry the names of the functions they translate.

  \<^item> \<open>Torana_Prelude\<close>, \<open>Std_Net\<close>: what the code uses of Rust's standard library (string
    functions on byte strings, decimal numbers, the socket address parser); \<open>Http_Api\<close>: the
    functions of the \<open>http\<close> crate, a record of parameters with the locale \<open>header_map\<close> of the
    documented laws and a reference instance; \<open>Transition\<close>: the locales \<open>invariant_system\<close>,
    \<open>simulation\<close>, \<open>ranking\<close> and \<open>fair_ranking\<close> (progress of infinite runs).
  \<^item> \<open>Config\<close>, \<open>Validation\<close> (\<open>config.rs\<close>): the configuration records, durations, \<open>validate\<close> as
    the sequence of its checks; it decides the declarative \<open>valid_config\<close>, and what it accepts
    has parseable addresses and usable, bounded schedules.
  \<^item> \<open>Routing\<close> (\<open>routing.rs\<close>): matchers and first match, equal to label-wise and segment-wise
    descriptions.
  \<^item> \<open>Upstream_Addr\<close>, \<open>Proxy\<close> (\<open>proxy.rs\<close>): upstream addresses, hop-by-hop stripping, overrides,
    forwarded headers, the outgoing request.
  \<^item> \<open>Upstream\<close>, \<open>Selection\<close> (\<open>upstream.rs\<close>): the weighted schedule, round robin on a wrapping
    64-bit counter, health-aware selection behind the locale \<open>balancer\<close>; \<open>Selection\<close> lets
    health change between the lookups of one selection.
  \<^item> \<open>Health\<close>, \<open>Registry_Heap\<close>, \<open>Health_Timing\<close> (\<open>health.rs\<close>): registry, probes and probers
    behind the locale \<open>health_view\<close>; \<open>Registry_Heap\<close> has the shared flags in a heap and the
    calls of \<open>set\<close> interleaved, and simulates the atomic registry; \<open>Health_Timing\<close> puts the
    prober's loop in time and bounds how long the registry may be wrong.
  \<^item> \<open>Plugin\<close> (\<open>plugin.rs\<close>): loading, evaluation with every failure, the cache.
  \<^item> \<open>Engine\<close>, \<open>Handling\<close> (\<open>server.rs\<close>, \<open>ProxyEngine\<close>): the shared state \<open>world\<close>, one attempt, the
    retry loop, \<open>handle\<close>; the inductive \<open>policy\<close> is its abstract specification.  What other
    tasks do to the shared state before an attempt is a parameter (\<open>env_interfere\<close>), so the
    properties hold under interference.
  \<^item> \<open>Reload\<close> (\<open>reload.rs\<close>): the process, the four swaps of a reload, and \<open>proc_step\<close>, one
    atomic action of any task, with its invariant, and the part of it that also holds when
    plugins failed to load at start-up.
  \<^item> \<open>Concurrency\<close>, \<open>Concurrent_Runs\<close>, \<open>Calm_Runs\<close>: requests as tasks that are suspended at every
    await, and the system of the process and any number of tasks; it simulates the process, and each
    task refines a run of \<open>handle\<close>; what holds over whole runs: requests end, fair schedules
    starve nobody, reloads complete, and between reloads requests are served.
  \<^item> \<open>Locks\<close>, \<open>Fine_Grained\<close>, \<open>Fine_Locks\<close>, \<open>Fine_Requests\<close>, \<open>Fine_Progress\<close>: the same system one
    level down, where the \<open>Arc\<close>s of the balancers are addresses of a heap, the configuration is
    behind a lock that requests queue for and may hold while they wait for the plugin cache, a
    selection is one counter increment and one health lookup at a time, a reload queues as a
    writer, and clients give up.  tokio's \<open>RwLock\<close> is a parameter (\<open>lock_api\<close>) with the locale
    \<open>fair_lock\<close> of its documented laws and a first-in, first-out instance.  \<open>fine_step\<close>
    simulates \<open>proc_step\<close>; requests still refine \<open>handle\<close> (\<open>Fine_Requests\<close>), and the locale
    \<open>fine_run\<close> has the infinite runs in which everyone gets turns (\<open>Fine_Progress\<close>).
  \<^item> \<open>Tls\<close> (\<open>tls.rs\<close>, \<open>acme.rs\<close>), \<open>Monitoring\<close> (\<open>metrics.rs\<close>, \<open>serve_metrics\<close>), \<open>Drain\<close> (graceful
    shutdown), \<open>Server\<close> (\<open>main.rs\<close>, \<open>logging.rs\<close>, \<open>Server::run\<close>, listeners and connections).
  \<^item> \<open>Lifecycle\<close>, \<open>End_To_End\<close>: the whole server after start-up: listeners, connections that own
    the tasks of their requests, the process, and the drain; it simulates the systems of
    \<open>Concurrency\<close> and \<open>Drain\<close>.  What hyper and rustls do at the edge is a parameter (\<open>edge_api\<close>)
    with the locale \<open>edge\<close> of the documented laws.  \<open>End_To_End\<close> has what holds from \<open>main\<close> on.
  \<^item> \<open>Conformance\<close>: the unit tests of the repository, run against the definitions.

  \<^bold>\<open>What is shown.\<close>  Requests: when they are retried and how often, what the reply is on every
  path, which headers reach upstreams and clients, which upstreams are tried, how long it
  takes.  The process: a started process runs what its file says; between reloads its
  configuration, balancers, plugins and probers belong together, so requests are served and
  filtered; a reload is all or nothing.  Identities that reach an upstream are those of the
  connection's certificate.  Concurrency: finished requests are runs of \<open>handle\<close>
  on states the process had, also when their lock operations, increments and lookups are
  interleaved with a reload; the configuration lock deadlocks and starves nobody, every request
  ends, no count is lost, no attempt leaves the accepted configurations, health writes and
  upstream selection are linearizable, reloads complete.  Health: the registry agrees with the probes of an upstream after a bounded time,
  and a failing upstream then gets no traffic while another is healthy.  Shutdown is bounded,
  and loses no request unless its time runs out or a connection fails.  Lemmas named in the text show where the code departs from its documentation.

  \<^bold>\<open>Numbers and bounds.\<close>  The round-robin counter is a \<open>64 word\<close>, plugin results are \<open>32 word\<close>
  and \<open>16 word\<close>, the conversion of minutes wraps at \<open>64\<close> bits; other integers are naturals on
  which the code does nothing that overflows.  Guarantees of a selection assume that the
  counter does not wrap within it (\<open>lb_room\<close>).  Durations are in milliseconds.  No definition
  needs fuel: the retry loop recurses on the attempts left, and \<open>2 * m + 2\<close> steps are enough
  for a request task because each attempt is at most a choice and an answer.  Infinite runs are
  functions from steps to states; that tasks are polled again and again is a hypothesis on
  them, that the lock is granted in turn follows from its laws.  The number of polls of the
  drain loop, of swaps of a reload and of steps of a task are ranks, not bounds on time.

  \<^bold>\<open>Not modelled.\<close>  Third-party code is a parameter: hyper (HTTP framing, its client and
  connection pool), rustls and rustls-acme, wasmtime, the TOML deserialiser, Prometheus'
  encoder, SHA-256, sockets and the clock.  Bodies are streamed by hyper and carry no
  behaviour of their own here.  Log messages are modelled only where they are the result
  (health transitions, ACME events).  Within one step of \<open>task_run\<close> a request reads the shared
  state once; \<open>Fine_Requests\<close> shows that the steps the code really takes amount to that.  In
  \<open>Fine_Grained\<close> the locks that are released in the poll that acquires them (\<open>lb_cache\<close>,
  \<open>plugin_cache\<close>, the registry, the prober handles) are not queues, and a balancer that is no
  longer shared stays on the heap, as nothing reads it.  A lock is never poisoned: tokio's are not.
  \<open>build_upstream_client\<close> only configures hyper's client.  The decoding of TOML into the
  configuration records, the compilation of test plugins, the re-exports of \<open>lib.rs\<close>, the
  integration tests, benchmarks, examples and the web site are left out.
\<close>

section \<open>Settled states\<close>

text \<open>What one request finds when it runs alone in a state between reloads.\<close>

lemma plan_route_name:
  assumes "plan_route H F w parts = Some plan"
  obtains r where "r \<in> set (cfg_route (w_config w))" "pl_name plan = rc_name r"
    "plan = plan_of_route F (w_plugins w) r"
  using plan_route_SomeD [OF assms] by (metis plan.select_convs(1) plan_of_route_def)

text \<open>Between reloads the proxy serves: in every state the process can reach that is not in
  the middle of a reload, a request from any connection of any listener that matches a route
  and passes its filter is tried on at least one upstream and answered.\<close>

lemma settled_process_serves:
  assumes "accepts (bd_http B) (bd_features B) c"
    and "\<not> feat_plugins (bd_features B) \<or> build_plugin_cache (bd_wasm B) read c = Inr cache"
    and "reachable B (process_start B read c m) p" "ps_stage p = Waiting"
    and "header_map (bd_http B)" "env_http env = bd_http B" "env_interfere env 0 = (\<lambda>w. w)"
    and "open_connection sha256 service peer_addr hs acme = Some (conn, h2)"
    and "plan_route (bd_http B) (env_features env) (ps_world p) parts = Some plan"
    and "plugin_gate (bd_http B) (env_wasm env) plan parts = None"
  shows "1 \<le> length (oc_attempts (handle env parts body conn (ps_world p)))
    \<and> oc_reply (handle env parts body conn (ps_world p)) \<noteq> None"
proof -
  have fp: "fingerprint_ok (env_http env) conn"
    using connection_fingerprint_ok [OF assms(5,8)] assms(6) by simp
  obtain r where "r \<in> set (cfg_route (w_config (ps_world p)))" "pl_name plan = rc_name r"
    using assms(9) by (rule plan_route_name)
  then have "has_upstream (ps_world p) (pl_name plan)"
    using settled_upstreams [OF assms(1) _ assms(3,4)] assms(2) by auto
  then have "has_upstream (env_interfere env 0 (inc_requests (ps_world p))) (pl_name plan)"
    using assms(7) by (simp add: has_upstream_def inc_requests_def)
  with handle_attempts [OF fp] handle_no_panic [OF fp] assms(6,9,10) show ?thesis by simp
qed

lemma settled_process_serves_example:
  "1 \<le> length (oc_attempts (handle (plain_env second_answers) (get_parts []) no_body
      (fst (plain_connection \<lparr>ip_text = ''10.0.0.1'', port_num = 5\<rparr>)) (ps_world (demo_start demo_config))))"
proof -
  let ?B = "demo_build demo_config" and ?env = "plain_env second_answers"
  let ?p = "demo_start demo_config" and ?r = "plain_route ''r'' [''a:1'']"
  let ?plan = "plan_of_route plain_features (w_plugins (ps_world ?p)) ?r"
  have F: "bd_features ?B = plain_features" "bd_http ?B = std_http" "bd_wasm ?B = deny_404"
    "env_http ?env = std_http" "env_features ?env = plain_features" "env_wasm ?env = deny_404"
    by (simp_all add: demo_build_def plain_env_def)
  have acc: "accepts (bd_http ?B) (bd_features ?B) demo_config" unfolding F by code_simp
  have cache: "\<not> feat_plugins (bd_features ?B) \<or>
      build_plugin_cache (bd_wasm ?B) (\<lambda>_. Some '''') demo_config = Inr Map.empty"
    by (simp add: build_plugin_cache_def demo_config_def plain_config_def plain_route_def)
  have start: "ps_stage ?p = Waiting" "w_config (ps_world ?p) = plain_config [?r]"
    "reachable ?B (process_start ?B (\<lambda>_. Some '''') demo_config no_metrics) ?p"
    by (simp_all add: demo_start_def engine_new_def demo_config_def)
  have conn: "open_connection (\<lambda>d. d) (PlainHttp :: (string, string) service)
      \<lparr>ip_text = ''10.0.0.1'', port_num = 5\<rparr> None AcmeFailed
      = Some (fst (plain_connection \<lparr>ip_text = ''10.0.0.1'', port_num = 5\<rparr>), False)"
    by (simp add: open_connection_def plain_connection_def)
  have plan: "plan_route (bd_http ?B) (env_features ?env) (ps_world ?p) (get_parts []) = Some ?plan"
    unfolding F by (rule catch_all_plan [OF _ _ start(2)]) (simp_all add: plain_route_def)
  have gate: "plugin_gate (bd_http ?B) (env_wasm ?env) ?plan (get_parts []) = None"
    by (simp add: plugin_gate_def plan_of_route_def plain_route_def)
  have id: "env_interfere ?env 0 = (\<lambda>w. w)" by (simp add: plain_env_def)
  show ?thesis
    using settled_process_serves [OF acc cache start(3,1) _ _ id conn plan gate, of no_body]
    by (simp add: F header_map_std)
qed

text \<open>Between reloads no filter is missing: once the plugins of the first configuration have
  loaded, every request routed in a settled state to a route that names a plugin is evaluated
  by a plugin.\<close>

lemma settled_process_filters:
  assumes "accepts (bd_http B) (bd_features B) c" "feat_plugins (bd_features B)"
    and "build_plugin_cache (bd_wasm B) read c = Inr cache"
    and "reachable B (process_start B read c m) p" "ps_stage p = Waiting"
    and "select_route (cfg_route (w_config (ps_world p))) (request_host H parts) (uri_path H (pt_uri parts)) = Some r"
    and "rc_plugin r = Some path"
  shows "\<exists>module. w_plugins (ps_world p) path = Some module
    \<and> plan_route H (bd_features B) (ps_world p) parts
        = Some (plan_of_route (bd_features B) (w_plugins (ps_world p)) r)
    \<and> pl_plugin (plan_of_route (bd_features B) (w_plugins (ps_world p)) r) = Some module"
proof -
  have "plugins_fit (bd_features B) (w_plugins (ps_world p)) (w_config (ps_world p))"
    using settled_inv [OF assms(1) _ assms(4)] assms(3,5) by (auto simp: process_inv_def Let_def)
  moreover have "path \<in> plugin_paths (cfg_route (w_config (ps_world p)))"
    using select_route_mem [OF assms(6)] assms(7) by (auto simp: plugin_paths_def)
  ultimately obtain module where "w_plugins (ps_world p) path = Some module"
    using assms(2) by (auto simp: plugins_fit_def)
  with assms(2,6,7) show ?thesis by (simp add: plan_route_def plan_of_route_def)
qed

lemma settled_process_filters_example:
  "let r = (plain_route ''r'' [''a:1''])\<lparr>rc_plugin := Some ''f.wasm''\<rparr>; c = plain_config [r] in
     \<exists>module. w_plugins (ps_world (demo_start c)) ''f.wasm'' = Some module"
proof -
  let ?r = "(plain_route ''r'' [''a:1''])\<lparr>rc_plugin := Some ''f.wasm''\<rparr>"
  let ?c = "plain_config [?r]"
  let ?B = "demo_build ?c"
  have F: "bd_features ?B = plain_features" "bd_http ?B = std_http" "bd_wasm ?B = deny_404"
    by (simp_all add: demo_build_def)
  have acc: "accepts (bd_http ?B) (bd_features ?B) ?c" unfolding F by code_simp
  have on: "feat_plugins (bd_features ?B)" unfolding F by (simp add: plain_features_def)
  have cache: "build_plugin_cache (bd_wasm ?B) (\<lambda>_. Some '''') ?c = Inr (Map.empty(''f.wasm'' \<mapsto> ()))"
    unfolding F by (simp add: build_plugin_cache_def plain_config_def plain_route_def plugin_load_def
        deny_404_def and_then_def ok_or_def require_def)
  have start: "ps_stage (demo_start ?c) = Waiting" "w_config (ps_world (demo_start ?c)) = ?c"
    "reachable ?B (process_start ?B (\<lambda>_. Some '''') ?c no_metrics) (demo_start ?c)"
    by (simp_all add: demo_start_def engine_new_def)
  have route: "select_route (cfg_route (w_config (ps_world (demo_start ?c))))
      (request_host std_http (get_parts [])) (uri_path std_http (pt_uri (get_parts []))) = Some ?r"
    unfolding start(2) by (simp add: plain_config_def select_route_def route_matches_def host_matches_def
        path_matches_def plain_route_def)
  from settled_process_filters [OF acc on cache start(3,1) route, of "''f.wasm''"]
  have "\<exists>module. w_plugins (ps_world (demo_start ?c)) ''f.wasm'' = Some module"
    by (auto simp: plain_route_def)
  then show ?thesis by (simp add: Let_def)
qed

end
